(* ===== verification/Ftx_Prelude.thy ===== *)
theory Ftx_Prelude
  imports Main "HOL-Library.Word"
begin

text \<open>
  Shared vocabulary of the development: the machine integers of the C++ code as fixed-width
  words, byte buffers as lists of 8-bit words, the conversion between \<^verbatim>\<open>std::string\<close> and
  bytes, the collections of simplification rules, and the generic facts about lists and
  words that the component theories use.

  Sizes and indices of in-memory containers (\<^verbatim>\<open>size_t\<close>) are natural numbers: a container
  never holds \<open>2 ^ 64\<close> elements. Every integer that travels on the wire, is stored in a
  file or is computed from such an integer keeps its width.
\<close>

unbundle bit_operations_syntax

type_synonym u8 = "8 word"
type_synonym u16 = "16 word"
type_synonym u32 = "32 word"
type_synonym u64 = "64 word"
type_synonym byte = "8 word"
type_synonym bytes = "8 word list"

named_theorems codec_simps "encoders and decoders unfolded to byte lists"
named_theorems fs_simps "file-system operations on a world without faults"
named_theorems frame_rules "what an operation leaves unchanged"

subsection \<open>Strings as bytes\<close>

definition byte_of_char :: "char \<Rightarrow> byte" where
  "byte_of_char c = word_of_nat (of_char c)"

definition char_of_byte :: "byte \<Rightarrow> char" where
  "char_of_byte b = char_of (unat b)"

abbreviation as_bytes :: "string \<Rightarrow> bytes" where
  "as_bytes s \<equiv> map byte_of_char s"

abbreviation as_string :: "bytes \<Rightarrow> string" where
  "as_string bs \<equiv> map char_of_byte bs"

lemma char_of_byte_of_char [simp]: "char_of_byte (byte_of_char c) = c"
proof -
  have "(of_char c :: nat) < 2 ^ LENGTH(8)"
    using of_char_of [where 'a = nat] by (cases c) (simp add: of_char_def horner_sum_simps)
  then show ?thesis
    by (simp add: char_of_byte_def byte_of_char_def unsigned_of_nat take_bit_nat_eq_self)
qed

lemma byte_of_char_of_byte [simp]: "byte_of_char (char_of_byte b) = b"
proof -
  have "unat b < 2 ^ LENGTH(8)" by (rule unsigned_less)
  then show ?thesis by (simp add: char_of_byte_def byte_of_char_def)
qed

lemma as_string_as_bytes [simp]: "as_string (as_bytes s) = s"
  by (simp add: comp_def)

lemma as_bytes_as_string [simp]: "as_bytes (as_string bs) = bs"
  by (simp add: comp_def)

subsection \<open>Words\<close>

lemma bit_255 [simp]: "bit (255 :: int) i \<longleftrightarrow> i < 8"
proof -
  have "(255 :: int) = mask 8" by (simp add: mask_eq_exp_minus_1)
  then show ?thesis by (metis bit_mask_iff possible_bit_int)
qed

lemma xor_cancel [simp]:
  "(a XOR c = b XOR c) = (a = b)" "(c XOR a = c XOR b) = (a = b)" for a b c :: "'a::len word"
  by (auto simp: bit_eq_iff bit_xor_iff)

lemma ucast_and_255 [simp]: "(ucast (v AND 0xFF) :: byte) = ucast (v :: 'a::len word)"
  by (rule bit_word_eqI) (auto simp: bit_simps dest: bit_imp_le_length)

lemma unat_less: "unat (w :: 'a::len word) < 2 ^ LENGTH('a)"
  by (rule unsigned_less)

lemma unat_less_u16: "unat (w :: u16) < 2 ^ 16" and unat_less_u32: "unat (v :: u32) < 2 ^ 32"
  and unat_less_u64: "unat (x :: u64) < 2 ^ 64"
  using unat_less [of w] unat_less [of v] unat_less [of x] by simp_all

lemma unat_word_of_nat: "n < 2 ^ LENGTH('a) \<Longrightarrow> unat (word_of_nat n :: 'a::len word) = n"
  by (simp add: unsigned_of_nat take_bit_nat_eq_self)

lemma unat_of_nat_u16 [simp]: "n < 2 ^ 16 \<Longrightarrow> unat (word_of_nat n :: u16) = n"
  and unat_of_nat_u32 [simp]: "n < 2 ^ 32 \<Longrightarrow> unat (word_of_nat n :: u32) = n"
  and unat_of_nat_u64 [simp]: "n < 2 ^ 64 \<Longrightarrow> unat (word_of_nat n :: u64) = n"
  by (simp_all add: unat_word_of_nat)

lemma unat_word_of_nat_below: "k < unat (w :: 'a::len word) \<Longrightarrow> unat (word_of_nat k :: 'a word) = k"
  by (rule unat_word_of_nat) (rule less_trans [OF _ unat_less [of w]])

lemma unat_ucast_u32 [simp]: "unat (ucast (w :: u32) :: u64) = unat w"
proof -
  have "unat w < 2 ^ 64" using unat_less_u32 [of w] by simp
  then show ?thesis by (simp add: unsigned_ucast_eq take_bit_nat_eq_self)
qed

lemma unat_pred: "0 < unat w \<Longrightarrow> unat (w - 1) = unat w - 1"
  by (metis unat_minus_one unat_0 less_numeral_extra(3))

lemma sint_nonneg: "unat (w :: u64) < 2 ^ 63 \<Longrightarrow> 0 \<le> sint w"
proof -
  assume "unat w < 2 ^ 63"
  then have "\<not> bit (unat w) 63" by (simp add: bit_iff_odd)
  then have "\<not> bit w 63" by (simp add: bit_unsigned_iff)
  then show ?thesis using bit_last_iff [of w] by simp
qed

subsection \<open>Consumers of a segmented input\<close>

text \<open>
  The contract shared by every component that consumes a byte stream piece by piece (the
  frame decoder, the checksum): consuming two pieces is consuming their concatenation, as
  long as the first piece did not stop the consumer. The result then depends on the stream
  only, never on how the network or the caller cut it.
\<close>

locale segmented_consumer =
  fixes step :: "'s \<Rightarrow> 'a list \<Rightarrow> 's"
    and live :: "'s \<Rightarrow> bool"
  assumes step_append: "live s \<Longrightarrow> live (step s a) \<Longrightarrow> step (step s a) b = step s (a @ b)"
    and live_prefix: "live s \<Longrightarrow> live (step s (a @ b)) \<Longrightarrow> live (step s a)"
begin

lemma foldl_step_concat:
  "live s \<Longrightarrow> live (step s (concat (a # as))) \<Longrightarrow> foldl step s (a # as) = step s (concat (a # as))"
proof (induction as arbitrary: a)
  case (Cons b as)
  have la: "live (step s a)" using Cons.prems live_prefix by simp
  have "foldl step s (a # b # as) = foldl step s ((a @ b) # as)"
    using step_append [OF Cons.prems(1) la] by simp
  also have "\<dots> = step s (concat ((a @ b) # as))"
    using Cons.prems by (intro Cons.IH) simp_all
  finally show ?case by simp
qed simp

theorem segmentation_independent:
  assumes "live s" "live (step s (concat (a # as)))" "concat (a # as) = concat (b # bs)"
  shows "foldl step s (a # as) = foldl step s (b # bs)"
  using foldl_step_concat [OF assms(1,2)] foldl_step_concat [of s b bs] assms by simp

end

subsection \<open>Buffers and decimal numerals\<close>

text \<open>A zero-initialised buffer of \<open>n\<close> bytes after a call has written \<open>d\<close> into it.\<close>

definition fill_buffer :: "nat \<Rightarrow> bytes \<Rightarrow> bytes" where
  "fill_buffer n d = take n d @ replicate (n - length d) 0"

lemma length_fill_buffer [simp]: "length (fill_buffer n d) = n"
  by (simp add: fill_buffer_def)

lemma fill_buffer_exact [simp]: "length d = n \<Longrightarrow> fill_buffer n d = d"
  by (simp add: fill_buffer_def)

text \<open>\<^verbatim>\<open>std::to_string\<close> of an unsigned integer.\<close>

fun dec_string :: "nat \<Rightarrow> string" where
  "dec_string n =
     (if n < 10 then [char_of (48 + n)] else dec_string (n div 10) @ [char_of (48 + n mod 10)])"

declare dec_string.simps [simp del]


text \<open>\<^verbatim>\<open>for (uint32_t i = 0; i < n; ++i)\<close>\<close>

definition upto_u32 :: "u32 \<Rightarrow> u32 list" where
  "upto_u32 n = map word_of_nat [0..<unat n]"

lemma upto_u32_bound: "i \<in> set (upto_u32 n) \<longleftrightarrow> i < n"
proof
  assume "i < n"
  then have "i = word_of_nat (unat i)" "unat i < unat n" by (simp_all add: word_less_nat_alt)
  then show "i \<in> set (upto_u32 n)" unfolding upto_u32_def by (metis atLeastLessThan_iff image_eqI
        le0 list.set_map set_upt)
next
  assume "i \<in> set (upto_u32 n)"
  then show "i < n"
    by (auto simp: upto_u32_def word_less_nat_alt unsigned_of_nat
        intro: le_less_trans [OF take_bit_nat_less_eq_self])
qed

lemma unat_upto_u32: "map unat (upto_u32 n) = [0..<unat n]"
  by (simp add: upto_u32_def) (rule map_idI, simp add: unat_word_of_nat_below)



text \<open>\<^verbatim>\<open>v[i]\<close>, with undefined behaviour as \<^const>\<open>None\<close>.\<close>

definition vec_at :: "'a list \<Rightarrow> nat \<Rightarrow> 'a option" where
  "vec_at v i = (if i < length v then Some (v ! i) else None)"


end
