(* ===== verification/Ftx_Types.thy ===== *)
theory Ftx_Types
  imports Ftx_Prelude
begin

text \<open>
  \<^verbatim>\<open>include/ftx/proto/types.hpp\<close> and \<^verbatim>\<open>src/lib/proto/types.cpp\<close>: frame types, their wire
  bytes, protocol constants and application error codes. \<^verbatim>\<open>FrameType\<close> is a datatype, since
  the code only produces its enumerators; \<^verbatim>\<open>ErrorCode\<close> stays a 16-bit integer, since
  \<^verbatim>\<open>decode_error\<close> casts any received value to it.
\<close>

datatype FrameType = Hello | Manifest | ReqChunks | Chunk | Ack | Complete | Error

text \<open>The enumerators' values, \<^verbatim>\<open>static_cast<uint8_t>(t)\<close>.\<close>

fun frame_type_byte :: "FrameType \<Rightarrow> u8" where
  "frame_type_byte Hello = 0x01"
| "frame_type_byte Manifest = 0x02"
| "frame_type_byte ReqChunks = 0x03"
| "frame_type_byte Chunk = 0x04"
| "frame_type_byte Ack = 0x05"
| "frame_type_byte Complete = 0x06"
| "frame_type_byte Error = 0xFF"

definition is_known_frame_type :: "u8 \<Rightarrow> bool" where
  "is_known_frame_type v \<longleftrightarrow>
     v = frame_type_byte Hello \<or> v = frame_type_byte Manifest \<or> v = frame_type_byte ReqChunks \<or>
     v = frame_type_byte Chunk \<or> v = frame_type_byte Ack \<or> v = frame_type_byte Complete \<or>
     v = frame_type_byte Error"

text \<open>
  \<^verbatim>\<open>static_cast<FrameType>(v)\<close>: the enumerator with that value. The code casts only after
  \<^verbatim>\<open>is_known_frame_type\<close>; for any other value there is no enumerator.
\<close>

definition frame_type_of :: "u8 \<Rightarrow> FrameType option" where
  "frame_type_of v =
     find (\<lambda>t. frame_type_byte t = v) [Hello, Manifest, ReqChunks, Chunk, Ack, Complete, Error]"

fun to_string :: "FrameType \<Rightarrow> string" where
  "to_string Hello = ''HELLO''"
| "to_string Manifest = ''MANIFEST''"
| "to_string ReqChunks = ''REQ_CHUNKS''"
| "to_string Chunk = ''CHUNK''"
| "to_string Ack = ''ACK''"
| "to_string Complete = ''COMPLETE''"
| "to_string Error = ''ERROR''"

definition kProtocolVersion :: u8 where
  "kProtocolVersion = 1"

definition kHeaderSize :: nat where
  "kHeaderSize = 9"

definition kDefaultMaxPayload :: nat where
  "kDefaultMaxPayload = 64 * 1024 * 1024"

type_synonym ErrorCode = u16

definition Unspecified :: ErrorCode where "Unspecified = 0x0000"
definition ProtocolViolation :: ErrorCode where "ProtocolViolation = 0x0001"
definition UnsupportedVersion :: ErrorCode where "UnsupportedVersion = 0x0002"
definition PayloadTooLarge :: ErrorCode where "PayloadTooLarge = 0x0003"
definition HashMismatch :: ErrorCode where "HashMismatch = 0x0004"
definition InvalidPath :: ErrorCode where "InvalidPath = 0x0005"
definition NotFound :: ErrorCode where "NotFound = 0x0006"
definition PermissionDenied :: ErrorCode where "PermissionDenied = 0x0007"
definition InternalError :: ErrorCode where "InternalError = 0x00FF"

lemmas error_code_defs = Unspecified_def ProtocolViolation_def UnsupportedVersion_def
  PayloadTooLarge_def HashMismatch_def InvalidPath_def NotFound_def PermissionDenied_def
  InternalError_def

lemma frame_type_of_byte [simp]: "frame_type_of (frame_type_byte t) = Some t"
  by (cases t) (simp_all add: frame_type_of_def)

lemma frame_type_byte_of: "frame_type_of v = Some t \<Longrightarrow> frame_type_byte t = v"
  by (auto simp: frame_type_of_def split: if_splits)

lemma is_known_iff_frame_type_of: "is_known_frame_type v \<longleftrightarrow> (\<exists>t. frame_type_of v = Some t)"
proof
  assume "is_known_frame_type v"
  then obtain t where "v = frame_type_byte t"
    unfolding is_known_frame_type_def by blast
  then show "\<exists>t. frame_type_of v = Some t" by simp
next
  assume "\<exists>t. frame_type_of v = Some t"
  then obtain t where "v = frame_type_byte t"
    using frame_type_byte_of by metis
  then show "is_known_frame_type v"
    by (cases t) (simp_all add: is_known_frame_type_def)
qed

lemma is_known_frame_type_byte [simp]: "is_known_frame_type (frame_type_byte t)"
  by (simp add: is_known_iff_frame_type_of)

lemma frame_type_byte_inj [simp]: "(frame_type_byte s = frame_type_byte t) = (s = t)"
  by (metis frame_type_of_byte option.inject)

lemma to_string_inj: "(to_string s = to_string t) = (s = t)"
  by (cases s; cases t) simp_all

end
