(* ===== verification/Ftx_Byteorder.thy ===== *)
theory Ftx_Byteorder
  imports Ftx_Prelude
begin

text \<open>
  \<^verbatim>\<open>include/ftx/util/byteorder.hpp\<close>: big-endian reads and writes over fixed-extent spans. A
  writer returns the bytes it stores into its destination span; a reader takes the bytes of
  its source span, whose extent the C++ type fixes (2, 4 or 8).
\<close>

definition write_be_u16 :: "u16 \<Rightarrow> bytes" where
  "write_be_u16 v = [ucast (drop_bit 8 v AND 0xFF), ucast (v AND 0xFF)]"

definition write_be_u32 :: "u32 \<Rightarrow> bytes" where
  "write_be_u32 v =
     [ucast (drop_bit 24 v AND 0xFF), ucast (drop_bit 16 v AND 0xFF),
      ucast (drop_bit 8 v AND 0xFF), ucast (v AND 0xFF)]"

definition write_be_u64 :: "u64 \<Rightarrow> bytes" where
  "write_be_u64 v = map (\<lambda>i. ucast (drop_bit (56 - 8 * i) v AND 0xFF)) [0..<8]"

definition read_be_u16 :: "bytes \<Rightarrow> u16" where
  "read_be_u16 src = push_bit 8 (ucast (src ! 0)) OR ucast (src ! 1)"

definition read_be_u32 :: "bytes \<Rightarrow> u32" where
  "read_be_u32 src =
     push_bit 24 (ucast (src ! 0)) OR push_bit 16 (ucast (src ! 1)) OR
     push_bit 8 (ucast (src ! 2)) OR ucast (src ! 3)"

definition read_be_u64 :: "bytes \<Rightarrow> u64" where
  "read_be_u64 src = fold (\<lambda>i v. push_bit 8 v OR ucast (src ! i)) [0..<8] 0"

lemma length_write_be [simp]:
  "length (write_be_u16 a) = 2" "length (write_be_u32 b) = 4" "length (write_be_u64 c) = 8"
  by (simp_all add: write_be_u16_def write_be_u32_def write_be_u64_def)

text \<open>
  The reference for all widths: the value of a byte list read in base 256, most significant
  byte first, and its inverse. Both are characterised bit by bit.
\<close>

definition be_value :: "bytes \<Rightarrow> 'a::len word" where
  "be_value bs = foldl (\<lambda>v b. push_bit 8 v OR ucast b) 0 bs"

definition be_bytes :: "nat \<Rightarrow> 'a::len word \<Rightarrow> bytes" where
  "be_bytes k v = map (\<lambda>i. ucast (drop_bit (8 * (k - 1 - i)) v)) [0..<k]"

lemma length_be_bytes [simp]: "length (be_bytes k v) = k"
  by (simp add: be_bytes_def)

lemma bit_be_value:
  "bit (be_value bs :: 'a::len word) n \<longleftrightarrow>
     n < LENGTH('a) \<and> n < 8 * length bs \<and> bit (rev bs ! (n div 8)) (n mod 8)"
proof (induction bs arbitrary: n rule: rev_induct)
  case Nil
  then show ?case by (simp add: be_value_def)
next
  case (snoc b bs)
  have "bit (be_value (bs @ [b]) :: 'a word) n \<longleftrightarrow>
      n < LENGTH('a) \<and> (8 \<le> n \<and> bit (be_value bs :: 'a word) (n - 8) \<or> bit b n)"
    by (auto simp: be_value_def bit_simps dest: bit_imp_le_length)
  also have "\<dots> \<longleftrightarrow> n < LENGTH('a) \<and> n < 8 * length (bs @ [b]) \<and>
      bit (rev (bs @ [b]) ! (n div 8)) (n mod 8)"
  proof (cases "n < 8")
    case True
    then show ?thesis by simp
  next
    case False
    then have "n div 8 = Suc ((n - 8) div 8)" "n mod 8 = (n - 8) mod 8"
      by (simp_all add: le_div_geq le_mod_geq)
    moreover have "\<not> bit b n"
      using False by (auto dest: bit_imp_le_length)
    ultimately show ?thesis
      using False snoc [of "n - 8"] by auto
  qed
  finally show ?case .
qed

lemma be_value_be_bytes:
  assumes "LENGTH('a) = 8 * k"
  shows "be_value (be_bytes k v) = (v :: 'a::len word)"
proof (rule bit_word_eqI)
  fix n assume "n < LENGTH('a)"
  then have "n div 8 < k" using assms by linarith
  then have "rev (be_bytes k v) ! (n div 8) = ucast (drop_bit (8 * (n div 8)) v)"
    by (simp add: be_bytes_def rev_nth)
  then show "bit (be_value (be_bytes k v) :: 'a word) n = bit v n"
    using \<open>n < LENGTH('a)\<close> assms by (simp add: bit_be_value bit_simps)
qed

lemma be_bytes_be_value:
  assumes "LENGTH('a) = 8 * length bs"
  shows "be_bytes (length bs) (be_value bs :: 'a::len word) = bs"
proof (rule nth_equalityI)
  fix i assume "i < length (be_bytes (length bs) (be_value bs :: 'a word))"
  then have i: "i < length bs" by simp
  show "be_bytes (length bs) (be_value bs :: 'a word) ! i = bs ! i"
  proof (rule bit_word_eqI)
    fix n assume "n < LENGTH(8)"
    then have n: "n < 8" by simp
    have "n + 8 * (length bs - 1 - i) < 8 * length bs" using i n by linarith
    moreover have "rev bs ! (length bs - 1 - i) = bs ! i" using i by (simp add: rev_nth)
    ultimately show "bit (be_bytes (length bs) (be_value bs :: 'a word) ! i) n = bit (bs ! i) n"
      using i n assms by (simp add: be_bytes_def bit_simps bit_be_value add.commute)
  qed
qed simp

text \<open>The unrolled code of each width computes the reference.\<close>

lemma upt_2: "[0..<2] = [0, 1 :: nat]" and upt_4: "[0..<4] = [0, 1, 2, 3 :: nat]"
  and upt_8: "[0..<8] = [0, 1, 2, 3, 4, 5, 6, 7 :: nat]"
  by (simp_all add: upt_rec)

lemma write_be_eq:
  "write_be_u16 a = be_bytes 2 a" "write_be_u32 b = be_bytes 4 b" "write_be_u64 c = be_bytes 8 c"
  by (simp_all add: write_be_u16_def write_be_u32_def write_be_u64_def be_bytes_def
      upt_2 upt_4 upt_8)

lemma list_eq_nths:
  "length xs = 2 \<Longrightarrow> xs = [xs ! 0, xs ! 1]"
  "length xs = 4 \<Longrightarrow> xs = [xs ! 0, xs ! 1, xs ! 2, xs ! 3]"
  "length xs = 8 \<Longrightarrow> xs = [xs ! 0, xs ! 1, xs ! 2, xs ! 3, xs ! 4, xs ! 5, xs ! 6, xs ! 7]"
  by (auto simp add: list_eq_iff_nth_eq less_Suc_eq numeral_eq_Suc)

lemma read_be_u16_eq: "length bs = 2 \<Longrightarrow> read_be_u16 bs = be_value bs"
  by (subst (2) list_eq_nths(1)) (simp_all add: read_be_u16_def be_value_def)

lemma read_be_u32_eq: "length bs = 4 \<Longrightarrow> read_be_u32 bs = be_value bs"
  by (subst (2) list_eq_nths(2))
    (simp_all add: read_be_u32_def be_value_def push_bit_or or.assoc)

lemma read_be_u64_eq: "length bs = 8 \<Longrightarrow> read_be_u64 bs = be_value bs"
  by (subst (2) list_eq_nths(3)) (simp_all add: read_be_u64_def be_value_def upt_8)

text \<open>Reading back what was written, and writing back what was read.\<close>

lemma read_write_be [simp]:
  "read_be_u16 (write_be_u16 a) = a" "read_be_u32 (write_be_u32 b) = b"
  "read_be_u64 (write_be_u64 c) = c"
  by (simp_all add: read_be_u16_eq read_be_u32_eq read_be_u64_eq write_be_eq be_value_be_bytes)

lemma write_read_be:
  "length xs = 2 \<Longrightarrow> write_be_u16 (read_be_u16 xs) = xs"
  "length ys = 4 \<Longrightarrow> write_be_u32 (read_be_u32 ys) = ys"
  "length zs = 8 \<Longrightarrow> write_be_u64 (read_be_u64 zs) = zs"
  using be_bytes_be_value [of xs, where 'a = 16] be_bytes_be_value [of ys, where 'a = 32]
    be_bytes_be_value [of zs, where 'a = 64]
  by (simp_all add: read_be_u16_eq read_be_u32_eq read_be_u64_eq write_be_eq)

end
