(* ===== verification/Ftx_Crc32c.thy ===== *)
theory Ftx_Crc32c
  imports Ftx_Prelude
begin

text \<open>
  \<^verbatim>\<open>src/lib/util/crc32c.cpp\<close>: the table-driven CRC-32C (Castagnoli). The lookup table, the
  byte-at-a-time loop and the seed convention are the code's; the lemmas relate the table to
  the bit-at-a-time shift register and show the chaining law of \<^verbatim>\<open>crc32c.hpp\<close> and the
  detection of every burst of up to four bytes.
\<close>

definition kPolyReflected :: u32 where
  "kPolyReflected = 0x82F63B78"

text \<open>The body of the inner loop of \<^verbatim>\<open>build_table\<close>: one shift of the register.\<close>

definition crc_shift :: "u32 \<Rightarrow> u32" where
  "crc_shift c = (if c AND 1 \<noteq> 0 then drop_bit 1 c XOR kPolyReflected else drop_bit 1 c)"

definition build_table :: "u32 list" where
  "build_table = map (\<lambda>i. (crc_shift ^^ 8) (word_of_nat i)) [0..<256]"

definition kTable :: "u32 list" where
  "kTable = build_table"

text \<open>The body of the loop over the data, and the function.\<close>

definition crc_update :: "u32 \<Rightarrow> byte \<Rightarrow> u32" where
  "crc_update c b = drop_bit 8 c XOR kTable ! unat ((c XOR ucast b) AND 0xFF)"

definition crc32c :: "bytes \<Rightarrow> u32 \<Rightarrow> u32" where
  "crc32c data seed = NOT (foldl crc_update (NOT seed) data)"

subsection \<open>The table is eight shifts of the register\<close>

lemma and_one_nonzero: "(c AND 1 \<noteq> 0) = bit c 0" for c :: u32
  by (auto simp: and_one_eq bit_0 odd_iff_mod_2_eq_one)

lemma crc_shift_alt: "crc_shift c = drop_bit 1 c XOR (if bit c 0 then kPolyReflected else 0)"
  by (simp add: crc_shift_def and_one_nonzero)

lemma crc_shift_xor: "crc_shift (a XOR b) = crc_shift a XOR crc_shift b"
  by (rule bit_word_eqI) (auto simp: crc_shift_alt bit_simps)

lemma crc_shifts_xor: "(crc_shift ^^ n) (a XOR b) = (crc_shift ^^ n) a XOR (crc_shift ^^ n) b"
  by (induction n) (simp_all add: crc_shift_xor)

lemma crc_shifts_high:
  "(\<And>i. i < n \<Longrightarrow> \<not> bit c i) \<Longrightarrow> (crc_shift ^^ n) c = drop_bit n c"
proof (induction n arbitrary: c)
  case (Suc n)
  have "(crc_shift ^^ Suc n) c = (crc_shift ^^ n) (crc_shift c)"
    by (simp add: funpow_swap1)
  also have "crc_shift c = drop_bit 1 c"
    using Suc.prems [of 0] by (simp add: crc_shift_alt)
  also have "(crc_shift ^^ n) (drop_bit 1 c) = drop_bit n (drop_bit 1 c)"
    by (rule Suc.IH) (use Suc.prems in \<open>simp add: bit_simps\<close>)
  finally show ?case by (simp add: drop_bit_drop_bit)
qed simp

lemma kTable_nth: "i < 256 \<Longrightarrow> kTable ! i = (crc_shift ^^ 8) (word_of_nat i)"
  by (simp add: kTable_def build_table_def)

lemma crc_update_shifts: "crc_update c b = (crc_shift ^^ 8) (c XOR ucast b)"
proof -
  let ?x = "c XOR ucast b :: u32"
  define m :: u32 where "m = 0xFF"
  have m: "bit m i \<longleftrightarrow> i < 8" for i
    by (auto simp: m_def)
  have "unat (?x AND m) < 256"
    using word_and_le1 [of ?x m] by (simp add: m_def word_le_nat_alt)
  then have "kTable ! unat (?x AND m) = (crc_shift ^^ 8) (?x AND m)"
    by (simp add: kTable_nth)
  moreover have "(crc_shift ^^ 8) (?x AND NOT m) = drop_bit 8 (?x AND NOT m)"
    by (rule crc_shifts_high) (simp add: bit_simps m)
  moreover have "drop_bit 8 (?x AND NOT m) = drop_bit 8 c"
    by (rule bit_word_eqI) (auto simp: bit_simps m dest: bit_imp_le_length)
  moreover have "?x = (?x AND NOT m) XOR (?x AND m)"
    by (rule bit_word_eqI) (auto simp: bit_simps)
  ultimately show ?thesis
    by (metis crc_shifts_xor crc_update_def m_def)
qed

subsection \<open>Injectivity of the register\<close>

lemma bit_poly_31: "bit kPolyReflected 31"
  by (simp add: kPolyReflected_def)

lemma inj_crc_shift: "inj crc_shift"
proof (rule injI)
  fix a b assume eq: "crc_shift a = crc_shift b"
  have top: "bit (crc_shift c) 31 = bit c 0" for c
    using bit_poly_31 by (auto simp: crc_shift_alt bit_simps dest: bit_imp_le_length)
  have low: "bit a 0 = bit b 0" using eq top by metis
  then have "drop_bit 1 a = drop_bit 1 b"
    using eq by (auto simp: crc_shift_alt split: if_splits)
  then have "bit a (Suc n) = bit b (Suc n)" for n
    by (metis bit_drop_bit_eq comp_apply plus_1_eq_Suc)
  with low show "a = b"
    by (intro bit_word_eqI) (metis not0_implies_Suc)
qed

lemma inj_crc_shifts: "inj (crc_shift ^^ n)"
  using inj_crc_shift by (simp add: inj_fn)

lemma inj_crc_updates: "inj (\<lambda>c. foldl crc_update c bs)"
proof (induction bs)
  case (Cons b bs)
  have "inj (\<lambda>c. crc_update c b)"
  proof (rule injI)
    fix x y assume "crc_update x b = crc_update y b"
    then have "x XOR ucast b = y XOR ucast b"
      unfolding crc_update_shifts by (rule injD [OF inj_crc_shifts])
    then show "x = y" by simp
  qed
  from inj_compose [OF Cons.IH this] show ?case by (simp add: comp_def)
qed (simp add: inj_def)

subsection \<open>Four bytes at a time\<close>

primrec le_value :: "bytes \<Rightarrow> u32" where
  "le_value [] = 0"
| "le_value (b # bs) = ucast b XOR push_bit 8 (le_value bs)"

lemma bit_le_value_bound: "bit (le_value bs) n \<Longrightarrow> n < 8 * length bs"
proof (induction bs arbitrary: n)
  case (Cons b bs)
  from Cons.prems have "bit b n \<or> bit (le_value bs) (n - 8)"
    by (auto simp: bit_simps)
  then have "n < 8 \<or> n - 8 < 8 * length bs"
    using Cons.IH bit_imp_le_length [of b n] by auto
  then show ?case by auto
qed simp

lemma crc_updates_le_value:
  "length bs \<le> 4 \<Longrightarrow> foldl crc_update c bs = (crc_shift ^^ (8 * length bs)) (c XOR le_value bs)"
proof (induction bs arbitrary: c)
  case (Cons b bs)
  have "(crc_shift ^^ 8) (push_bit 8 (le_value bs)) = drop_bit 8 (push_bit 8 (le_value bs))"
    by (rule crc_shifts_high) (simp add: bit_simps)
  also have "\<dots> = le_value bs"
    by (rule bit_word_eqI)
      (use Cons.prems in \<open>auto simp: bit_simps dest: bit_le_value_bound\<close>)
  finally have tl: "(crc_shift ^^ 8) (push_bit 8 (le_value bs)) = le_value bs" .
  have "foldl crc_update c (b # bs)
      = (crc_shift ^^ (8 * length bs)) ((crc_shift ^^ 8) (c XOR ucast b) XOR le_value bs)"
    using Cons by (simp add: crc_update_shifts [symmetric])
  also have "(crc_shift ^^ 8) (c XOR ucast b) XOR le_value bs
      = (crc_shift ^^ 8) (c XOR le_value (b # bs))"
    by (simp only: le_value.simps crc_shifts_xor tl xor.assoc)
  finally have "foldl crc_update c (b # bs)
      = (crc_shift ^^ (8 * length bs + 8)) (c XOR le_value (b # bs))"
    by (simp only: funpow_add comp_apply)
  then show ?case by (simp only: length_Cons mult_Suc_right add.commute)
qed simp

lemma le_value_inj:
  "length xs = length ys \<Longrightarrow> length xs \<le> 4 \<Longrightarrow> le_value xs = le_value ys \<Longrightarrow> xs = ys"
proof (induction xs ys rule: list_induct2)
  case (Cons x xs y ys)
  have hd: "ucast (le_value (b # bs)) = b" for b bs
    by (rule bit_word_eqI) (auto simp: bit_simps)
  have tl: "drop_bit 8 (le_value (b # bs)) = le_value bs" if "length bs \<le> 3" for b bs
    by (rule bit_word_eqI)
      (use that in \<open>auto simp: bit_simps dest: bit_imp_le_length bit_le_value_bound\<close>)
  from Cons.prems have "le_value xs = le_value ys"
    using tl [of xs x] tl [of ys y] Cons.hyps by simp
  with Cons show ?case using hd by (metis Suc_leD length_Cons)
qed simp

lemma crc_state_differs:
  assumes "length x = length y" "length x \<le> 4" "x \<noteq> y"
  shows "foldl crc_update c x \<noteq> foldl crc_update c y"
proof
  assume "foldl crc_update c x = foldl crc_update c y"
  then have "(crc_shift ^^ (8 * length x)) (c XOR le_value x)
      = (crc_shift ^^ (8 * length x)) (c XOR le_value y)"
    using assms by (simp only: crc_updates_le_value)
  then have "c XOR le_value x = c XOR le_value y"
    by (rule injD [OF inj_crc_shifts])
  then have "le_value x = le_value y" by simp
  with assms show False using le_value_inj by blast
qed

lemma crc32c_append: "crc32c (a @ b) seed = crc32c b (crc32c a seed)"
  by (simp add: crc32c_def)

lemma crc32c_burst:
  assumes "length x = length y" "length x \<le> 4" "x \<noteq> y"
  shows "crc32c (p @ x @ q) seed \<noteq> crc32c (p @ y @ q) seed"
  using crc_state_differs [OF assms] injD [OF inj_crc_updates [of q]]
  by (auto simp: crc32c_def)

interpretation crc: segmented_consumer "\<lambda>seed data. crc32c data seed" "\<lambda>_. True"
  by unfold_locales (simp_all add: crc32c_append)

subsection \<open>Properties\<close>

text \<open>
  C25. The table-driven loop computes the CRC of the bit-at-a-time shift register: for all data
  and seeds, the register starts at the complement of the seed, every byte is added into its
  low bits and shifted out in eight steps with the reflected Castagnoli polynomial, and the
  result is complemented.
\<close>

theorem crc32c_bitwise:
  "crc32c data seed =
     NOT (foldl (\<lambda>c b. (crc_shift ^^ 8) (c XOR ucast b)) (NOT seed) data)"
proof -
  have "crc_update = (\<lambda>c b. (crc_shift ^^ 8) (c XOR ucast b))"
    by (intro ext) (rule crc_update_shifts)
  then show ?thesis by (simp add: crc32c_def)
qed

text \<open>
  The chaining law of \<^verbatim>\<open>crc32c.hpp\<close>: however the data is cut into segments, running the
  checksum over the segments with the previous result as the seed gives the checksum of the
  whole.
\<close>

theorem crc32c_segments:
  "foldl (\<lambda>seed segment. crc32c segment seed) seed segments = crc32c (concat segments) seed"
proof (cases segments)
  case Nil
  then show ?thesis by (simp add: crc32c_def)
next
  case (Cons a as)
  then show ?thesis using crc.foldl_step_concat [of seed a as] by simp
qed

text \<open>
  Every error burst of up to four bytes changes the checksum: two messages that differ only
  inside a window of at most four bytes never have the same CRC.
\<close>

theorem crc32c_detects_bursts:
  assumes "length x = length y" "length x \<le> 4" "x \<noteq> y"
  shows "crc32c (before @ x @ after) seed \<noteq> crc32c (before @ y @ after) seed"
  using assms by (rule crc32c_burst)

theorem crc32c_detects_bursts_witness:
  "crc32c ([7, 7] @ [1, 2] @ [9]) 0 \<noteq> crc32c ([7, 7] @ [2, 1] @ [9]) 0"
  by (rule crc32c_detects_bursts) simp_all

end
