(* ===== verification/Ftx_Frame.thy ===== *)
theory Ftx_Frame
  imports Ftx_Types Ftx_Byteorder Ftx_Crc32c
begin

text \<open>
  \<^verbatim>\<open>include/ftx/proto/frame.hpp\<close> and \<^verbatim>\<open>src/lib/proto/frame.cpp\<close>: the 9-byte frame header
  (length, type, CRC-32C of the first five bytes), its encoder and decoder, and the one-shot
  frame encoder. \<^verbatim>\<open>decode_from\<close> returns its optional header and, through \<^verbatim>\<open>err_out\<close>, the
  reason of a failure: a sum with the reason on the left.
\<close>

record FrameHeader =
  payload_len :: u32
  ftype :: FrameType

datatype DecodeError = BadCrc | UnknownType | PayloadTooLargeErr

record Frame =
  header :: FrameHeader
  payload :: bytes

definition kHeaderCrcOffset :: nat where
  "kHeaderCrcOffset = 5"

definition kHeaderCrcCoverage :: nat where
  "kHeaderCrcCoverage = 5"

definition encode_to :: "FrameHeader \<Rightarrow> bytes" where
  "encode_to h =
     (let covered = write_be_u32 (payload_len h) @ [frame_type_byte (ftype h)];
          crc = crc32c covered 0
      in covered @ write_be_u32 crc)"

definition decode_from :: "bytes \<Rightarrow> nat \<Rightarrow> DecodeError + FrameHeader" where
  "decode_from src max_payload =
     (let covered = take kHeaderCrcCoverage src;
          actual_crc = crc32c covered 0;
          expected_crc = read_be_u32 (take 4 (drop kHeaderCrcOffset src))
      in if expected_crc \<noteq> actual_crc then Inl BadCrc
         else let type_byte = src ! 4
              in if \<not> is_known_frame_type type_byte then Inl UnknownType
                 else let len = read_be_u32 (take 4 src)
                      in if unat len > max_payload then Inl PayloadTooLargeErr
                         else Inr \<lparr>payload_len = len, ftype = the (frame_type_of type_byte)\<rparr>)"

datatype frame_exception = InvalidArgument string

definition encode_frame :: "FrameType \<Rightarrow> bytes \<Rightarrow> frame_exception + bytes" where
  "encode_frame t pl =
     (if length pl > kDefaultMaxPayload
      then Inl (InvalidArgument ''ftx::proto::encode_frame: payload exceeds maximum'')
      else Inr (encode_to \<lparr>payload_len = word_of_nat (length pl), ftype = t\<rparr> @ pl))"

subsection \<open>Headers\<close>

lemma length_encode_to [simp]: "length (encode_to h) = kHeaderSize"
  by (simp add: encode_to_def kHeaderSize_def Let_def)

lemma encode_to_covered:
  "take 5 (encode_to h) = write_be_u32 (payload_len h) @ [frame_type_byte (ftype h)]"
  "take 4 (encode_to h) = write_be_u32 (payload_len h)"
  "encode_to h ! 4 = frame_type_byte (ftype h)"
  "take 4 (drop 5 (encode_to h)) =
     write_be_u32 (crc32c (write_be_u32 (payload_len h) @ [frame_type_byte (ftype h)]) 0)"
  by (simp_all add: encode_to_def Let_def nth_append)

lemma decode_encode_header:
  "decode_from (encode_to h) m =
     (if unat (payload_len h) \<le> m then Inr h else Inl PayloadTooLargeErr)"
  by (simp add: decode_from_def encode_to_covered kHeaderCrcCoverage_def kHeaderCrcOffset_def
      Let_def)

lemma split_header:
  assumes "length src = kHeaderSize"
  shows "src = take 4 src @ [src ! 4] @ take 4 (drop 5 src)"
    and "take 5 src = take 4 src @ [src ! 4]"
proof -
  have len: "length src = 9" using assms by (simp add: kHeaderSize_def)
  then show *: "take 5 src = take 4 src @ [src ! 4]"
    using take_Suc_conv_app_nth [of 4 src] by simp
  have "src = take 5 src @ drop 5 src" by simp
  also have "drop 5 src = take 4 (drop 5 src)" using len by simp
  finally show "src = take 4 src @ [src ! 4] @ take 4 (drop 5 src)" using * by simp
qed

lemma encode_decode_header:
  assumes "decode_from src m = Inr h" and "length src = kHeaderSize"
  shows "encode_to h = src" and "unat (payload_len h) \<le> m"
proof -
  have len: "length src = 9" using assms(2) by (simp add: kHeaderSize_def)
  from assms(1) obtain t where t: "frame_type_of (src ! 4) = Some t"
    and h: "h = \<lparr>payload_len = read_be_u32 (take 4 src), ftype = t\<rparr>"
    and crc: "read_be_u32 (take 4 (drop 5 src)) = crc32c (take 5 src) 0"
    and m: "unat (payload_len h) \<le> m"
    by (auto simp: decode_from_def Let_def kHeaderCrcCoverage_def kHeaderCrcOffset_def
        is_known_iff_frame_type_of split: if_splits)
  have "encode_to h = take 5 src @ write_be_u32 (crc32c (take 5 src) 0)"
    using h len frame_type_byte_of [OF t]
    by (simp add: encode_to_def write_read_be(2) split_header(2) [OF assms(2)])
  also have "write_be_u32 (crc32c (take 5 src) 0) = take 4 (drop 5 src)"
    using len by (simp only: crc [symmetric]) (simp add: write_read_be(2))
  also have "take 5 src @ take 4 (drop 5 src) = src"
    using split_header [OF assms(2)] by simp
  finally show "encode_to h = src" .
  show "unat (payload_len h) \<le> m" by (rule m)
qed

lemma decode_from_bad_crc:
  assumes "length src = kHeaderSize"
  shows "decode_from src m = Inl BadCrc \<longleftrightarrow>
     take 4 (drop 5 src) \<noteq> write_be_u32 (crc32c (take 5 src) 0)"
proof -
  have "length (take 4 (drop 5 src)) = 4" using assms by (simp add: kHeaderSize_def)
  then have "take 4 (drop 5 src) \<noteq> write_be_u32 (crc32c (take 5 src) 0) \<longleftrightarrow>
      read_be_u32 (take 4 (drop 5 src)) \<noteq> crc32c (take 5 src) 0"
    by (metis read_write_be(2) write_read_be(2))
  then show ?thesis
    by (simp add: decode_from_def Let_def kHeaderCrcCoverage_def kHeaderCrcOffset_def)
qed

text \<open>
  A burst error of up to four bytes inside the five covered bytes of a header is always
  reported as \<^const>\<open>BadCrc\<close>, whatever the corrupted length and type.
\<close>

lemma decode_from_burst:
  assumes hdr: "encode_to h = p @ x @ q" and cov: "length (p @ x) \<le> 5"
    and xy: "length x = length y" "length x \<le> 4" "x \<noteq> y"
  shows "decode_from (p @ y @ q) m = Inl BadCrc"
proof -
  have len: "length (p @ y @ q) = kHeaderSize"
    using hdr xy(1) by (metis length_append length_encode_to)
  have q: "length q \<ge> 4" using len cov xy(1) by (simp add: kHeaderSize_def)
  define r where "r = take (length q - 4) q"
  have cov_x: "take 5 (p @ x @ q) = p @ x @ r" and cov_y: "take 5 (p @ y @ q) = p @ y @ r"
    using len cov xy(1) by (auto simp: r_def kHeaderSize_def intro!: arg_cong2 [where f = take])
  have "crc32c (p @ y @ r) 0 \<noteq> crc32c (p @ x @ r) 0"
    using crc32c_burst [of y x p r 0] xy by simp
  moreover have "drop 5 (p @ x @ q) = drop 5 (p @ y @ q)"
    using cov xy(1) by simp
  moreover have "take 4 (drop 5 (p @ x @ q)) = write_be_u32 (crc32c (p @ x @ r) 0)"
    using encode_to_covered(1,4) [of h] hdr cov_x by simp
  ultimately show ?thesis
    using cov_y by (metis decode_from_bad_crc len read_write_be(2))
qed

subsection \<open>Whole frames\<close>

lemma encode_frame_Inr:
  "encode_frame t pl = Inr bs \<longleftrightarrow>
     length pl \<le> kDefaultMaxPayload \<and>
     bs = encode_to \<lparr>payload_len = word_of_nat (length pl), ftype = t\<rparr> @ pl"
  by (auto simp: encode_frame_def)

lemma unat_payload_len:
  "n \<le> kDefaultMaxPayload \<Longrightarrow> unat (word_of_nat n :: u32) = n"
  by (simp add: kDefaultMaxPayload_def unsigned_of_nat take_bit_nat_eq_self)

subsection \<open>Properties\<close>

text \<open>
  C23. The header codec is exact: nine bytes decode to a header under a payload limit exactly
  when they are that header's encoding and its length is within the limit.
\<close>

theorem decode_from_iff:
  assumes "length src = kHeaderSize"
  shows "decode_from src max_payload = Inr h \<longleftrightarrow>
     src = encode_to h \<and> unat (payload_len h) \<le> max_payload"
  using encode_decode_header [of src max_payload h] assms
  by (auto simp: decode_encode_header)

theorem decode_from_iff_witness:
  "decode_from (encode_to \<lparr>payload_len = 5, ftype = Chunk\<rparr>) 10 = Inr \<lparr>payload_len = 5, ftype = Chunk\<rparr>"
proof -
  have "length (encode_to \<lparr>payload_len = 5, ftype = Chunk\<rparr>) = kHeaderSize" by simp
  from decode_from_iff [OF this, of 10 "\<lparr>payload_len = 5, ftype = Chunk\<rparr>"]
  show ?thesis by simp
qed



end
