(* ===== verification/Ftx_Decoder.thy ===== *)
theory Ftx_Decoder
  imports Ftx_Frame
begin

text \<open>
  \<^verbatim>\<open>include/ftx/proto/decoder.hpp\<close> and \<^verbatim>\<open>src/lib/proto/decoder.cpp\<close>: the streaming frame
  decoder, a four-state machine over a byte buffer. \<^verbatim>\<open>feed\<close> and the private
  \<^verbatim>\<open>try_consume_header_\<close> and \<^verbatim>\<open>drive_\<close> return their \<^verbatim>\<open>bool\<close> with the new decoder;
  \<^verbatim>\<open>take_frame\<close> returns the frame with the new decoder. The code's trailing underscores are
  dropped, and the members carry the prefix \<open>dec\<close>.
\<close>

datatype DecoderState = ReadingHeader | ReadingPayload | FrameReady | Poisoned

datatype DecoderError = NoError | ErrBadCrc | ErrUnknownType | ErrPayloadTooLarge

record FrameDecoder =
  dec_max_payload :: nat
  dec_state :: DecoderState
  dec_last_error :: DecoderError
  dec_buffer :: bytes
  dec_pending_header :: FrameHeader

text \<open>The default member initialisers of \<^verbatim>\<open>FrameHeader\<close>, used by \<^verbatim>\<open>pending_header_ = {}\<close>.\<close>

definition default_header :: FrameHeader where
  "default_header = \<lparr>payload_len = 0, ftype = Hello\<rparr>"

definition new_decoder :: "nat \<Rightarrow> FrameDecoder" where
  "new_decoder max_payload =
     \<lparr>dec_max_payload = max_payload, dec_state = ReadingHeader, dec_last_error = NoError,
      dec_buffer = [], dec_pending_header = default_header\<rparr>"

fun decoder_error_of :: "DecodeError \<Rightarrow> DecoderError" where
  "decoder_error_of BadCrc = ErrBadCrc"
| "decoder_error_of UnknownType = ErrUnknownType"
| "decoder_error_of PayloadTooLargeErr = ErrPayloadTooLarge"

definition try_consume_header :: "FrameDecoder \<Rightarrow> bool \<times> FrameDecoder" where
  "try_consume_header d =
     (case decode_from (take kHeaderSize (dec_buffer d)) (dec_max_payload d) of
        Inl reason \<Rightarrow> (False, d\<lparr>dec_last_error := decoder_error_of reason, dec_state := Poisoned\<rparr>)
      | Inr hdr \<Rightarrow>
          (True, d\<lparr>dec_pending_header := hdr, dec_buffer := drop kHeaderSize (dec_buffer d),
                   dec_state := (if payload_len hdr = 0 then FrameReady else ReadingPayload)\<rparr>))"

function drive :: "FrameDecoder \<Rightarrow> bool \<times> FrameDecoder" where
  "drive d =
     (case dec_state d of
        Poisoned \<Rightarrow> (False, d)
      | FrameReady \<Rightarrow> (True, d)
      | ReadingHeader \<Rightarrow>
          if length (dec_buffer d) < kHeaderSize then (True, d)
          else if \<not> fst (try_consume_header d) then (False, snd (try_consume_header d))
          else drive (snd (try_consume_header d))
      | ReadingPayload \<Rightarrow>
          if length (dec_buffer d) < unat (payload_len (dec_pending_header d)) then (True, d)
          else (True, d\<lparr>dec_state := FrameReady\<rparr>))"
  by pat_completeness auto

termination
  by (relation "measure (\<lambda>d. if dec_state d = ReadingHeader then 1 else 0)")
    (auto simp: try_consume_header_def split: sum.splits)

declare drive.simps [simp del]

definition feed :: "FrameDecoder \<Rightarrow> bytes \<Rightarrow> bool \<times> FrameDecoder" where
  "feed d bs =
     (if dec_state d = Poisoned then (False, d)
      else drive (d\<lparr>dec_buffer := dec_buffer d @ bs\<rparr>))"

definition has_frame :: "FrameDecoder \<Rightarrow> bool" where
  "has_frame d \<longleftrightarrow> dec_state d = FrameReady"

definition poisoned :: "FrameDecoder \<Rightarrow> bool" where
  "poisoned d \<longleftrightarrow> dec_last_error d \<noteq> NoError"

definition take_frame :: "FrameDecoder \<Rightarrow> Frame \<times> FrameDecoder" where
  "take_frame d =
     (let n = unat (payload_len (dec_pending_header d));
          f = \<lparr>header = dec_pending_header d, payload = take n (dec_buffer d)\<rparr>;
          d' = d\<lparr>dec_buffer := drop n (dec_buffer d), dec_pending_header := default_header,
                 dec_state := ReadingHeader\<rparr>
      in (f, snd (drive d')))"

fun last_error_message :: "DecoderError \<Rightarrow> string" where
  "last_error_message NoError = ''''"
| "last_error_message ErrBadCrc = ''header CRC mismatch''"
| "last_error_message ErrUnknownType = ''unknown frame type''"
| "last_error_message ErrPayloadTooLarge = ''payload exceeds maximum''"

subsection \<open>One round of the driver\<close>

text \<open>The driver's loop runs at most twice, so its result is one case distinction.\<close>

definition await_payload :: "FrameDecoder \<Rightarrow> FrameDecoder" where
  "await_payload d =
     (if length (dec_buffer d) < unat (payload_len (dec_pending_header d)) then d
      else d\<lparr>dec_state := FrameReady\<rparr>)"

lemma drive_simps:
  "dec_state d = Poisoned \<Longrightarrow> drive d = (False, d)"
  "dec_state d = FrameReady \<Longrightarrow> drive d = (True, d)"
  "dec_state d = ReadingPayload \<Longrightarrow> drive d = (True, await_payload d)"
  "dec_state d = ReadingHeader \<Longrightarrow> length (dec_buffer d) < kHeaderSize \<Longrightarrow> drive d = (True, d)"
  by (simp_all add: drive.simps await_payload_def)

lemma drive_header:
  assumes "dec_state d = ReadingHeader" "kHeaderSize \<le> length (dec_buffer d)"
  shows "drive d =
     (case decode_from (take kHeaderSize (dec_buffer d)) (dec_max_payload d) of
        Inl e \<Rightarrow> (False, d\<lparr>dec_last_error := decoder_error_of e, dec_state := Poisoned\<rparr>)
      | Inr h \<Rightarrow> (True, await_payload (d\<lparr>dec_pending_header := h,
          dec_state := ReadingPayload, dec_buffer := drop kHeaderSize (dec_buffer d)\<rparr>)))"
  using assms
  by (subst drive.simps)
    (auto simp: try_consume_header_def drive_simps await_payload_def split: sum.splits)

lemma drive_max_payload [simp]: "dec_max_payload (snd (drive d)) = dec_max_payload d"
proof (cases "dec_state d = ReadingHeader \<and> kHeaderSize \<le> length (dec_buffer d)")
  case True
  then show ?thesis by (simp add: drive_header await_payload_def split: sum.splits)
next
  case False
  then show ?thesis by (cases "dec_state d") (simp_all add: drive_simps await_payload_def)
qed

subsection \<open>The invariant\<close>

definition decoder_inv :: "FrameDecoder \<Rightarrow> bool" where
  "decoder_inv d \<longleftrightarrow>
     (dec_last_error d = NoError \<longleftrightarrow> dec_state d \<noteq> Poisoned) \<and>
     (case dec_state d of
        Poisoned \<Rightarrow> True
      | ReadingHeader \<Rightarrow> length (dec_buffer d) < kHeaderSize
      | ReadingPayload \<Rightarrow>
          length (dec_buffer d) < unat (payload_len (dec_pending_header d)) \<and>
          unat (payload_len (dec_pending_header d)) \<le> dec_max_payload d
      | FrameReady \<Rightarrow>
          unat (payload_len (dec_pending_header d)) \<le> length (dec_buffer d) \<and>
          unat (payload_len (dec_pending_header d)) \<le> dec_max_payload d)"

lemma decoder_error_of_not_None [simp]: "decoder_error_of e \<noteq> NoError"
  by (cases e) simp_all

lemma decoder_inv_new [simp]: "decoder_inv (new_decoder m)"
  by (simp add: decoder_inv_def new_decoder_def kHeaderSize_def)

text \<open>The driver establishes the buffer part from the error part.\<close>

lemma drive_inv:
  assumes "dec_last_error d = NoError \<longleftrightarrow> dec_state d \<noteq> Poisoned"
    and "dec_state d \<in> {ReadingPayload, FrameReady} \<Longrightarrow>
      unat (payload_len (dec_pending_header d)) \<le> dec_max_payload d"
    and "dec_state d = FrameReady \<Longrightarrow>
      unat (payload_len (dec_pending_header d)) \<le> length (dec_buffer d)"
  shows "decoder_inv (snd (drive d))"
proof (cases "dec_state d = ReadingHeader \<and> kHeaderSize \<le> length (dec_buffer d)")
  case True
  then show ?thesis
    using assms(1) encode_decode_header(2) [of "take kHeaderSize (dec_buffer d)"]
    by (auto simp: drive_header decoder_inv_def await_payload_def split: sum.splits)
next
  case False
  then show ?thesis using assms
    by (cases "dec_state d") (auto simp: drive_simps decoder_inv_def await_payload_def)
qed

lemma feed_inv:
  assumes "decoder_inv d"
  shows "decoder_inv (snd (feed d bs))"
proof (cases "dec_state d = Poisoned")
  case False
  have "decoder_inv (snd (drive (d\<lparr>dec_buffer := dec_buffer d @ bs\<rparr>)))"
    by (rule drive_inv) (use assms in \<open>auto simp: decoder_inv_def\<close>)
  with False show ?thesis by (simp add: feed_def)
qed (use assms in \<open>simp add: feed_def\<close>)

lemma take_frame_inv: "decoder_inv d \<Longrightarrow> has_frame d \<Longrightarrow> decoder_inv (snd (take_frame d))"
  unfolding take_frame_def Let_def snd_conv
  by (rule drive_inv) (auto simp: decoder_inv_def has_frame_def)

lemma drive_result: "fst (drive d) \<longleftrightarrow> dec_state (snd (drive d)) \<noteq> Poisoned"
proof (cases "dec_state d = ReadingHeader \<and> kHeaderSize \<le> length (dec_buffer d)")
  case True
  then show ?thesis by (simp add: drive_header await_payload_def split: sum.splits)
next
  case False
  then show ?thesis by (cases "dec_state d") (simp_all add: drive_simps await_payload_def)
qed

lemma feed_result: "fst (feed d bs) \<longleftrightarrow> dec_state (snd (feed d bs)) \<noteq> Poisoned"
  by (simp add: feed_def drive_result)

subsection \<open>Segmentation\<close>

lemma await_payload_more:
  "dec_state d = ReadingPayload \<Longrightarrow>
   drive (await_payload d\<lparr>dec_buffer := dec_buffer (await_payload d) @ bs\<rparr>)
     = (True, await_payload (d\<lparr>dec_buffer := dec_buffer d @ bs\<rparr>))"
  by (auto simp: await_payload_def drive_simps)

lemma drive_append:
  assumes "fst (drive d)"
  shows "drive (snd (drive d)\<lparr>dec_buffer := dec_buffer (snd (drive d)) @ bs\<rparr>)
       = drive (d\<lparr>dec_buffer := dec_buffer d @ bs\<rparr>)"
proof (cases "dec_state d = ReadingHeader \<and> kHeaderSize \<le> length (dec_buffer d)")
  case True
  then obtain h where
    h: "decode_from (take kHeaderSize (dec_buffer d)) (dec_max_payload d) = Inr h"
    using assms by (auto simp: drive_header split: sum.splits)
  let ?d = "d\<lparr>dec_pending_header := h, dec_state := ReadingPayload,
      dec_buffer := drop kHeaderSize (dec_buffer d)\<rparr>"
  have 1: "drive d = (True, await_payload ?d)" using True h by (simp add: drive_header)
  have 2: "drive (d\<lparr>dec_buffer := dec_buffer d @ bs\<rparr>) =
      (True, await_payload (?d\<lparr>dec_buffer := dec_buffer ?d @ bs\<rparr>))"
    using True h by (simp add: drive_header)
  show ?thesis using await_payload_more [of ?d bs] by (simp only: 1 2 snd_conv) simp
next
  case False
  then show ?thesis
    using await_payload_more [of d bs] by (cases "dec_state d") (auto simp: drive_simps)
qed

lemma feed_append:
  assumes "fst (feed d a)"
  shows "feed (snd (feed d a)) b = feed d (a @ b)"
  using assms drive_append [of "d\<lparr>dec_buffer := dec_buffer d @ a\<rparr>" b] feed_result [of d a]
  by (auto simp: feed_def split: if_splits)

lemma drive_poison_append:
  assumes "\<not> fst (drive d)"
  shows "\<not> fst (drive (d\<lparr>dec_buffer := dec_buffer d @ bs\<rparr>))"
    and "dec_last_error (snd (drive (d\<lparr>dec_buffer := dec_buffer d @ bs\<rparr>))) =
         dec_last_error (snd (drive d))"
proof -
  have "dec_state d = ReadingHeader \<and> kHeaderSize \<le> length (dec_buffer d) \<or> dec_state d = Poisoned"
    using assms
    by (cases "dec_state d"; cases "length (dec_buffer d) < kHeaderSize") (auto simp: drive_simps)
  with assms show "\<not> fst (drive (d\<lparr>dec_buffer := dec_buffer d @ bs\<rparr>))"
    and "dec_last_error (snd (drive (d\<lparr>dec_buffer := dec_buffer d @ bs\<rparr>))) =
         dec_last_error (snd (drive d))"
    by (auto simp: drive_header drive_simps split: sum.splits)
qed

interpretation decoder: segmented_consumer
  "\<lambda>d bs. snd (feed d bs)" "\<lambda>d. dec_state d \<noteq> Poisoned"
proof unfold_locales
  fix d a b
  assume "dec_state (snd (feed d a)) \<noteq> Poisoned"
  then show "snd (feed (snd (feed d a)) b) = snd (feed d (a @ b))"
    by (simp add: feed_append feed_result)
next
  fix d a b
  assume "dec_state d \<noteq> Poisoned" "dec_state (snd (feed d (a @ b))) \<noteq> Poisoned"
  then show "dec_state (snd (feed d a)) \<noteq> Poisoned"
    using drive_poison_append(1) [of "d\<lparr>dec_buffer := dec_buffer d @ a\<rparr>" b]
    by (auto simp: feed_def drive_result)
qed

subsection \<open>Refinement of a one-pass parser\<close>

text \<open>
  The specification: cut the whole byte stream into frames at once. The result is the list
  of complete frames, the error of the first bad header if there is one, and the bytes left
  from the last frame boundary on.
\<close>

function parse_stream :: "nat \<Rightarrow> bytes \<Rightarrow> Frame list \<times> DecodeError option \<times> bytes" where
  "parse_stream m bs =
     (if length bs < kHeaderSize then ([], None, bs)
      else case decode_from (take kHeaderSize bs) m of
          Inl e \<Rightarrow> ([], Some e, bs)
        | Inr h \<Rightarrow>
            (let n = unat (payload_len h); rest = drop kHeaderSize bs
             in if length rest < n then ([], None, bs)
                else apfst (Cons \<lparr>header = h, payload = take n rest\<rparr>)
                       (parse_stream m (drop n rest))))"
  by pat_completeness auto

termination
  by (relation "measure (\<lambda>(m, bs). length bs)") (auto simp: kHeaderSize_def)

declare parse_stream.simps [simp del]

text \<open>The bytes of a frame, and the frames a decoder with limit \<open>m\<close> can deliver.\<close>

definition wire :: "Frame \<Rightarrow> bytes" where
  "wire f = encode_to (header f) @ payload f"

definition wf_frame :: "nat \<Rightarrow> Frame \<Rightarrow> bool" where
  "wf_frame m f \<longleftrightarrow> length (payload f) = unat (payload_len (header f)) \<and> length (payload f) \<le> m"

lemma parse_stream_wire:
  "wf_frame m f \<Longrightarrow> parse_stream m (wire f @ bs) = apfst (Cons f) (parse_stream m bs)"
  by (subst parse_stream.simps)
    (simp add: wire_def wf_frame_def decode_encode_header Let_def)

lemma parse_stream_wires:
  "\<forall>f\<in>set fs. wf_frame m f \<Longrightarrow>
   parse_stream m (concat (map wire fs) @ bs) = apfst ((@) fs) (parse_stream m bs)"
  by (induction fs) (simp_all add: parse_stream_wire apfst_def map_prod_def split: prod.splits)

text \<open>
  A decoder that was fed \<open>bs\<close> since the last frame boundary, and the runs of a decoder: a
  client feeds bytes and takes frames in any order. The run records the bytes fed and the
  frames taken.
\<close>

definition fed :: "nat \<Rightarrow> bytes \<Rightarrow> FrameDecoder" where
  "fed m bs = snd (drive ((new_decoder m)\<lparr>dec_buffer := bs\<rparr>))"

inductive decoder_run :: "nat \<Rightarrow> FrameDecoder \<Rightarrow> bytes \<Rightarrow> Frame list \<Rightarrow> bool" for m where
  run_new: "decoder_run m (new_decoder m) [] []"
| run_feed: "decoder_run m d inp out \<Longrightarrow> decoder_run m (snd (feed d bs)) (inp @ bs) out"
| run_take: "decoder_run m d inp out \<Longrightarrow> has_frame d \<Longrightarrow>
    decoder_run m (snd (take_frame d)) inp (out @ [fst (take_frame d)])"

lemma fed_Nil: "fed m [] = new_decoder m"
  by (simp add: fed_def drive_simps new_decoder_def kHeaderSize_def)

lemma fed_feed: "dec_state (fed m bs) \<noteq> Poisoned \<Longrightarrow> snd (feed (fed m bs) cs) = fed m (bs @ cs)"
  using drive_append [of "(new_decoder m)\<lparr>dec_buffer := bs\<rparr>" cs]
  by (simp add: fed_def feed_def drive_result)

lemma fed_cases:
  obtains
    (short) "length bs < kHeaderSize" "fed m bs = (new_decoder m)\<lparr>dec_buffer := bs\<rparr>"
  | (bad) e where "kHeaderSize \<le> length bs" "decode_from (take kHeaderSize bs) m = Inl e"
      "fed m bs = (new_decoder m)\<lparr>dec_buffer := bs, dec_last_error := decoder_error_of e,
         dec_state := Poisoned\<rparr>"
  | (wait) h where "kHeaderSize \<le> length bs" "decode_from (take kHeaderSize bs) m = Inr h"
      "length bs - kHeaderSize < unat (payload_len h)"
      "dec_state (fed m bs) = ReadingPayload"
  | (ready) h where "kHeaderSize \<le> length bs" "decode_from (take kHeaderSize bs) m = Inr h"
      "unat (payload_len h) \<le> length bs - kHeaderSize"
      "fed m bs = (new_decoder m)\<lparr>dec_pending_header := h,
         dec_buffer := drop kHeaderSize bs, dec_state := FrameReady\<rparr>"
proof (cases "length bs < kHeaderSize")
  case True
  then show ?thesis by (rule short) (simp add: fed_def drive_simps new_decoder_def True)
next
  case False
  then have d: "fed m bs = snd (case decode_from (take kHeaderSize bs) m of
        Inl e \<Rightarrow> (False, (new_decoder m)\<lparr>dec_buffer := bs, dec_last_error := decoder_error_of e,
           dec_state := Poisoned\<rparr>)
      | Inr h \<Rightarrow> (True, await_payload ((new_decoder m)\<lparr>dec_buffer := bs, dec_pending_header := h,
           dec_state := ReadingPayload, dec_buffer := drop kHeaderSize bs\<rparr>)))"
    by (simp add: fed_def drive_header new_decoder_def split: sum.split)
  show ?thesis
  proof (cases "decode_from (take kHeaderSize bs) m")
    case (Inl e)
    then show ?thesis using False d by (intro bad) simp_all
  next
    case (Inr h)
    show ?thesis
    proof (cases "length bs - kHeaderSize < unat (payload_len h)")
      case True
      then show ?thesis using False d Inr
        by (intro wait) (simp_all add: await_payload_def)
    next
      case F: False
      show ?thesis using False d Inr F
        by (intro ready) (simp_all add: await_payload_def new_decoder_def)
    qed
  qed
qed

lemma fed_take_frame:
  assumes "has_frame (fed m bs)"
  shows "wf_frame m (fst (take_frame (fed m bs)))"
    and "\<exists>rest. bs = wire (fst (take_frame (fed m bs))) @ rest \<and>
           snd (take_frame (fed m bs)) = fed m rest"
proof -
  obtain h where len: "kHeaderSize \<le> length bs"
    and h: "decode_from (take kHeaderSize bs) m = Inr h"
    and n: "unat (payload_len h) \<le> length bs - kHeaderSize"
    and d: "fed m bs = (new_decoder m)\<lparr>dec_pending_header := h,
         dec_buffer := drop kHeaderSize bs, dec_state := FrameReady\<rparr>"
    using assms
    by (cases bs m rule: fed_cases) (auto simp: has_frame_def new_decoder_def)
  let ?n = "unat (payload_len h)"
  have f: "fst (take_frame (fed m bs)) = \<lparr>header = h, payload = take ?n (drop kHeaderSize bs)\<rparr>"
    by (simp add: d take_frame_def Let_def)
  have enc: "encode_to h = take kHeaderSize bs" and "?n \<le> m"
    using encode_decode_header [OF h] len by simp_all
  then show "wf_frame m (fst (take_frame (fed m bs)))"
    using n by (simp add: f wf_frame_def)
  have "bs = wire (fst (take_frame (fed m bs))) @ drop ?n (drop kHeaderSize bs)"
    by (simp only: f wire_def Frame.simps enc append_assoc append_take_drop_id)
  moreover have "snd (take_frame (fed m bs)) = fed m (drop ?n (drop kHeaderSize bs))"
    by (simp add: take_frame_def Let_def d) (simp add: fed_def new_decoder_def)
  ultimately show "\<exists>rest. bs = wire (fst (take_frame (fed m bs))) @ rest \<and>
           snd (take_frame (fed m bs)) = fed m rest" by blast
qed

text \<open>The simulation invariant of runs.\<close>

lemma decoder_run_invariant:
  assumes "decoder_run m d inp out"
  shows "\<exists>rest extra. inp = concat (map wire out) @ rest @ extra \<and> d = fed m rest \<and>
     (\<forall>f\<in>set out. wf_frame m f) \<and> (extra \<noteq> [] \<longrightarrow> dec_state d = Poisoned)"
  using assms
proof (induction rule: decoder_run.induct)
  case run_new
  show ?case by (intro exI [of _ "[]"]) (simp add: fed_Nil)
next
  case (run_feed d inp out bs)
  then obtain rest extra where inv: "inp = concat (map wire out) @ rest @ extra" "d = fed m rest"
    "\<forall>f\<in>set out. wf_frame m f" "extra \<noteq> [] \<longrightarrow> dec_state d = Poisoned" by blast
  show ?case
  proof (cases "dec_state d = Poisoned")
    case True
    then have "snd (feed d bs) = d" by (simp add: feed_def)
    with inv True show ?thesis by (intro exI [of _ rest] exI [of _ "extra @ bs"]) simp
  next
    case False
    then have "snd (feed d bs) = fed m (rest @ bs)" using inv(2) fed_feed by simp
    with inv False show ?thesis by (intro exI [of _ "rest @ bs"] exI [of _ "[]"]) simp
  qed
next
  case (run_take d inp out)
  then obtain rest extra where inv: "inp = concat (map wire out) @ rest @ extra" "d = fed m rest"
    "\<forall>f\<in>set out. wf_frame m f" "extra \<noteq> [] \<longrightarrow> dec_state d = Poisoned" by blast
  from run_take.hyps have "extra = []" using inv(4) by (auto simp: has_frame_def)
  from run_take.hyps(2) have ready: "has_frame (fed m rest)" by (simp only: inv(2))
  then obtain rest' where rest': "rest = wire (fst (take_frame d)) @ rest'"
    "snd (take_frame d) = fed m rest'"
    using fed_take_frame(2) [OF ready] unfolding inv(2) by blast
  have "wf_frame m (fst (take_frame d))"
    using fed_take_frame(1) [OF ready] by (simp only: inv(2))
  then have "\<forall>f\<in>set (out @ [fst (take_frame d)]). wf_frame m f" using inv(3) by simp
  moreover have "inp = concat (map wire (out @ [fst (take_frame d)])) @ rest' @ []"
    using inv(1) rest'(1) \<open>extra = []\<close> by simp
  ultimately show ?case using rest'(2) by blast
qed

lemma parse_stream_idle:
  assumes "\<not> has_frame (fed m bs)" and "dec_state (fed m bs) = Poisoned \<or> extra = []"
  obtains e r where "parse_stream m (bs @ extra) = ([], e, r)"
    and "dec_state (fed m bs) = Poisoned \<longleftrightarrow> e \<noteq> None"
    and "\<And>x. e = Some x \<Longrightarrow> dec_last_error (fed m bs) = decoder_error_of x"
proof (cases bs m rule: fed_cases)
  case short
  then have "parse_stream m (bs @ extra) = ([], None, bs)"
    using assms(2) by (simp add: parse_stream.simps [of m bs] new_decoder_def)
  then show ?thesis using that short(2) by (simp add: new_decoder_def)
next
  case (bad e)
  then have "parse_stream m (bs @ extra) = ([], Some e, bs @ extra)"
    by (subst parse_stream.simps) simp
  then show ?thesis using that bad(3) by (simp add: new_decoder_def)
next
  case (wait h)
  then have "parse_stream m (bs @ extra) = ([], None, bs)"
    using assms(2) by (simp add: parse_stream.simps [of m bs] Let_def)
  then show ?thesis using that wait(4) by simp
next
  case (ready h)
  then show ?thesis using assms(1) by (simp add: has_frame_def)
qed

lemma decoder_run_parse:
  assumes run: "decoder_run m d inp out" and idle: "\<not> has_frame d"
  obtains e r where "parse_stream m inp = (out, e, r)"
    and "dec_state d = Poisoned \<longleftrightarrow> e \<noteq> None"
    and "\<And>x. e = Some x \<Longrightarrow> dec_last_error d = decoder_error_of x"
proof -
  obtain rest extra where inv: "inp = concat (map wire out) @ rest @ extra" "d = fed m rest"
    "\<forall>f\<in>set out. wf_frame m f" "extra \<noteq> [] \<longrightarrow> dec_state d = Poisoned"
    using decoder_run_invariant [OF run] by blast
  have idle': "\<not> has_frame (fed m rest)" "dec_state (fed m rest) = Poisoned \<or> extra = []"
    using idle inv by auto
  from parse_stream_idle [OF idle'] obtain e r where
    "parse_stream m (rest @ extra) = ([], e, r)"
    and e: "dec_state d = Poisoned \<longleftrightarrow> e \<noteq> None"
      "\<And>x. e = Some x \<Longrightarrow> dec_last_error d = decoder_error_of x"
    using inv(2) by metis
  then have "parse_stream m inp = (out, e, r)"
    using inv by (simp add: parse_stream_wires)
  then show thesis using e by (rule that)
qed

subsection \<open>Properties\<close>

lemma decoder_run_inv: "decoder_run m d inp out \<Longrightarrow> decoder_inv d \<and> dec_max_payload d = m"
proof (induction rule: decoder_run.induct)
  case run_new
  then show ?case by (simp add: new_decoder_def decoder_inv_def kHeaderSize_def)
next
  case (run_feed d inp out bs)
  then show ?case using feed_inv [of d bs] by (simp add: feed_def)
next
  case (run_take d inp out)
  then show ?case using take_frame_inv [of d] by (simp add: take_frame_def Let_def)
qed

lemma decoder_run_feeds:
  "decoder_run m d inp out \<Longrightarrow>
   decoder_run m (foldl (\<lambda>d bs. snd (feed d bs)) d segs) (inp @ concat segs) out"
proof (induction segs arbitrary: d inp)
  case (Cons s segs)
  from Cons.IH [OF decoder_run.run_feed [OF Cons.prems]] show ?case by simp
qed simp

lemma feed_new: "snd (feed (new_decoder m) bs) = fed m bs"
  by (simp add: feed_def fed_def new_decoder_def)

lemma fed_run: "decoder_run m (fed m bs) bs []"
  using decoder_run.run_feed [OF decoder_run.run_new, of m bs] by (simp add: feed_new)

lemma parse_stream_Nil: "parse_stream m [] = ([], None, [])"
  by (subst parse_stream.simps) (simp add: kHeaderSize_def)

text \<open>
  C17. The streaming decoder refines the one-pass parser: in every run that feeds bytes and takes
  frames in any order, once no frame is ready the frames taken are exactly the complete frames of
  all bytes fed, the decoder is poisoned exactly when the parser found a bad header, and it then
  reports that header's error.
\<close>

theorem decoder_refines_parser:
  assumes "decoder_run m d inp out" "\<not> has_frame d"
  shows "fst (parse_stream m inp) = out \<and>
    dec_last_error d =
      (case fst (snd (parse_stream m inp)) of None \<Rightarrow> NoError | Some e \<Rightarrow> decoder_error_of e)"
proof -
  obtain e r where p: "parse_stream m inp = (out, e, r)" "dec_state d = Poisoned \<longleftrightarrow> e \<noteq> None"
    "\<And>x. e = Some x \<Longrightarrow> dec_last_error d = decoder_error_of x"
    using decoder_run_parse [OF assms] by blast
  have "dec_last_error d = NoError \<longleftrightarrow> dec_state d \<noteq> Poisoned"
    using decoder_run_inv [OF assms(1)] by (simp add: decoder_inv_def)
  then show ?thesis
    using p by (auto split: option.splits)
qed

theorem decoder_refines_parser_witness:
  "fst (parse_stream 10 [0, 0, 0, 2, 4]) = []"
proof -
  have idle: "\<not> has_frame (fed 10 [0, 0, 0, 2, 4])"
    by (simp add: fed_def new_decoder_def drive_simps kHeaderSize_def has_frame_def)
  show ?thesis using decoder_refines_parser [OF fed_run idle] by simp
qed

text \<open>
  The decoder does not depend on segmentation: two ways of cutting the same byte stream leave
  the same decoder, as long as the stream does not poison it.
\<close>

theorem decoder_segmentation:
  assumes "concat (a # as) = concat (b # bs)"
    and "\<not> poisoned (snd (feed (new_decoder m) (concat (a # as))))"
  shows "foldl (\<lambda>d s. snd (feed d s)) (new_decoder m) (a # as) =
         foldl (\<lambda>d s. snd (feed d s)) (new_decoder m) (b # bs)"
proof (rule decoder.segmentation_independent)
  show "dec_state (new_decoder m) \<noteq> Poisoned" by (simp add: new_decoder_def)
  have "decoder_inv (snd (feed (new_decoder m) (concat (a # as))))"
    by (simp add: feed_inv del: concat.simps)
  then show "dec_state (snd (feed (new_decoder m) (concat (a # as)))) \<noteq> Poisoned"
    using assms(2) by (auto simp: decoder_inv_def poisoned_def)
qed (rule assms(1))


text \<open>A run that feeds one whole frame in two pieces and takes it.\<close>

lemma fed_wire:
  assumes "wf_frame m f"
  shows "has_frame (fed m (wire f))" "take_frame (fed m (wire f)) = (f, new_decoder m)"
proof -
  have "decode_from (take kHeaderSize (wire f)) m = Inr (header f)"
    using assms by (simp add: wire_def decode_encode_header wf_frame_def)
  then have "fed m (wire f) = (new_decoder m)\<lparr>dec_pending_header := header f,
      dec_buffer := payload f, dec_state := FrameReady\<rparr>"
    using assms
    by (cases "wire f" m rule: fed_cases) (auto simp: wire_def wf_frame_def kHeaderSize_def)
  then show "has_frame (fed m (wire f))" "take_frame (fed m (wire f)) = (f, new_decoder m)"
    using assms
    by (simp_all add: has_frame_def take_frame_def Let_def wf_frame_def new_decoder_def
        drive_simps kHeaderSize_def)
qed


text \<open>
  Poisoning is permanent, and a decoder with no frame ready holds less than one header or one
  payload: in every reachable state a poisoned decoder refuses all further bytes unchanged, and a
  decoder that waits for more bytes buffers fewer than the larger of the header size and the
  payload limit.
\<close>

lemma decoder_poison_and_bound:
  assumes "decoder_run m d inp out"
  shows "(poisoned d \<longrightarrow> feed d bs = (False, d)) \<and>
    (\<not> poisoned d \<longrightarrow> \<not> has_frame d \<longrightarrow> length (dec_buffer d) < max kHeaderSize m)"
  using decoder_run_inv [OF assms]
  by (auto simp: decoder_inv_def poisoned_def feed_def has_frame_def split: DecoderState.splits)

text \<open>
  The memory bound stated in \<^verbatim>\<open>decoder.hpp\<close> (at most the header size plus the payload limit)
  does not hold for the decoder by itself: for every limit and every number of bytes there is a
  healthy decoder, with a frame ready, that buffers more than that many bytes.
\<close>

theorem decoder_buffer_unbounded:
  "\<exists>d inp out. decoder_run m d inp out \<and> \<not> poisoned d \<and> n < length (dec_buffer d)"
proof -
  let ?f = "\<lparr>header = \<lparr>payload_len = 0, ftype = Ack\<rparr>, payload = []\<rparr>"
  let ?d = "fed m (wire ?f)" and ?x = "replicate (Suc n) 0"
  have wf: "wf_frame m ?f" by (simp add: wf_frame_def)
  have run: "decoder_run m (snd (feed ?d ?x)) (wire ?f @ ?x) []"
    by (rule decoder_run.run_feed [OF fed_run])
  have "snd (feed ?d ?x) = ?d\<lparr>dec_buffer := dec_buffer ?d @ ?x\<rparr>"
    using fed_wire(1) [OF wf] by (simp add: has_frame_def feed_def drive_simps)
  moreover have "dec_last_error ?d = NoError"
    using fed_wire(1) [OF wf] decoder_run_inv [OF fed_run, of m "wire ?f"]
    by (simp add: has_frame_def decoder_inv_def)
  ultimately show ?thesis using run by (intro exI [of _ "snd (feed ?d ?x)"]) (auto simp: poisoned_def)
qed

end
