(* ===== verification/Ftx_Messages.thy ===== *)
theory Ftx_Messages
  imports Ftx_Types Ftx_Byteorder "HOL-Library.Monad_Syntax"
begin

text \<open>
  \<^verbatim>\<open>include/ftx/proto/messages.hpp\<close> and \<^verbatim>\<open>src/lib/proto/messages.cpp\<close>: the seven payload
  formats. The append helpers extend the output buffer; the cursor helpers return the value
  read with the advanced cursor, or \<^const>\<open>None\<close> where the C++ returns \<^verbatim>\<open>false\<close>, which every
  decoder turns into \<^verbatim>\<open>std::nullopt\<close> at once: the option monad.

  A \<^verbatim>\<open>Hash\<close> is a list of bytes; that it has 32 of them, which the C++ type guarantees, is
  part of the well-formedness predicates.
\<close>

type_synonym Hash = bytes

definition kHashSize :: nat where
  "kHashSize = 32"

definition kZeroHash :: Hash where
  "kZeroHash = replicate 32 0"

record HelloMsg =
  protocol_version :: u8
  max_chunk_size :: u32
  capabilities :: u32

text \<open>The default member initialisers, \<^verbatim>\<open>HelloMsg{}\<close>.\<close>

definition default_hello :: HelloMsg where
  "default_hello = \<lparr>protocol_version = kProtocolVersion, max_chunk_size = 1 * 1024 * 1024,
     capabilities = 0\<rparr>"

record ManifestMsg =
  file_size :: u64
  chunk_size :: u32
  chunk_count :: u32
  root_hash :: Hash
  path :: string
  chunk_hashes :: "Hash list"

record ReqChunksMsg =
  indices :: "u32 list"

record ChunkMsg =
  index :: u32
  hash :: Hash
  data :: bytes

record CompleteMsg =
  final_root_hash :: Hash
  status :: u8

record AckMsg =
  last_index :: u32

record ErrorMsg =
  code :: ErrorCode
  message :: string

subsection \<open>Append helpers\<close>

definition append_u8 :: "bytes \<Rightarrow> u8 \<Rightarrow> bytes" where
  "append_u8 out v = out @ [v]"

definition append_u16 :: "bytes \<Rightarrow> u16 \<Rightarrow> bytes" where
  "append_u16 out v = out @ write_be_u16 v"

definition append_u32 :: "bytes \<Rightarrow> u32 \<Rightarrow> bytes" where
  "append_u32 out v = out @ write_be_u32 v"

definition append_u64 :: "bytes \<Rightarrow> u64 \<Rightarrow> bytes" where
  "append_u64 out v = out @ write_be_u64 v"

definition append_hash :: "bytes \<Rightarrow> Hash \<Rightarrow> bytes" where
  "append_hash out h = out @ h"

definition append_bytes :: "bytes \<Rightarrow> bytes \<Rightarrow> bytes" where
  "append_bytes out s = (if s = [] then out else out @ s)"

lemmas append_defs = append_u8_def append_u16_def append_u32_def append_u64_def append_hash_def
  append_bytes_def

subsection \<open>The cursor\<close>

record Cursor =
  cur_payload :: bytes
  cur_pos :: nat

definition new_cursor :: "bytes \<Rightarrow> Cursor" where
  "new_cursor p = \<lparr>cur_payload = p, cur_pos = 0\<rparr>"

definition advance :: "nat \<Rightarrow> Cursor \<Rightarrow> Cursor" where
  "advance n c = c\<lparr>cur_pos := cur_pos c + n\<rparr>"

text \<open>The \<open>n\<close> bytes at the cursor, \<^verbatim>\<open>payload_.data() + pos_\<close>, after the bounds check.\<close>

definition at_cursor :: "nat \<Rightarrow> Cursor \<Rightarrow> bytes" where
  "at_cursor n c = take n (drop (cur_pos c) (cur_payload c))"

definition take_u8 :: "Cursor \<Rightarrow> (u8 \<times> Cursor) option" where
  "take_u8 c =
     (if cur_pos c + 1 > length (cur_payload c) then None
      else Some (cur_payload c ! cur_pos c, advance 1 c))"

definition take_u16 :: "Cursor \<Rightarrow> (u16 \<times> Cursor) option" where
  "take_u16 c =
     (if cur_pos c + 2 > length (cur_payload c) then None
      else Some (read_be_u16 (at_cursor 2 c), advance 2 c))"

definition take_u32 :: "Cursor \<Rightarrow> (u32 \<times> Cursor) option" where
  "take_u32 c =
     (if cur_pos c + 4 > length (cur_payload c) then None
      else Some (read_be_u32 (at_cursor 4 c), advance 4 c))"

definition take_u64 :: "Cursor \<Rightarrow> (u64 \<times> Cursor) option" where
  "take_u64 c =
     (if cur_pos c + 8 > length (cur_payload c) then None
      else Some (read_be_u64 (at_cursor 8 c), advance 8 c))"

definition take_hash :: "Cursor \<Rightarrow> (Hash \<times> Cursor) option" where
  "take_hash c =
     (if cur_pos c + kHashSize > length (cur_payload c) then None
      else Some (at_cursor kHashSize c, advance kHashSize c))"

definition take_bytes :: "nat \<Rightarrow> Cursor \<Rightarrow> (bytes \<times> Cursor) option" where
  "take_bytes n c =
     (if cur_pos c + n > length (cur_payload c) then None
      else Some (at_cursor n c, advance n c))"

definition take_string :: "nat \<Rightarrow> Cursor \<Rightarrow> (string \<times> Cursor) option" where
  "take_string n c =
     (if cur_pos c + n > length (cur_payload c) then None
      else Some (as_string (at_cursor n c), advance n c))"

definition remaining :: "Cursor \<Rightarrow> nat" where
  "remaining c = length (cur_payload c) - cur_pos c"

definition rest :: "Cursor \<Rightarrow> bytes" where
  "rest c = drop (cur_pos c) (cur_payload c)"

text \<open>The loops that fill a vector of \<open>n\<close> elements, one \<^verbatim>\<open>take\<close> per element.\<close>

fun take_times :: "(Cursor \<Rightarrow> ('a \<times> Cursor) option) \<Rightarrow> nat \<Rightarrow> Cursor \<Rightarrow> ('a list \<times> Cursor) option"
where
  "take_times tk 0 c = Some ([], c)"
| "take_times tk (Suc n) c = do {
     (x, c) \<leftarrow> tk c;
     (xs, c) \<leftarrow> take_times tk n c;
     Some (x # xs, c)
   }"

subsection \<open>Encoders and decoders\<close>

definition encode_hello :: "HelloMsg \<Rightarrow> bytes" where
  "encode_hello m =
     (let out = [];
          out = append_u8 out (protocol_version m);
          out = append_u32 out (max_chunk_size m);
          out = append_u32 out (capabilities m)
      in out)"

definition decode_hello :: "bytes \<Rightarrow> HelloMsg option" where
  "decode_hello p = do {
     (v, c) \<leftarrow> take_u8 (new_cursor p);
     (m, c) \<leftarrow> take_u32 c;
     (cap, c) \<leftarrow> take_u32 c;
     if remaining c \<noteq> 0 then None
     else Some \<lparr>protocol_version = v, max_chunk_size = m, capabilities = cap\<rparr>
   }"

definition encode_manifest :: "ManifestMsg \<Rightarrow> bytes" where
  "encode_manifest m =
     (let out = [];
          out = append_u64 out (file_size m);
          out = append_u32 out (chunk_size m);
          out = append_u32 out (chunk_count m);
          out = append_hash out (root_hash m);
          out = append_u16 out (word_of_nat (length (path m)));
          out = append_bytes out (as_bytes (path m))
      in foldl append_hash out (chunk_hashes m))"

definition decode_manifest :: "bytes \<Rightarrow> ManifestMsg option" where
  "decode_manifest p = do {
     (fs, c) \<leftarrow> take_u64 (new_cursor p);
     (cs, c) \<leftarrow> take_u32 c;
     (cc, c) \<leftarrow> take_u32 c;
     (rh, c) \<leftarrow> take_hash c;
     (path_len, c) \<leftarrow> take_u16 c;
     (pa, c) \<leftarrow> take_string (unat path_len) c;
     (hs, c) \<leftarrow> take_times take_hash (unat cc) c;
     if remaining c \<noteq> 0 then None
     else Some \<lparr>file_size = fs, chunk_size = cs, chunk_count = cc, root_hash = rh, path = pa,
                chunk_hashes = hs\<rparr>
   }"

text \<open>
  The size of the vector that \<^verbatim>\<open>m.chunk_hashes.resize(m.chunk_count)\<close> allocates before the
  first hash is read, in bytes: \<^const>\<open>None\<close> when the decoder returns before that line.
\<close>

definition decode_manifest_resize :: "bytes \<Rightarrow> nat option" where
  "decode_manifest_resize p = do {
     (fs, c) \<leftarrow> take_u64 (new_cursor p);
     (cs, c) \<leftarrow> take_u32 c;
     (cc, c) \<leftarrow> take_u32 c;
     (rh, c) \<leftarrow> take_hash c;
     (path_len, c) \<leftarrow> take_u16 c;
     (pa, c) \<leftarrow> take_string (unat path_len) c;
     Some (unat cc * kHashSize)
   }"

definition encode_req_chunks :: "ReqChunksMsg \<Rightarrow> bytes" where
  "encode_req_chunks m =
     (let out = [];
          out = append_u32 out (word_of_nat (length (indices m)))
      in foldl append_u32 out (indices m))"

definition decode_req_chunks :: "bytes \<Rightarrow> ReqChunksMsg option" where
  "decode_req_chunks p = do {
     (count, c) \<leftarrow> take_u32 (new_cursor p);
     if unat count > remaining c div 4 then None
     else do {
       (is, c) \<leftarrow> take_times take_u32 (unat count) c;
       if remaining c \<noteq> 0 then None else Some \<lparr>indices = is\<rparr>
     }
   }"

definition encode_chunk :: "ChunkMsg \<Rightarrow> bytes" where
  "encode_chunk m =
     (let out = [];
          out = append_u32 out (index m);
          out = append_hash out (hash m);
          out = append_bytes out (data m)
      in out)"

definition decode_chunk :: "bytes \<Rightarrow> ChunkMsg option" where
  "decode_chunk p = do {
     (i, c) \<leftarrow> take_u32 (new_cursor p);
     (h, c) \<leftarrow> take_hash c;
     Some \<lparr>index = i, hash = h, data = rest c\<rparr>
   }"

definition encode_complete :: "CompleteMsg \<Rightarrow> bytes" where
  "encode_complete m =
     (let out = [];
          out = append_hash out (final_root_hash m);
          out = append_u8 out (status m)
      in out)"

definition decode_complete :: "bytes \<Rightarrow> CompleteMsg option" where
  "decode_complete p = do {
     (h, c) \<leftarrow> take_hash (new_cursor p);
     (s, c) \<leftarrow> take_u8 c;
     if remaining c \<noteq> 0 then None else Some \<lparr>final_root_hash = h, status = s\<rparr>
   }"

definition encode_ack :: "AckMsg \<Rightarrow> bytes" where
  "encode_ack m = append_u32 [] (last_index m)"

definition decode_ack :: "bytes \<Rightarrow> AckMsg option" where
  "decode_ack p = do {
     (i, c) \<leftarrow> take_u32 (new_cursor p);
     if remaining c \<noteq> 0 then None else Some \<lparr>last_index = i\<rparr>
   }"

definition encode_error :: "ErrorMsg \<Rightarrow> bytes" where
  "encode_error m =
     (let out = [];
          out = append_u16 out (code m);
          out = append_u16 out (word_of_nat (length (message m)));
          out = append_bytes out (as_bytes (message m))
      in out)"

definition decode_error :: "bytes \<Rightarrow> ErrorMsg option" where
  "decode_error p = do {
     (code_raw, c) \<leftarrow> take_u16 (new_cursor p);
     (msg_len, c) \<leftarrow> take_u16 c;
     (msg, c) \<leftarrow> take_string (unat msg_len) c;
     if remaining c \<noteq> 0 then None else Some \<lparr>code = code_raw, message = msg\<rparr>
   }"

subsection \<open>Fields\<close>

text \<open>
  The contract between a decoder and the cursor: a field is a byte format \<open>put\<close> with a
  reader \<open>tk\<close>. A reader finds the value whose bytes are at the cursor and advances over
  exactly those bytes, and what it returns was at the cursor. \<open>wf_cursor\<close> is the cursor's
  own invariant, \<^verbatim>\<open>pos_ <= payload_.size()\<close>.
\<close>

definition wf_cursor :: "Cursor \<Rightarrow> bool" where
  "wf_cursor c \<longleftrightarrow> cur_pos c \<le> length (cur_payload c)"

lemma wf_new_cursor [simp]: "wf_cursor (new_cursor p)"
  by (simp add: wf_cursor_def new_cursor_def)

lemma rest_new_cursor [simp]: "rest (new_cursor p) = p"
  by (simp add: rest_def new_cursor_def)

lemma rest_advance [simp]: "rest (advance n c) = drop n (rest c)"
  by (simp add: rest_def advance_def add.commute)

lemma wf_advance: "wf_cursor c \<Longrightarrow> n \<le> length (rest c) \<Longrightarrow> wf_cursor (advance n c)"
  by (simp add: wf_cursor_def rest_def advance_def)

lemma remaining_eq: "remaining c = length (rest c)"
  by (simp add: remaining_def rest_def)

lemma take_alt:
  assumes "wf_cursor c"
  shows "take_u8 c = (if length (rest c) < 1 then None else Some (hd (rest c), advance 1 c))"
    and "take_u16 c = (if length (rest c) < 2 then None
           else Some (read_be_u16 (take 2 (rest c)), advance 2 c))"
    and "take_u32 c = (if length (rest c) < 4 then None
           else Some (read_be_u32 (take 4 (rest c)), advance 4 c))"
    and "take_u64 c = (if length (rest c) < 8 then None
           else Some (read_be_u64 (take 8 (rest c)), advance 8 c))"
    and "take_hash c = (if length (rest c) < kHashSize then None
           else Some (take kHashSize (rest c), advance kHashSize c))"
    and "take_bytes n c = (if length (rest c) < n then None
           else Some (take n (rest c), advance n c))"
    and "take_string n c = (if length (rest c) < n then None
           else Some (as_string (take n (rest c)), advance n c))"
  using assms
  by (auto simp: wf_cursor_def rest_def at_cursor_def hd_drop_conv_nth
      take_u8_def take_u16_def take_u32_def take_u64_def take_hash_def take_bytes_def
      take_string_def)

locale field =
  fixes put :: "'a \<Rightarrow> bytes"
    and tk :: "Cursor \<Rightarrow> ('a \<times> Cursor) option"
    and okay :: "'a \<Rightarrow> bool"
  assumes take_put: "wf_cursor c \<Longrightarrow> okay v \<Longrightarrow> rest c = put v @ r \<Longrightarrow>
      tk c = Some (v, advance (length (put v)) c)"
    and put_take: "wf_cursor c \<Longrightarrow> tk c = Some (v, c') \<Longrightarrow>
      wf_cursor c' \<and> okay v \<and> rest c = put v @ rest c'"
begin

lemma take_times_put:
  "wf_cursor c \<Longrightarrow> \<forall>v\<in>set vs. okay v \<Longrightarrow> rest c = concat (map put vs) @ r \<Longrightarrow>
   take_times tk (length vs) c = Some (vs, advance (length (concat (map put vs))) c)"
proof (induction vs arbitrary: c)
  case Nil
  then show ?case by (simp add: advance_def)
next
  case (Cons v vs)
  let ?c = "advance (length (put v)) c"
  have "tk c = Some (v, ?c)" using Cons.prems by (intro take_put) simp_all
  moreover have "wf_cursor ?c" using Cons.prems by (intro wf_advance) simp_all
  moreover have "rest ?c = concat (map put vs) @ r" using Cons.prems by simp
  ultimately show ?case using Cons.IH [of ?c] Cons.prems(2)
    by (simp add: advance_def add.assoc)
qed

lemma put_take_times:
  "wf_cursor c \<Longrightarrow> take_times tk n c = Some (vs, c') \<Longrightarrow>
   wf_cursor c' \<and> length vs = n \<and> (\<forall>v\<in>set vs. okay v) \<and> rest c = concat (map put vs) @ rest c'"
proof (induction n arbitrary: c vs)
  case (Suc n)
  from Suc.prems(2) obtain v c1 ws where step: "tk c = Some (v, c1)"
    and more: "take_times tk n c1 = Some (ws, c')" and "vs = v # ws"
    by (auto split: Option.bind_splits)
  have "wf_cursor c1 \<and> okay v \<and> rest c = put v @ rest c1" by (rule put_take [OF Suc.prems(1) step])
  with Suc.IH [OF _ more] \<open>vs = v # ws\<close> show ?case by auto
qed simp

end

interpretation f_u8: field "\<lambda>v. [v]" take_u8 "\<lambda>_. True"
  by unfold_locales
    (auto simp: take_alt wf_advance drop_Suc Suc_le_eq split: if_splits)

interpretation f_u16: field write_be_u16 take_u16 "\<lambda>_. True"
  by unfold_locales (auto simp: take_alt wf_advance write_read_be split: if_splits)

interpretation f_u32: field write_be_u32 take_u32 "\<lambda>_. True"
  by unfold_locales (auto simp: take_alt wf_advance write_read_be split: if_splits)

interpretation f_u64: field write_be_u64 take_u64 "\<lambda>_. True"
  by unfold_locales (auto simp: take_alt wf_advance write_read_be split: if_splits)

interpretation f_hash: field "\<lambda>h. h" take_hash "\<lambda>h. length h = kHashSize"
  by unfold_locales (auto simp: take_alt wf_advance split: if_splits)

interpretation f_bytes: field "\<lambda>b. b" "take_bytes n" "\<lambda>b. length b = n" for n
  by unfold_locales (auto simp: take_alt wf_advance split: if_splits)

interpretation f_string: field as_bytes "take_string n" "\<lambda>s. length s = n" for n
  by unfold_locales (auto simp: take_alt wf_advance comp_def split: if_splits)

lemmas field_puts = f_u8.put_take f_u16.put_take f_u32.put_take f_u64.put_take f_hash.put_take
  f_bytes.put_take f_string.put_take

subsection \<open>Messages\<close>

text \<open>
  What the sessions rely on: a well-formed message survives the wire, and a payload that
  decodes is the encoding of the message it decodes to. A codec with both laws accepts
  exactly the encodings of well-formed messages.
\<close>

locale message_codec =
  fixes enc :: "'m \<Rightarrow> bytes"
    and dec :: "bytes \<Rightarrow> 'm option"
    and valid :: "'m \<Rightarrow> bool"
  assumes dec_enc: "valid m \<Longrightarrow> dec (enc m) = Some m"
    and enc_dec: "dec p = Some m \<Longrightarrow> valid m \<and> enc m = p"
begin

lemma dec_iff: "dec p = Some m \<longleftrightarrow> valid m \<and> p = enc m"
  using dec_enc enc_dec by blast

lemma enc_inj: "valid m \<Longrightarrow> valid m' \<Longrightarrow> enc m = enc m' \<Longrightarrow> m = m'"
  by (metis dec_enc option.inject)

lemma dec_inj: "dec p = Some m \<Longrightarrow> dec q = Some m \<Longrightarrow> p = q"
  by (simp add: dec_iff)

lemma dec_rejects: "dec p = None \<longleftrightarrow> (\<forall>m. valid m \<longrightarrow> p \<noteq> enc m)"
proof (cases "dec p")
  case None
  then show ?thesis using dec_enc by force
next
  case (Some m)
  then have "valid m \<and> p = enc m" by (simp add: dec_iff)
  with Some show ?thesis by auto
qed

end

definition valid_manifest :: "ManifestMsg \<Rightarrow> bool" where
  "valid_manifest m \<longleftrightarrow>
     length (root_hash m) = kHashSize \<and> length (path m) < 2 ^ 16 \<and>
     length (chunk_hashes m) = unat (chunk_count m) \<and>
     (\<forall>h\<in>set (chunk_hashes m). length h = kHashSize)"

definition valid_req_chunks :: "ReqChunksMsg \<Rightarrow> bool" where
  "valid_req_chunks m \<longleftrightarrow> length (indices m) < 2 ^ 32"

definition valid_chunk :: "ChunkMsg \<Rightarrow> bool" where
  "valid_chunk m \<longleftrightarrow> length (hash m) = kHashSize"

definition valid_complete :: "CompleteMsg \<Rightarrow> bool" where
  "valid_complete m \<longleftrightarrow> length (final_root_hash m) = kHashSize"

definition valid_error :: "ErrorMsg \<Rightarrow> bool" where
  "valid_error m \<longleftrightarrow> length (message m) < 2 ^ 16"

lemma foldl_append_hash: "foldl append_hash out hs = out @ concat hs"
  by (induction hs arbitrary: out) (simp_all add: append_hash_def)

lemma foldl_append_u32: "foldl append_u32 out is = out @ concat (map write_be_u32 is)"
  by (induction "is" arbitrary: out) (simp_all add: append_u32_def)

lemma encode_layout [codec_simps]:
  "encode_hello a = protocol_version a # write_be_u32 (max_chunk_size a) @
     write_be_u32 (capabilities a)"
  "encode_manifest b = write_be_u64 (file_size b) @ write_be_u32 (chunk_size b) @
     write_be_u32 (chunk_count b) @ root_hash b @ write_be_u16 (word_of_nat (length (path b))) @
     as_bytes (path b) @ concat (chunk_hashes b)"
  "encode_req_chunks d = write_be_u32 (word_of_nat (length (indices d))) @
     concat (map write_be_u32 (indices d))"
  "encode_chunk e = write_be_u32 (index e) @ hash e @ data e"
  "encode_complete f = final_root_hash f @ [status f]"
  "encode_ack g = write_be_u32 (last_index g)"
  "encode_error h = write_be_u16 (code h) @ write_be_u16 (word_of_nat (length (message h))) @
     as_bytes (message h)"
  by (simp_all add: foldl_append_hash foldl_append_u32 append_defs encode_hello_def encode_manifest_def encode_req_chunks_def
      encode_chunk_def encode_complete_def encode_ack_def encode_error_def Let_def)

interpretation hello: message_codec encode_hello decode_hello "\<lambda>_. True"
proof unfold_locales
  fix m :: HelloMsg
  show "decode_hello (encode_hello m) = Some m"
    by (simp add: decode_hello_def codec_simps take_alt wf_advance remaining_eq)
next
  fix p m assume "decode_hello p = Some m"
  then show "True \<and> encode_hello m = p"
    by (auto simp: decode_hello_def codec_simps remaining_eq
        split: Option.bind_splits if_splits dest!: field_puts [rotated])
qed

interpretation ack: message_codec encode_ack decode_ack "\<lambda>_. True"
proof unfold_locales
  fix m :: AckMsg
  show "decode_ack (encode_ack m) = Some m"
    by (simp add: decode_ack_def codec_simps take_alt wf_advance remaining_eq)
next
  fix p m assume "decode_ack p = Some m"
  then show "True \<and> encode_ack m = p"
    by (auto simp: decode_ack_def codec_simps remaining_eq
        split: Option.bind_splits if_splits dest!: field_puts [rotated])
qed

interpretation complete: message_codec encode_complete decode_complete valid_complete
proof unfold_locales
  fix m assume "valid_complete m"
  then show "decode_complete (encode_complete m) = Some m"
    by (simp add: decode_complete_def codec_simps valid_complete_def take_alt wf_advance
        remaining_eq)
next
  fix p m assume "decode_complete p = Some m"
  then show "valid_complete m \<and> encode_complete m = p"
    by (auto simp: decode_complete_def codec_simps valid_complete_def remaining_eq
        split: Option.bind_splits if_splits dest!: field_puts [rotated])
qed

interpretation chunk: message_codec encode_chunk decode_chunk valid_chunk
proof unfold_locales
  fix m assume "valid_chunk m"
  then show "decode_chunk (encode_chunk m) = Some m"
    by (simp add: decode_chunk_def codec_simps valid_chunk_def take_alt wf_advance)
next
  fix p m assume "decode_chunk p = Some m"
  then show "valid_chunk m \<and> encode_chunk m = p"
    by (auto simp: decode_chunk_def codec_simps valid_chunk_def
        split: Option.bind_splits if_splits dest!: field_puts [rotated])
qed

interpretation err: message_codec encode_error decode_error valid_error
proof unfold_locales
  fix m assume "valid_error m"
  then show "decode_error (encode_error m) = Some m"
    by (simp add: decode_error_def codec_simps valid_error_def take_alt wf_advance remaining_eq
        comp_def)
next
  fix p m assume "decode_error p = Some m"
  then show "valid_error m \<and> encode_error m = p"
    using unat_less_u16
    by (auto simp: decode_error_def codec_simps valid_error_def remaining_eq
        split: Option.bind_splits if_splits dest!: field_puts [rotated])
qed

interpretation manifest: message_codec encode_manifest decode_manifest valid_manifest
proof unfold_locales
  fix m assume m: "valid_manifest m"
  have hs: "take_times take_hash (unat (chunk_count m)) c
      = Some (chunk_hashes m, advance (length (concat (chunk_hashes m))) c)"
    if "wf_cursor c" "rest c = concat (chunk_hashes m)" for c
    using f_hash.take_times_put [of c "chunk_hashes m" "[]"] that m
    by (simp add: valid_manifest_def)
  from m show "decode_manifest (encode_manifest m) = Some m"
    by (simp add: decode_manifest_def codec_simps valid_manifest_def take_alt wf_advance hs
        remaining_eq comp_def)
next
  fix p m assume "decode_manifest p = Some m"
  then show "valid_manifest m \<and> encode_manifest m = p"
    using unat_less_u16
    by (auto simp: decode_manifest_def codec_simps valid_manifest_def remaining_eq
        split: Option.bind_splits if_splits
        dest!: field_puts [rotated] f_hash.put_take_times [rotated])
qed

interpretation req: message_codec encode_req_chunks decode_req_chunks valid_req_chunks
proof unfold_locales
  fix m assume m: "valid_req_chunks m"
  have len: "length (concat (map write_be_u32 xs)) = 4 * length xs" for xs
    by (induction xs) simp_all
  have "take_times take_u32 (length (indices m)) c
      = Some (indices m, advance (length (concat (map write_be_u32 (indices m)))) c)"
    if "wf_cursor c" "rest c = concat (map write_be_u32 (indices m))" for c
    using f_u32.take_times_put [of c "indices m" "[]"] that by simp
  with m show "decode_req_chunks (encode_req_chunks m) = Some m"
    by (simp add: decode_req_chunks_def codec_simps valid_req_chunks_def take_alt wf_advance
        remaining_eq len)
next
  fix p m assume "decode_req_chunks p = Some m"
  then show "valid_req_chunks m \<and> encode_req_chunks m = p"
    using unat_less_u32
    by (auto simp: decode_req_chunks_def codec_simps valid_req_chunks_def remaining_eq
        split: Option.bind_splits if_splits
        dest!: field_puts [rotated] f_u32.put_take_times [rotated])
qed

subsection \<open>Properties\<close>

text \<open>
  C20. The MANIFEST codec is exact: a payload decodes to a manifest exactly when it is the encoding
  of that manifest and the manifest is well formed (32-byte hashes, as many chunk hashes as the
  chunk count says, a path shorter than 65536 bytes). Truncated payloads, trailing bytes and wrong
  counts are all rejected.
\<close>

theorem manifest_codec_exact:
  "decode_manifest p = Some m \<longleftrightarrow> valid_manifest m \<and> p = encode_manifest m"
  by (rule manifest.dec_iff)

text \<open>
  C21. The HELLO, CHUNK, COMPLETE and ACK codecs are exact, too.
\<close>

theorem fixed_codecs_exact:
  "(decode_hello p = Some m1 \<longleftrightarrow> p = encode_hello m1) \<and>
   (decode_chunk p = Some m2 \<longleftrightarrow> valid_chunk m2 \<and> p = encode_chunk m2) \<and>
   (decode_complete p = Some m3 \<longleftrightarrow> valid_complete m3 \<and> p = encode_complete m3) \<and>
   (decode_ack p = Some m4 \<longleftrightarrow> p = encode_ack m4)"
  using hello.dec_iff [of p m1] chunk.dec_iff [of p m2] complete.dec_iff [of p m3]
    ack.dec_iff [of p m4]
  by blast

text \<open>
  C22. The ERROR codec is exact for messages shorter than 65536 bytes, and an ERROR payload encoded
  from a longer message never decodes: its 16-bit length field has wrapped around.
\<close>

theorem error_codec:
  "(decode_error p = Some m \<longleftrightarrow> valid_error m \<and> p = encode_error m) \<and>
   (2 ^ 16 \<le> length (message m) \<longrightarrow> decode_error (encode_error m) = None)"
proof (intro conjI impI)
  show "decode_error p = Some m \<longleftrightarrow> valid_error m \<and> p = encode_error m" by (rule err.dec_iff)
  assume long: "2 ^ 16 \<le> length (message m)"
  show "decode_error (encode_error m) = None"
  proof (rule ccontr)
    assume "decode_error (encode_error m) \<noteq> None"
    then obtain m' where m': "valid_error m'" "encode_error m = encode_error m'"
      using err.dec_iff by blast
    then have "length (encode_error m) = length (encode_error m')" by simp
    then have "length (message m) = length (message m')" by (simp add: codec_simps)
    with m'(1) long show False by (simp add: valid_error_def)
  qed
qed

theorem error_codec_witness:
  "decode_error (encode_error \<lparr>code = InvalidPath, message = replicate 65536 (CHR ''x'')\<rparr>) = None"
  using error_codec [of "[]" "\<lparr>code = InvalidPath, message = replicate 65536 (CHR ''x'')\<rparr>"]
  by simp

lemma length_concat_const: "\<forall>x\<in>set xs. length x = n \<Longrightarrow> length (concat xs) = length xs * n"
  by (induction xs) simp_all

text \<open>
  \<^verbatim>\<open>decode_manifest\<close> sizes its hash vector from the received chunk count before it looks at the
  rest of the payload: there is a payload of 50 bytes that is rejected, but only after a vector of
  \<open>(2 ^ 32 - 1) * 32\<close> bytes (almost 128 GiB) was requested. The cap on the payload length does not
  bound this allocation.
\<close>

theorem manifest_resize_unbounded:
  "\<exists>p. length p = 50 \<and> decode_manifest_resize p = Some ((2 ^ 32 - 1) * 32) \<and>
       decode_manifest p = None"
proof -
  let ?m = "\<lparr>file_size = 0, chunk_size = 0, chunk_count = 0xFFFFFFFF, root_hash = kZeroHash, path = [],
     chunk_hashes = []\<rparr>"
  let ?p = "encode_manifest ?m"
  have len: "length ?p = 50" by (simp add: codec_simps kZeroHash_def)
  have resize: "decode_manifest_resize ?p = Some ((2 ^ 32 - 1) * 32)"
    by (simp add: decode_manifest_resize_def codec_simps take_alt wf_advance kZeroHash_def
        kHashSize_def)
  have "decode_manifest ?p = None"
  proof (rule ccontr)
    assume "decode_manifest ?p \<noteq> None"
    then obtain m where m: "valid_manifest m" "?p = encode_manifest m"
      using manifest.dec_iff by blast
    have "take 16 ?p = write_be_u64 0 @ write_be_u32 0 @ write_be_u32 0xFFFFFFFF"
      by (simp add: codec_simps)
    moreover have "take 16 (encode_manifest m) =
        write_be_u64 (file_size m) @ write_be_u32 (chunk_size m) @ write_be_u32 (chunk_count m)"
      by (simp add: codec_simps)
    ultimately have "write_be_u32 (chunk_count m) = write_be_u32 0xFFFFFFFF"
      using m(2) by (simp add: append_eq_append_conv)
    then have "chunk_count m = 0xFFFFFFFF" by (metis read_write_be(2))
    then have "length (concat (chunk_hashes m)) = (2 ^ 32 - 1) * 32"
      using m(1) length_concat_const [of "chunk_hashes m" kHashSize]
      by (simp add: valid_manifest_def kHashSize_def)
    then have "50 < length (encode_manifest m)" by (simp add: codec_simps)
    with m(2) len show False by simp
  qed
  with len resize show ?thesis by blast
qed

end
