(* ===== verification/Ftx_Tls.thy ===== *)
theory Ftx_Tls
  imports Ftx_Prelude
begin

text \<open>
  \<^verbatim>\<open>include/ftx/transport/tls.hpp\<close> and \<^verbatim>\<open>src/lib/transport/tls.cpp\<close>: the configuration of a TLS
  context. The context itself belongs to asio and OpenSSL; the model records the calls the code
  makes on it. Loading a certificate, key or trust file can throw: whether it does is an argument.
\<close>

record TlsConfig =
  cert_path :: string
  key_path :: string
  ca_path :: string
  verify_peer :: bool
  sni_host :: string

datatype tls_method = tlsv13_server | tlsv13_client

datatype tls_option =
  default_workarounds | no_sslv2 | no_sslv3 | no_tlsv1 | no_tlsv1_1 | no_tlsv1_2 | no_tlsv1_3 | single_dh_use

datatype verify_flag = verify_peer_flag | verify_fail_if_no_peer_cert

record ssl_context =
  ctx_method :: tls_method
  ctx_options :: "tls_option list"
  ctx_certificate :: "string option"
  ctx_private_key :: "string option"
  ctx_verify_file :: "string option"
  ctx_verify_mode :: "verify_flag list"
  ctx_host_name :: "string option"

definition new_ssl_context :: "tls_method \<Rightarrow> ssl_context" where
  "new_ssl_context m =
     \<lparr>ctx_method = m, ctx_options = [], ctx_certificate = None, ctx_private_key = None,
      ctx_verify_file = None, ctx_verify_mode = [], ctx_host_name = None\<rparr>"

record tls_files =
  can_load_certificate :: "string \<Rightarrow> bool"
  can_load_key :: "string \<Rightarrow> bool"
  can_load_verify :: "string \<Rightarrow> bool"

datatype tls_exception = LoadFailed string

definition apply_common :: "tls_files \<Rightarrow> ssl_context \<Rightarrow> TlsConfig \<Rightarrow> tls_exception + ssl_context" where
  "apply_common fl ctx cfg =
     (let ctx = ctx\<lparr>ctx_options := [default_workarounds, no_sslv2, no_sslv3, no_tlsv1, no_tlsv1_1,
                                     no_tlsv1_2, single_dh_use]\<rparr>
      in if cert_path cfg \<noteq> '''' \<and> \<not> can_load_certificate fl (cert_path cfg)
         then Inl (LoadFailed (cert_path cfg))
         else let ctx = (if cert_path cfg \<noteq> '''' then ctx\<lparr>ctx_certificate := Some (cert_path cfg)\<rparr> else ctx)
              in if key_path cfg \<noteq> '''' \<and> \<not> can_load_key fl (key_path cfg)
                 then Inl (LoadFailed (key_path cfg))
                 else let ctx = (if key_path cfg \<noteq> '''' then ctx\<lparr>ctx_private_key := Some (key_path cfg)\<rparr> else ctx)
                      in if ca_path cfg \<noteq> '''' \<and> \<not> can_load_verify fl (ca_path cfg)
                         then Inl (LoadFailed (ca_path cfg))
                         else Inr (if ca_path cfg \<noteq> '''' then ctx\<lparr>ctx_verify_file := Some (ca_path cfg)\<rparr>
                                   else ctx))"

definition make_server_tls_context :: "tls_files \<Rightarrow> TlsConfig \<Rightarrow> tls_exception + ssl_context" where
  "make_server_tls_context fl cfg =
     (case apply_common fl (new_ssl_context tlsv13_server) cfg of
        Inl e \<Rightarrow> Inl e
      | Inr ctx \<Rightarrow>
          if verify_peer cfg
          then Inr (ctx\<lparr>ctx_verify_mode := [verify_peer_flag, verify_fail_if_no_peer_cert]\<rparr>)
          else Inr (ctx\<lparr>ctx_verify_mode := []\<rparr>))"

definition make_client_tls_context :: "tls_files \<Rightarrow> TlsConfig \<Rightarrow> tls_exception + ssl_context" where
  "make_client_tls_context fl cfg =
     (case apply_common fl (new_ssl_context tlsv13_client) cfg of
        Inl e \<Rightarrow> Inl e
      | Inr ctx \<Rightarrow>
          if verify_peer cfg
          then let ctx = ctx\<lparr>ctx_verify_mode := [verify_peer_flag]\<rparr>
               in Inr (if sni_host cfg \<noteq> '''' then ctx\<lparr>ctx_host_name := Some (sni_host cfg)\<rparr> else ctx)
          else Inr (ctx\<lparr>ctx_verify_mode := []\<rparr>))"

text \<open>The context an endpoint gets when every file loads.\<close>

lemma apply_common_Inr:
  assumes "apply_common fl ctx cfg = Inr ctx'"
  shows "ctx_method ctx' = ctx_method ctx" "ctx_verify_mode ctx' = ctx_verify_mode ctx"
    "ctx_host_name ctx' = ctx_host_name ctx"
    "{no_sslv2, no_sslv3, no_tlsv1, no_tlsv1_1, no_tlsv1_2} \<subseteq> set (ctx_options ctx')"
    "no_tlsv1_3 \<notin> set (ctx_options ctx')"
    "ca_path cfg \<noteq> '''' \<Longrightarrow> ctx_verify_file ctx' = Some (ca_path cfg)"
  using assms by (auto simp: apply_common_def Let_def split: if_splits)


definition tls13_only :: "ssl_context \<Rightarrow> bool" where
  "tls13_only ctx \<longleftrightarrow>
     ctx_method ctx \<in> {tlsv13_server, tlsv13_client} \<and>
     {no_sslv2, no_sslv3, no_tlsv1, no_tlsv1_1, no_tlsv1_2} \<subseteq> set (ctx_options ctx) \<and>
     no_tlsv1_3 \<notin> set (ctx_options ctx)"

lemma server_context_Inr:
  assumes "make_server_tls_context fl cfg = Inr ctx"
  shows "tls13_only ctx"
    "set (ctx_verify_mode ctx) = (if verify_peer cfg then {verify_peer_flag, verify_fail_if_no_peer_cert} else {})"
    "ca_path cfg \<noteq> '''' \<Longrightarrow> ctx_verify_file ctx = Some (ca_path cfg)"
proof -
  obtain c where "apply_common fl (new_ssl_context tlsv13_server) cfg = Inr c"
    using assms by (auto simp: make_server_tls_context_def split: sum.splits)
  with assms apply_common_Inr [OF this] show "tls13_only ctx"
    "set (ctx_verify_mode ctx) = (if verify_peer cfg then {verify_peer_flag, verify_fail_if_no_peer_cert} else {})"
    "ca_path cfg \<noteq> '''' \<Longrightarrow> ctx_verify_file ctx = Some (ca_path cfg)"
    by (auto simp: make_server_tls_context_def tls13_only_def new_ssl_context_def split: if_splits)
qed

lemma client_context_Inr:
  assumes "make_client_tls_context fl cfg = Inr ctx"
  shows "tls13_only ctx" "set (ctx_verify_mode ctx) = (if verify_peer cfg then {verify_peer_flag} else {})"
    "ca_path cfg \<noteq> '''' \<Longrightarrow> ctx_verify_file ctx = Some (ca_path cfg)"
    "ctx_host_name ctx = (if verify_peer cfg \<and> sni_host cfg \<noteq> '''' then Some (sni_host cfg) else None)"
proof -
  obtain c where "apply_common fl (new_ssl_context tlsv13_client) cfg = Inr c"
    using assms by (auto simp: make_client_tls_context_def split: sum.splits)
  with assms apply_common_Inr [OF this] show "tls13_only ctx"
    "set (ctx_verify_mode ctx) = (if verify_peer cfg then {verify_peer_flag} else {})"
    "ca_path cfg \<noteq> '''' \<Longrightarrow> ctx_verify_file ctx = Some (ca_path cfg)"
    "ctx_host_name ctx = (if verify_peer cfg \<and> sni_host cfg \<noteq> '''' then Some (sni_host cfg) else None)"
    by (auto simp: make_client_tls_context_def tls13_only_def new_ssl_context_def Let_def split: if_splits)
qed

end
