(* ===== verification/Ftx_Connection.thy ===== *)
theory Ftx_Connection
  imports Ftx_Decoder Ftx_Messages Ftx_Tls
begin

text \<open>
  \<^verbatim>\<open>include/ftx/transport/connection.hpp\<close> and \<^verbatim>\<open>src/lib/transport/connection.cpp\<close>: frames over a
  plain or TLS stream. The streams are asio's: a parameter, a record of the calls the code makes on
  a stream state \<open>'s\<close>. An error code is an optional message. A read returns its error code and the
  bytes it has put into the caller's zero-initialised buffer.
\<close>

record 's stream_ops =
  st_write :: "'s \<Rightarrow> bytes \<Rightarrow> string option \<times> 's"
  st_read :: "'s \<Rightarrow> nat \<Rightarrow> (string option \<times> bytes) \<times> 's"
  st_tls_wrap :: "'s \<Rightarrow> ssl_context \<Rightarrow> 's"
  st_set_sni :: "'s \<Rightarrow> string \<Rightarrow> 's"
  st_client_handshake :: "'s \<Rightarrow> string option \<times> 's"
  st_server_handshake :: "'s \<Rightarrow> string option \<times> 's"
  st_tls_shutdown :: "'s \<Rightarrow> 's"
  st_is_open :: "'s \<Rightarrow> bool"
  st_shutdown_both :: "'s \<Rightarrow> 's"
  st_close :: "'s \<Rightarrow> 's"

datatype stream_kind = PlainStream | TlsStream

record 's Connection =
  cn_kind :: stream_kind
  cn_stream :: 's
  cn_last_error :: string

definition Connection_plain :: "'s \<Rightarrow> 's Connection" where
  "Connection_plain socket = \<lparr>cn_kind = PlainStream, cn_stream = socket, cn_last_error = ''''\<rparr>"

definition Connection_tls :: "'s stream_ops \<Rightarrow> 's \<Rightarrow> ssl_context \<Rightarrow> 's Connection" where
  "Connection_tls ops socket ctx =
     \<lparr>cn_kind = TlsStream, cn_stream = st_tls_wrap ops socket ctx, cn_last_error = ''''\<rparr>"

definition shutdown_and_close :: "'s stream_ops \<Rightarrow> stream_kind \<Rightarrow> 's \<Rightarrow> 's" where
  "shutdown_and_close ops kind s =
     (let s = (if kind = TlsStream then st_tls_shutdown ops s else s)
      in if st_is_open ops s then st_close ops (st_shutdown_both ops s) else s)"

definition tls_client_handshake ::
    "'s stream_ops \<Rightarrow> 's Connection \<Rightarrow> string \<Rightarrow> bool \<times> 's Connection" where
  "tls_client_handshake ops c sni =
     (if cn_kind c \<noteq> TlsStream then (True, c)
      else let s = (if sni \<noteq> '''' then st_set_sni ops (cn_stream c) sni else cn_stream c);
               (ec, s) = st_client_handshake ops s;
               c = c\<lparr>cn_stream := s\<rparr>
           in case ec of
                Some m \<Rightarrow> (False, c\<lparr>cn_last_error := ''tls client handshake: '' @ m\<rparr>)
              | None \<Rightarrow> (True, c))"

definition tls_server_handshake :: "'s stream_ops \<Rightarrow> 's Connection \<Rightarrow> bool \<times> 's Connection" where
  "tls_server_handshake ops c =
     (if cn_kind c \<noteq> TlsStream then (True, c)
      else let (ec, s) = st_server_handshake ops (cn_stream c);
               c = c\<lparr>cn_stream := s\<rparr>
           in case ec of
                Some m \<Rightarrow> (False, c\<lparr>cn_last_error := ''tls server handshake: '' @ m\<rparr>)
              | None \<Rightarrow> (True, c))"

definition send_frame ::
    "'s stream_ops \<Rightarrow> 's Connection \<Rightarrow> FrameType \<Rightarrow> bytes \<Rightarrow> bool \<times> 's Connection" where
  "send_frame ops c t pl =
     (if length pl > kDefaultMaxPayload then
        (False, c\<lparr>cn_last_error := ''send_frame: payload exceeds maximum''\<rparr>)
      else let hdr = \<lparr>payload_len = word_of_nat (length pl), ftype = t\<rparr>;
               (ec, s) = st_write ops (cn_stream c) (encode_to hdr @ pl);
               c = c\<lparr>cn_stream := s\<rparr>
           in case ec of
                Some m \<Rightarrow> (False, c\<lparr>cn_last_error := ''send_frame: '' @ m\<rparr>)
              | None \<Rightarrow> (True, c))"

fun recv_error :: "DecodeError \<Rightarrow> string" where
  "recv_error BadCrc = ''recv_frame: header CRC mismatch''"
| "recv_error UnknownType = ''recv_frame: unknown frame type''"
| "recv_error PayloadTooLargeErr = ''recv_frame: payload too large''"

definition recv_frame :: "'s stream_ops \<Rightarrow> 's Connection \<Rightarrow> nat \<Rightarrow> Frame option \<times> 's Connection" where
  "recv_frame ops c max_payload =
     (let ((ec, d), s) = st_read ops (cn_stream c) kHeaderSize;
          c = c\<lparr>cn_stream := s\<rparr>
      in case ec of
           Some m \<Rightarrow> (None, c\<lparr>cn_last_error := ''recv_frame header: '' @ m\<rparr>)
         | None \<Rightarrow>
             (case decode_from (fill_buffer kHeaderSize d) max_payload of
                Inl reason \<Rightarrow> (None, c\<lparr>cn_last_error := recv_error reason\<rparr>)
              | Inr hdr \<Rightarrow>
                  if payload_len hdr > 0 then
                    let n = unat (payload_len hdr);
                        ((ec, d), s) = st_read ops (cn_stream c) n;
                        c = c\<lparr>cn_stream := s\<rparr>
                    in case ec of
                         Some m \<Rightarrow> (None, c\<lparr>cn_last_error := ''recv_frame payload: '' @ m\<rparr>)
                       | None \<Rightarrow> (Some \<lparr>header = hdr, payload = fill_buffer n d\<rparr>, c)
                  else (Some \<lparr>header = hdr, payload = []\<rparr>, c)))"

definition Connection_close :: "'s stream_ops \<Rightarrow> 's Connection \<Rightarrow> 's Connection" where
  "Connection_close ops c = c\<lparr>cn_stream := shutdown_and_close ops (cn_kind c) (cn_stream c)\<rparr>"

definition Connection_is_open :: "'s stream_ops \<Rightarrow> 's Connection \<Rightarrow> bool" where
  "Connection_is_open ops c = st_is_open ops (cn_stream c)"

definition is_tls :: "'s Connection \<Rightarrow> bool" where
  "is_tls c \<longleftrightarrow> cn_kind c = TlsStream"

subsection \<open>The connection as a channel of frames\<close>

text \<open>
  What the endpoints rely on whatever the peer and the network do: a frame that is delivered has a
  payload of the length its header declares, within the limit, and nothing above the limit is sent.
  The bound on a received manifest follows.
\<close>

locale frame_channel =
  fixes send :: "'c \<Rightarrow> FrameType \<Rightarrow> bytes \<Rightarrow> bool \<times> 'c"
    and recv :: "'c \<Rightarrow> Frame option \<times> 'c"
    and limit :: nat
  assumes send_bound: "send c t p = (True, c') \<Longrightarrow> length p \<le> limit"
    and recv_frame_wf: "recv c = (Some f, c') \<Longrightarrow> wf_frame limit f"
begin

lemma recv_payload: "recv c = (Some f, c') \<Longrightarrow> length (payload f) \<le> limit"
  by (auto dest!: recv_frame_wf simp: wf_frame_def)

lemma recv_manifest:
  assumes "recv c = (Some f, c')" "decode_manifest (payload f) = Some m"
  shows "valid_manifest m" "32 * unat (chunk_count m) + 48 \<le> limit"
proof -
  have m: "valid_manifest m" "payload f = encode_manifest m"
    using assms(2) manifest.dec_iff by simp_all
  then have "length (concat (chunk_hashes m)) = 32 * unat (chunk_count m)"
    using length_concat_const [of "chunk_hashes m" kHashSize]
    by (simp add: valid_manifest_def kHashSize_def)
  then have "32 * unat (chunk_count m) + 48 \<le> length (payload f)"
    using m by (simp add: codec_simps valid_manifest_def kHashSize_def)
  then show "valid_manifest m" "32 * unat (chunk_count m) + 48 \<le> limit"
    using m(1) recv_payload [OF assms(1)] by simp_all
qed

end

lemma recv_frame_result_wf:
  assumes "recv_frame ops c m = (Some f, c')"
  shows "wf_frame m f"
proof -
  obtain ec d s where 1: "st_read ops (cn_stream c) kHeaderSize = ((ec, d), s)" by (metis surj_pair)
  obtain hdr where hdr: "ec = None" "decode_from (fill_buffer kHeaderSize d) m = Inr hdr"
    using assms 1 by (auto simp: recv_frame_def Let_def split: option.splits sum.splits)
  obtain ec2 d2 s2 where 2: "st_read ops s (unat (payload_len hdr)) = ((ec2, d2), s2)" by (metis surj_pair)
  have "unat (payload_len hdr) \<le> m"
    using encode_decode_header(2) [OF hdr(2)] by simp
  then show ?thesis using assms 1 2 hdr
    by (auto simp: recv_frame_def Let_def wf_frame_def word_gt_0 not_less split: option.splits if_splits)
qed

interpretation channel: frame_channel "send_frame ops" "\<lambda>c. recv_frame ops c kDefaultMaxPayload"
  kDefaultMaxPayload for ops
proof unfold_locales
  fix c c' :: "'a Connection" and t p
  assume "send_frame ops c t p = (True, c')"
  then show "length p \<le> kDefaultMaxPayload" by (auto simp: send_frame_def split: if_splits)
qed (rule recv_frame_result_wf)


subsection \<open>Reliable streams\<close>

text \<open>
  What a stream socket or a TLS stream over it documents while the connection lasts, with the bytes
  that are still to arrive before the peer closes and the bytes written so far as observations of
  the stream: a read of available bytes returns them, a read beyond the end of the stream reports an
  error, a write of all buffers appends them, and shutting down the TLS layer or the
  socket and closing it send no further data.
\<close>

definition reliable :: "'s stream_ops \<Rightarrow> ('s \<Rightarrow> bytes) \<Rightarrow> ('s \<Rightarrow> bytes) \<Rightarrow> bool" where
  "reliable ops inb outb \<longleftrightarrow>
     (\<forall>s n. n \<le> length (inb s) \<longrightarrow>
        (\<exists>s'. st_read ops s n = ((None, take n (inb s)), s') \<and> inb s' = drop n (inb s) \<and> outb s' = outb s)) \<and>
     (\<forall>s n. n > length (inb s) \<longrightarrow> (\<exists>m d s'. st_read ops s n = ((Some m, d), s') \<and> outb s' = outb s)) \<and>
     (\<forall>s d. \<exists>s'. st_write ops s d = (None, s') \<and> inb s' = inb s \<and> outb s' = outb s @ d) \<and>
     (\<forall>s. outb (st_shutdown_both ops s) = outb s \<and> outb (st_close ops s) = outb s \<and>
        outb (st_tls_shutdown ops s) = outb s)"

text \<open>An instance: a pair of byte sequences, incoming and outgoing.\<close>

definition pipe_ops :: "(bytes \<times> bytes) stream_ops" where
  "pipe_ops =
     \<lparr>st_write = (\<lambda>s d. (None, (fst s, snd s @ d))),
      st_read = (\<lambda>s n. if n \<le> length (fst s) then ((None, take n (fst s)), (drop n (fst s), snd s))
                       else ((Some ''End of file'', fst s), ([], snd s))),
      st_tls_wrap = (\<lambda>s ctx. s), st_set_sni = (\<lambda>s h. s), st_client_handshake = (\<lambda>s. (None, s)),
      st_server_handshake = (\<lambda>s. (None, s)), st_tls_shutdown = (\<lambda>s. s), st_is_open = (\<lambda>s. True),
      st_shutdown_both = (\<lambda>s. s), st_close = (\<lambda>s. s)\<rparr>"

lemma reliable_pipe: "reliable pipe_ops fst snd"
  by (auto simp: reliable_def pipe_ops_def)

definition frame_of :: "FrameType \<Rightarrow> bytes \<Rightarrow> Frame" where
  "frame_of t p = \<lparr>header = \<lparr>payload_len = word_of_nat (length p), ftype = t\<rparr>, payload = p\<rparr>"

lemma wf_frame_of: "length p \<le> m \<Longrightarrow> m < 2 ^ 32 \<Longrightarrow> wf_frame m (frame_of t p)"
  by (simp add: wf_frame_def frame_of_def)

lemma frame_of_simps [simp]: "ftype (header (frame_of t p)) = t" "payload (frame_of t p) = p"
  by (simp_all add: frame_of_def)

lemma send_frame_reliable:
  assumes "reliable ops inb outb" "length p \<le> kDefaultMaxPayload"
  obtains c' where "send_frame ops c t p = (True, c')" "inb (cn_stream c') = inb (cn_stream c)"
    "outb (cn_stream c') = outb (cn_stream c) @ wire (frame_of t p)" "cn_kind c' = cn_kind c"
proof -
  let ?d = "encode_to \<lparr>payload_len = word_of_nat (length p), ftype = t\<rparr> @ p"
  obtain s' where "st_write ops (cn_stream c) ?d = (None, s')" "inb s' = inb (cn_stream c)"
    "outb s' = outb (cn_stream c) @ ?d" using assms(1) unfolding reliable_def by blast
  then show thesis
    using assms(2) by (intro that [of "c\<lparr>cn_stream := s'\<rparr>"])
      (simp_all add: send_frame_def wire_def frame_of_def not_less)
qed

text \<open>Receiving a frame is one step of cutting the incoming bytes into frames.\<close>

lemma recv_frame_reliable:
  assumes "reliable ops inb outb" "inb (cn_stream c) = wire f @ bs" "wf_frame m f"
  obtains c' where "recv_frame ops c m = (Some f, c')" "inb (cn_stream c') = bs"
    "outb (cn_stream c') = outb (cn_stream c)" "cn_kind c' = cn_kind c"
proof -
  let ?s = "cn_stream c" and ?n = "unat (payload_len (header f))"
  have len: "kHeaderSize \<le> length (inb ?s)" "take kHeaderSize (inb ?s) = encode_to (header f)"
    "drop kHeaderSize (inb ?s) = payload f @ bs"
    by (simp_all add: assms(2) wire_def)
  obtain s1 where 1: "st_read ops ?s kHeaderSize = ((None, encode_to (header f)), s1)"
    "inb s1 = payload f @ bs" "outb s1 = outb ?s"
    using assms(1) len unfolding reliable_def by metis
  have n: "length (payload f) = ?n" "?n \<le> m" using assms(3) by (simp_all add: wf_frame_def)
  have dec: "decode_from (fill_buffer kHeaderSize (encode_to (header f))) m = Inr (header f)"
    using n by (simp add: decode_encode_header)
  show thesis
  proof (cases "payload_len (header f) > 0")
    case True
    have "?n \<le> length (inb s1)" "take ?n (inb s1) = payload f" "drop ?n (inb s1) = bs"
      using 1(2) n(1) by simp_all
    then obtain s2 where 2: "st_read ops s1 ?n = ((None, payload f), s2)" "inb s2 = bs" "outb s2 = outb s1"
      using assms(1) unfolding reliable_def by metis
    show thesis
      by (rule that [of "c\<lparr>cn_stream := s2\<rparr>"])
        (use True 1 2 dec n in \<open>simp_all add: recv_frame_def Let_def\<close>)
  next
    case False
    then have "payload f = []" using n(1) by (simp add: word_gt_0)
    then show thesis
      using False 1 dec by (intro that [of "c\<lparr>cn_stream := s1\<rparr>"])
        (simp_all add: recv_frame_def Let_def)
  qed
qed

lemma st_read_outb:
  assumes "reliable ops inb outb"
  shows "outb (snd (st_read ops s n)) = outb s"
proof (cases "n \<le> length (inb s)")
  case True
  then obtain s' where "st_read ops s n = ((None, take n (inb s)), s')" "outb s' = outb s"
    using assms unfolding reliable_def by blast
  then show ?thesis by simp
next
  case False
  then obtain m d s' where "st_read ops s n = ((Some m, d), s')" "outb s' = outb s"
    using assms unfolding reliable_def by (meson not_less)
  then show ?thesis by simp
qed

lemma recv_frame_outb:
  assumes "reliable ops inb outb"
  shows "outb (cn_stream (snd (recv_frame ops c m))) = outb (cn_stream c)"
proof -
  obtain ec d s where 1: "st_read ops (cn_stream c) kHeaderSize = ((ec, d), s)" by (metis surj_pair)
  have o1: "outb s = outb (cn_stream c)" using st_read_outb [OF assms, of "cn_stream c" kHeaderSize] 1 by simp
  have o2: "outb s' = outb s" if "st_read ops s n = ((ec', d'), s')" for n ec' d' s'
    using st_read_outb [OF assms, of s n] that by simp
  show ?thesis
    using 1 o1 o2 by (auto simp: recv_frame_def Let_def split: option.splits sum.splits prod.splits)
qed

lemma close_reliable:
  "reliable ops inb outb \<Longrightarrow> outb (cn_stream (Connection_close ops c)) = outb (cn_stream c)"
  by (simp add: reliable_def Connection_close_def shutdown_and_close_def Let_def)

lemma recv_frame_reliable_None:
  assumes "reliable ops inb outb" "fst (parse_stream m (inb (cn_stream c))) = []"
  shows "fst (recv_frame ops c m) = None"
proof (cases "length (inb (cn_stream c)) < kHeaderSize")
  case True
  then obtain e d s where "st_read ops (cn_stream c) kHeaderSize = ((Some e, d), s)"
    using assms(1) unfolding reliable_def by blast
  then show ?thesis by (simp add: recv_frame_def)
next
  case False
  let ?b = "inb (cn_stream c)"
  have len: "length (take kHeaderSize ?b) = kHeaderSize" using False by simp
  obtain s where 1: "st_read ops (cn_stream c) kHeaderSize = ((None, take kHeaderSize ?b), s)"
    "inb s = drop kHeaderSize ?b"
    using assms(1) False unfolding reliable_def by (metis not_less)
  show ?thesis
  proof (cases "decode_from (take kHeaderSize ?b) m")
    case (Inl e)
    then show ?thesis using 1 len by (simp add: recv_frame_def)
  next
    case (Inr h)
    have short: "length (inb s) < unat (payload_len h)"
      using assms(2) False Inr 1(2)
      by (subst (asm) parse_stream.simps) (auto simp: Let_def split: if_splits)
    then obtain e d s2 where "st_read ops s (unat (payload_len h)) = ((Some e, d), s2)"
      using assms(1) unfolding reliable_def by blast
    moreover have "payload_len h > 0" using short by (simp add: word_less_nat_alt)
    ultimately show ?thesis using 1 Inr len by (simp add: recv_frame_def Let_def)
  qed
qed

text \<open>Receiving frames until the first failure.\<close>

fun recv_frames :: "nat \<Rightarrow> 's stream_ops \<Rightarrow> 's Connection \<Rightarrow> nat \<Rightarrow> Frame list" where
  "recv_frames 0 ops c m = []"
| "recv_frames (Suc n) ops c m =
     (case recv_frame ops c m of
        (None, _) \<Rightarrow> []
      | (Some f, c) \<Rightarrow> f # recv_frames n ops c m)"

lemma parse_stream_Cons:
  assumes "fst (parse_stream m bs) = f # fs"
  obtains rest where "bs = wire f @ rest" "wf_frame m f" "fst (parse_stream m rest) = fs"
proof -
  obtain h where h: "\<not> length bs < kHeaderSize" "decode_from (take kHeaderSize bs) m = Inr h"
    "\<not> length (drop kHeaderSize bs) < unat (payload_len h)"
    using assms by (subst (asm) parse_stream.simps) (auto simp: Let_def split: if_splits sum.splits)
  let ?n = "unat (payload_len h)" and ?r = "drop kHeaderSize bs"
  have f: "f = \<lparr>header = h, payload = take ?n ?r\<rparr>" "fst (parse_stream m (drop ?n ?r)) = fs"
    using assms h by (subst (asm) parse_stream.simps, simp add: Let_def)+
  have enc: "encode_to h = take kHeaderSize bs" "?n \<le> m"
    using encode_decode_header [OF h(2)] h(1) by simp_all
  have "bs = take kHeaderSize bs @ take ?n ?r @ drop ?n ?r"
    by (simp only: append_take_drop_id)
  then have "bs = wire f @ drop ?n ?r" using f(1) enc(1) by (simp add: wire_def del: drop_drop)
  moreover have "wf_frame m f" using f(1) h(3) enc(2) by (simp add: wf_frame_def)
  ultimately show thesis using that f(2) by blast
qed


lemma wire_nonempty: "wire f \<noteq> []"
  by (metis append_is_Nil_conv kHeaderSize_def length_encode_to list.size(3) wire_def zero_neq_numeral)

subsection \<open>Properties\<close>

text \<open>
  C19. Over a reliable stream the blocking receiver of the transport and the streaming decoder read
  the same frames: receiving frames until the first failure yields exactly the complete frames the
  incoming bytes parse into, the specification the decoder refines.
\<close>

theorem recv_frames_parse:
  assumes "reliable ops inb outb" "length (inb (cn_stream c)) \<le> n"
  shows "recv_frames n ops c m = fst (parse_stream m (inb (cn_stream c)))"
  using assms(2)
proof (induction n arbitrary: c)
  case 0
  then show ?case by (simp add: parse_stream_Nil)
next
  case (Suc n)
  show ?case
  proof (cases "fst (parse_stream m (inb (cn_stream c)))")
    case Nil
    then show ?thesis
      using recv_frame_reliable_None [OF assms(1) Nil] by (auto split: prod.splits option.splits)
  next
    case (Cons f fs)
    then obtain rest where r: "inb (cn_stream c) = wire f @ rest" "wf_frame m f"
      "fst (parse_stream m rest) = fs" by (rule parse_stream_Cons)
    obtain c' where c': "recv_frame ops c m = (Some f, c')" "inb (cn_stream c') = rest"
      by (rule recv_frame_reliable [OF assms(1) r(1,2)])
    have "length (inb (cn_stream c')) \<le> n"
      using Suc.prems r(1) c'(2) wire_nonempty [of f] by (cases "wire f") auto
    then show ?thesis using c' r(3) Cons Suc.IH by simp
  qed
qed

theorem recv_frames_parse_witness:
  "recv_frames 20 pipe_ops (Connection_plain (wire (frame_of Ack [0, 0, 0, 7]), [])) 100 =
     [frame_of Ack [0, 0, 0, 7]]"
proof -
  let ?f = "frame_of Ack [0, 0, 0, 7]"
  have wf: "wf_frame 100 ?f" by (rule wf_frame_of) simp_all
  have len: "length (wire ?f) \<le> 20" by (simp add: wire_def kHeaderSize_def)
  have "fst (parse_stream 100 (wire ?f)) = [?f]"
    using parse_stream_wire [OF wf, of "[]"] by (simp add: parse_stream_Nil)
  then show ?thesis
    using recv_frames_parse [OF reliable_pipe, of "Connection_plain (wire ?f, [])" 20 100] len
    by (simp add: Connection_plain_def)
qed

end
