(* ===== verification/Ftx_Filesystem.thy ===== *)
theory Ftx_Filesystem
  imports Ftx_Prelude
begin

text \<open>
  The part of \<^verbatim>\<open>std::filesystem\<close> and \<^verbatim>\<open>std::fstream\<close> the code uses, over a world that maps
  path strings to nodes. Any call into the operating system may fail for reasons outside the
  program (permissions, a full disk, an I/O error): the world carries a schedule of such
  faults, one entry consumed per call, and a call meets no fault once the schedule is empty.
  Theorems about all worlds therefore hold under every pattern of failures. Failures that depend
  on the directory structure (opening a file in a missing directory, removing a directory that
  is not empty) are such faults too.

  An output stream buffers: written bytes reach the file when the stream seeks, is flushed or
  is closed. This is the least that the C++ library guarantees; an implementation may write
  earlier. A failing write leaves a prefix of the buffered bytes in the file.
\<close>

datatype node = Regular bytes | Directory

datatype fault = NoFault | Fault nat

record world =
  files :: "string \<Rightarrow> node option"
  faults :: "fault list"

definition next_fault :: "world \<Rightarrow> fault \<times> world" where
  "next_fault w = (case faults w of [] \<Rightarrow> (NoFault, w) | f # fs \<Rightarrow> (f, w\<lparr>faults := fs\<rparr>))"

fun faulty :: "fault \<Rightarrow> bool" where
  "faulty NoFault = False"
| "faulty (Fault n) = True"

text \<open>The content behind an open stream.\<close>

definition content :: "world \<Rightarrow> string \<Rightarrow> bytes" where
  "content w p = (case files w p of Some (Regular c) \<Rightarrow> c | _ \<Rightarrow> [])"

text \<open>
  Writing \<open>d\<close> at offset \<open>n\<close>: a gap beyond the end is zero-filled, writing nothing changes
  nothing.
\<close>

definition overwrite :: "bytes \<Rightarrow> nat \<Rightarrow> bytes \<Rightarrow> bytes" where
  "overwrite c n d =
     (if d = [] then c
      else take n c @ replicate (n - length c) 0 @ d @ drop (n + length d) c)"

subsection \<open>Queries and directory operations\<close>

text \<open>
  The overloads with an \<^verbatim>\<open>error_code\<close>: the second component of a result tells whether the
  error code is set.
\<close>

definition fs_exists :: "world \<Rightarrow> string \<Rightarrow> (bool \<times> bool) \<times> world" where
  "fs_exists w p =
     (let (f, w) = next_fault w
      in if faulty f then ((False, True), w) else ((files w p \<noteq> None, False), w))"

definition fs_is_regular_file :: "world \<Rightarrow> string \<Rightarrow> bool \<times> world" where
  "fs_is_regular_file w p =
     (let (f, w) = next_fault w
      in (\<not> faulty f \<and> (case files w p of Some (Regular _) \<Rightarrow> True | _ \<Rightarrow> False), w))"

definition fs_file_size :: "world \<Rightarrow> string \<Rightarrow> (u64 \<times> bool) \<times> world" where
  "fs_file_size w p =
     (let (f, w) = next_fault w
      in case files w p of
           Some (Regular c) \<Rightarrow>
             if faulty f then ((- 1, True), w) else ((word_of_nat (length c), False), w)
         | _ \<Rightarrow> ((- 1, True), w))"

definition fs_rename :: "world \<Rightarrow> string \<Rightarrow> string \<Rightarrow> bool \<times> world" where
  "fs_rename w p q =
     (let (f, w) = next_fault w
      in if faulty f then (False, w)
         else case (files w p, files w q) of
             (None, _) \<Rightarrow> (False, w)
           | (Some (Regular _), Some Directory) \<Rightarrow> (False, w)
           | (Some Directory, Some (Regular _)) \<Rightarrow> (False, w)
           | (Some n, _) \<Rightarrow> (True, w\<lparr>files := (files w)(p := None, q := Some n)\<rparr>))"

definition fs_remove :: "world \<Rightarrow> string \<Rightarrow> bool \<times> world" where
  "fs_remove w p =
     (let (f, w) = next_fault w
      in if faulty f then (False, w) else (True, w\<lparr>files := (files w)(p := None)\<rparr>))"

text \<open>
  \<^verbatim>\<open>create_directories(p)\<close> makes every missing directory on the way to \<open>p\<close>: the prefixes of
  \<open>p\<close> that end before a slash, then \<open>p\<close> itself; a regular file in the way stops it.
\<close>

definition dir_prefixes :: "string \<Rightarrow> string list" where
  "dir_prefixes p =
     map (\<lambda>i. take i p) (filter (\<lambda>i. 0 < i \<and> p ! i = CHR ''/'') [0..<length p]) @
     (if p = '''' then [] else [p])"

fun make_dirs :: "world \<Rightarrow> string list \<Rightarrow> world" where
  "make_dirs w [] = w"
| "make_dirs w (p # ps) =
     (case files w p of
        Some Directory \<Rightarrow> make_dirs w ps
      | Some (Regular _) \<Rightarrow> w
      | None \<Rightarrow>
          (let (f, w) = next_fault w
           in if faulty f then w
              else make_dirs (w\<lparr>files := (files w)(p \<mapsto> Directory)\<rparr>) ps))"

definition fs_create_directories :: "world \<Rightarrow> string \<Rightarrow> world" where
  "fs_create_directories w p = make_dirs w (dir_prefixes p)"

subsection \<open>Output streams\<close>

record ofstream =
  os_open :: bool
  os_path :: string
  os_base :: nat
  os_pending :: bytes
  os_good :: bool

definition closed_ofstream :: ofstream where
  "closed_ofstream = \<lparr>os_open = False, os_path = '''', os_base = 0, os_pending = [], os_good = True\<rparr>"

definition opened_ofstream :: "string \<Rightarrow> ofstream" where
  "opened_ofstream p = \<lparr>os_open = True, os_path = p, os_base = 0, os_pending = [], os_good = True\<rparr>"

text \<open>\<^verbatim>\<open>out | binary | trunc\<close>: creates or empties the file. Without \<^verbatim>\<open>trunc\<close> the file must exist.\<close>

definition os_open_trunc :: "world \<Rightarrow> string \<Rightarrow> ofstream \<times> world" where
  "os_open_trunc w p =
     (let (f, w) = next_fault w
      in if faulty f \<or> files w p = Some Directory then (closed_ofstream, w)
         else (opened_ofstream p, w\<lparr>files := (files w)(p \<mapsto> Regular [])\<rparr>))"

definition os_open_inout :: "world \<Rightarrow> string \<Rightarrow> ofstream \<times> world" where
  "os_open_inout w p =
     (let (f, w) = next_fault w
      in if faulty f then (closed_ofstream, w)
         else case files w p of
             Some (Regular _) \<Rightarrow> (opened_ofstream p, w)
           | _ \<Rightarrow> (closed_ofstream, w))"

text \<open>The buffered bytes, or on a fault a prefix of them, reach the file.\<close>

definition os_drain :: "world \<Rightarrow> ofstream \<Rightarrow> bytes \<Rightarrow> world" where
  "os_drain w s d =
     (if d = [] then w
      else w\<lparr>files := (files w)(os_path s \<mapsto> Regular (overwrite (content w (os_path s)) (os_base s) d))\<rparr>)"

definition os_sync :: "world \<Rightarrow> ofstream \<Rightarrow> ofstream \<times> world" where
  "os_sync w s =
     (if \<not> os_good s then (s, w)
      else let (f, w) = next_fault w
           in case f of
                NoFault \<Rightarrow>
                  (s\<lparr>os_base := os_base s + length (os_pending s), os_pending := []\<rparr>,
                   os_drain w s (os_pending s))
              | Fault n \<Rightarrow> (s\<lparr>os_pending := [], os_good := False\<rparr>, os_drain w s (take n (os_pending s))))"

text \<open>
  \<^verbatim>\<open>seekp\<close> takes a signed offset; the code casts its 64-bit unsigned offset to it, so an offset
  of \<open>2 ^ 63\<close> or more is negative and fails.
\<close>

definition os_seekp :: "world \<Rightarrow> ofstream \<Rightarrow> u64 \<Rightarrow> ofstream \<times> world" where
  "os_seekp w s off =
     (let (s, w) = os_sync w s
      in if \<not> os_good s then (s, w)
         else if sint off < 0 then (s\<lparr>os_good := False\<rparr>, w)
         else (s\<lparr>os_base := unat off\<rparr>, w))"

definition os_write :: "world \<Rightarrow> ofstream \<Rightarrow> bytes \<Rightarrow> ofstream \<times> world" where
  "os_write w s d =
     (if \<not> os_good s then (s, w)
      else let (f, w) = next_fault w
           in case f of
                NoFault \<Rightarrow> (s\<lparr>os_pending := os_pending s @ d\<rparr>, w)
              | Fault n \<Rightarrow>
                  (s\<lparr>os_pending := [], os_good := False\<rparr>, os_drain w s (take n (os_pending s @ d))))"

definition os_close :: "world \<Rightarrow> ofstream \<Rightarrow> ofstream \<times> world" where
  "os_close w s = (let (s, w) = os_sync w s in (s\<lparr>os_open := False\<rparr>, w))"

subsection \<open>Input streams\<close>

record ifstream =
  is_open :: bool
  is_path :: string
  is_pos :: nat
  is_good :: bool
  is_eof :: bool

definition closed_ifstream :: ifstream where
  "closed_ifstream = \<lparr>is_open = False, is_path = '''', is_pos = 0, is_good = True, is_eof = False\<rparr>"

definition is_open_read :: "world \<Rightarrow> string \<Rightarrow> ifstream \<times> world" where
  "is_open_read w p =
     (let (f, w) = next_fault w
      in if faulty f then (closed_ifstream, w)
         else case files w p of
             Some (Regular _) \<Rightarrow>
               (\<lparr>is_open = True, is_path = p, is_pos = 0, is_good = True, is_eof = False\<rparr>, w)
           | _ \<Rightarrow> (closed_ifstream, w))"

text \<open>
  \<^verbatim>\<open>read(buf, n)\<close>; the first component of the result is what \<^verbatim>\<open>gcount\<close> counts. Fewer than \<open>n\<close>
  bytes set the end-of-file state, or the bad state after an I/O error.
\<close>

definition is_read :: "world \<Rightarrow> ifstream \<Rightarrow> nat \<Rightarrow> bytes \<times> ifstream \<times> world" where
  "is_read w s n =
     (if \<not> is_good s then ([], s, w)
      else let (f, w) = next_fault w;
               got = take n (drop (is_pos s) (content w (is_path s)))
           in case f of
                NoFault \<Rightarrow>
                  (got, s\<lparr>is_pos := is_pos s + length got, is_good := (length got = n),
                          is_eof := (length got \<noteq> n)\<rparr>, w)
              | Fault k \<Rightarrow>
                  (take k got, s\<lparr>is_pos := is_pos s + length (take k got), is_good := False\<rparr>, w))"

definition is_seekg :: "ifstream \<Rightarrow> u64 \<Rightarrow> ifstream" where
  "is_seekg s off =
     (if \<not> is_good s then s
      else if sint off < 0 then s\<lparr>is_good := False\<rparr>
      else s\<lparr>is_pos := unat off\<rparr>)"

definition is_clear :: "ifstream \<Rightarrow> ifstream" where
  "is_clear s = s\<lparr>is_good := True, is_eof := False\<rparr>"

subsection \<open>Frames: what an operation can change\<close>

definition unchanged_outside :: "string set \<Rightarrow> world \<Rightarrow> world \<Rightarrow> bool" where
  "unchanged_outside P w w' \<longleftrightarrow> (\<forall>p. p \<notin> P \<longrightarrow> files w' p = files w p)"

lemma unchanged_refl [simp, intro]: "unchanged_outside P w w"
  by (simp add: unchanged_outside_def)

lemma unchanged_trans [trans]:
  "unchanged_outside P w w' \<Longrightarrow> unchanged_outside P w' w'' \<Longrightarrow> unchanged_outside P w w''"
  by (simp add: unchanged_outside_def)

lemma unchanged_mono: "unchanged_outside P w w' \<Longrightarrow> P \<subseteq> Q \<Longrightarrow> unchanged_outside Q w w'"
  by (auto simp: unchanged_outside_def)

lemma unchangedD: "unchanged_outside P w w' \<Longrightarrow> p \<notin> P \<Longrightarrow> files w' p = files w p"
  by (simp add: unchanged_outside_def)

lemma next_fault_files [simp]: "next_fault w = (f, w') \<Longrightarrow> files w' = files w"
  by (auto simp: next_fault_def split: list.splits)

lemma next_fault_content: "next_fault w = (f, w') \<Longrightarrow> content w' = content w"
  by (simp add: content_def fun_eq_iff)

lemma queries_unchanged [frame_rules]:
  "files (snd (fs_exists w p)) = files w"
  "files (snd (fs_is_regular_file w p)) = files w"
  "files (snd (fs_file_size w p)) = files w"
  "files (snd (is_open_read w p)) = files w"
  "files (snd (os_open_inout w p)) = files w"
  "files (snd (snd (is_read w s n))) = files w"
  by (auto simp: fs_exists_def fs_is_regular_file_def fs_file_size_def is_open_read_def
      os_open_inout_def is_read_def Let_def
      split: prod.splits node.splits option.splits fault.splits)

lemma fs_rename_unchanged [frame_rules]: "unchanged_outside {p, q} w (snd (fs_rename w p q))"
  by (auto simp: fs_rename_def unchanged_outside_def
      split: prod.splits node.splits option.splits)

lemma fs_rename_result:
  assumes "fs_rename w p q = (ok, w')"
  obtains (renamed) n where "ok" "files w p = Some n" "files w' = (files w)(p := None, q := Some n)"
  | (failed) "\<not> ok" "files w' = files w"
  using assms
  by (auto simp: fs_rename_def split: prod.splits node.splits option.splits if_splits)

lemma fs_remove_result:
  "fs_remove w p = (ok, w') \<Longrightarrow> files w' = files w \<or> files w' = (files w)(p := None)"
  by (auto simp: fs_remove_def split: prod.splits if_splits)

lemma fs_remove_unchanged [frame_rules]: "unchanged_outside {p} w (snd (fs_remove w p))"
  by (auto simp: fs_remove_def unchanged_outside_def split: prod.splits)

lemma os_open_trunc_unchanged [frame_rules]: "unchanged_outside {p} w (snd (os_open_trunc w p))"
  by (auto simp: os_open_trunc_def unchanged_outside_def split: prod.splits)

lemma os_drain_unchanged [frame_rules]: "unchanged_outside {os_path s} w (os_drain w s d)"
  by (simp add: os_drain_def unchanged_outside_def)

lemma os_drain_cong:
  "files w = files w' \<Longrightarrow> os_path s = os_path s' \<Longrightarrow> os_base s = os_base s' \<Longrightarrow>
   files (os_drain w s d) = files (os_drain w' s' d)"
  by (simp add: os_drain_def content_def)

lemma os_sync_unchanged [frame_rules]: "unchanged_outside {os_path s} w (snd (os_sync w s))"
  using os_drain_unchanged
  by (auto simp: os_sync_def unchanged_outside_def split: prod.splits fault.splits)

lemma os_sync_same:
  "os_sync w s = (s', w') \<Longrightarrow> os_path s' = os_path s \<and> os_open s' = os_open s"
  by (auto simp: os_sync_def split: prod.splits fault.splits if_splits)

lemma os_sync_result:
  assumes "os_sync w s = (s', w')"
  shows "os_good s \<Longrightarrow> os_pending s' = [] \<and>
      (\<exists>n. files w' = files (os_drain w s (take n (os_pending s))))"
    and "\<not> os_good s \<Longrightarrow> s' = s \<and> w' = w"
    and "os_pending s = [] \<Longrightarrow> files w' = files w"
proof -
  obtain e w0 where e: "next_fault w = (e, w0)" by fastforce
  have cong: "files (os_drain w0 s d) = files (os_drain w s d)" for d
    using e by (intro os_drain_cong) simp_all
  show "os_pending s' = [] \<and> (\<exists>n. files w' = files (os_drain w s (take n (os_pending s))))"
    if "os_good s"
  proof (cases e)
    case NoFault
    then show ?thesis using assms that e cong
      by (auto simp: os_sync_def intro!: exI [of _ "length (os_pending s)"])
  next
    case (Fault n)
    then show ?thesis using assms that e cong by (auto simp: os_sync_def)
  qed
  show "s' = s \<and> w' = w" if "\<not> os_good s" using assms that by (simp add: os_sync_def)
  show "files w' = files w" if "os_pending s = []"
    using assms that e
    by (auto simp: os_sync_def os_drain_def split: fault.splits if_splits)
qed

lemma os_seekp_unchanged [frame_rules]: "unchanged_outside {os_path s} w (snd (os_seekp w s off))"
  using os_sync_unchanged [of s w] by (auto simp: os_seekp_def split: prod.splits)

lemma os_seekp_same [simp]:
  "os_path (fst (os_seekp w s off)) = os_path s" "os_open (fst (os_seekp w s off)) = os_open s"
  by (auto simp: os_seekp_def dest: os_sync_same split: prod.splits)

lemma os_write_unchanged [frame_rules]: "unchanged_outside {os_path s} w (snd (os_write w s d))"
  using os_drain_unchanged
  by (auto simp: os_write_def unchanged_outside_def split: prod.splits fault.splits)

lemma os_write_same [simp]:
  "os_path (fst (os_write w s d)) = os_path s" "os_open (fst (os_write w s d)) = os_open s"
  by (auto simp: os_write_def split: prod.splits fault.splits)

lemma os_close_unchanged [frame_rules]: "unchanged_outside {os_path s} w (snd (os_close w s))"
  using os_sync_unchanged [of s w] by (auto simp: os_close_def split: prod.splits)

text \<open>
  Creating directories only adds directories, on the way to the target; no file is ever
  changed or removed.
\<close>

lemma make_dirs_files:
  "files (make_dirs w ps) p = files w p \<or>
   p \<in> set ps \<and> files w p = None \<and> files (make_dirs w ps) p = Some Directory"
proof (induction w ps rule: make_dirs.induct)
  case (2 w q ps)
  show ?case
  proof (cases "files w q")
    case None
    obtain f w1 where f: "next_fault w = (f, w1)" by fastforce
    show ?thesis
    proof (cases "faulty f")
      case True
      then show ?thesis using None f by simp
    next
      case False
      let ?w = "w1\<lparr>files := (files w1)(q \<mapsto> Directory)\<rparr>"
      have "files (make_dirs ?w ps) p = files ?w p \<or>
          p \<in> set ps \<and> files ?w p = None \<and> files (make_dirs ?w ps) p = Some Directory"
        using "2.IH"(1) [OF None f [symmetric] refl False] .
      then show ?thesis using None f False by (auto split: if_splits)
    qed
  next
    case (Some n)
    then show ?thesis using "2.IH"(2) by (cases n) auto
  qed
qed simp

lemma create_directories_files:
  "files (fs_create_directories w d) p = files w p \<or>
   p \<in> set (dir_prefixes d) \<and> files w p = None \<and>
   files (fs_create_directories w d) p = Some Directory"
  by (simp add: fs_create_directories_def make_dirs_files)

lemma create_directories_keeps: "files w p = Some n \<Longrightarrow> files (fs_create_directories w d) p = Some n"
  using create_directories_files [of w d p] by auto

subsection \<open>Worlds without faults\<close>

lemma next_fault_quiet [fs_simps]: "faults w = [] \<Longrightarrow> next_fault w = (NoFault, w)"
  by (simp add: next_fault_def)

lemma make_dirs_quiet [fs_simps]: "faults w = [] \<Longrightarrow> faults (make_dirs w ps) = []"
  by (induction w ps rule: make_dirs.induct)
    (auto simp: fs_simps split: option.splits node.splits)

lemma create_directories_quiet [fs_simps]:
  "faults w = [] \<Longrightarrow> faults (fs_create_directories w d) = []"
  by (simp add: fs_create_directories_def fs_simps)

subsection \<open>Overwriting\<close>

lemma overwrite_Nil [simp]: "overwrite c n [] = c"
  by (simp add: overwrite_def)

lemma length_overwrite: "d \<noteq> [] \<Longrightarrow> length (overwrite c n d) = max (length c) (n + length d)"
  by (simp add: overwrite_def)

lemma length_overwrite_inside: "n + length d \<le> length c \<Longrightarrow> length (overwrite c n d) = length c"
  by (simp add: overwrite_def)

lemma overwrite_inside:
  "n + length d \<le> length c \<Longrightarrow> overwrite c n d = take n c @ d @ drop (n + length d) c"
  by (simp add: overwrite_def)

lemma nth_overwrite_inside:
  assumes "n + length d \<le> length c" "i < length c"
  shows "overwrite c n d ! i = (if n \<le> i \<and> i < n + length d then d ! (i - n) else c ! i)"
  using assms by (auto simp: overwrite_inside nth_append min_def)

lemma overwrite_append:
  "n + length a \<le> length c \<Longrightarrow> overwrite c n (a @ b) = overwrite (overwrite c n a) (n + length a) b"
  by (auto simp: overwrite_def min_def ac_simps simp flip: length_greater_0_conv)


subsection \<open>Frames with new directories\<close>

text \<open>Outside \<open>P\<close> nothing changes except that directories of \<open>D\<close> may appear.\<close>

definition only_dirs :: "string set \<Rightarrow> string set \<Rightarrow> world \<Rightarrow> world \<Rightarrow> bool" where
  "only_dirs D P w w' \<longleftrightarrow>
     (\<forall>p. p \<notin> P \<longrightarrow> files w' p = files w p \<or>
        p \<in> D \<and> files w p = None \<and> files w' p = Some Directory)"

lemma only_dirs_unchanged: "unchanged_outside P w w' \<Longrightarrow> P \<subseteq> Q \<Longrightarrow> only_dirs D Q w w'"
  by (auto simp: unchanged_outside_def only_dirs_def)

lemma only_dirs_refl [simp, intro]: "only_dirs D P w w"
  by (simp add: only_dirs_def)

lemma only_dirs_trans [trans]: "only_dirs D P w w' \<Longrightarrow> only_dirs D P w' w'' \<Longrightarrow> only_dirs D P w w''"
  unfolding only_dirs_def by (metis option.distinct(1))

lemma only_dirs_then_unchanged:
  "only_dirs D P w w' \<Longrightarrow> unchanged_outside Q w' w'' \<Longrightarrow> Q \<subseteq> P \<Longrightarrow> only_dirs D P w w''"
  by (rule only_dirs_trans [OF _ only_dirs_unchanged])

lemma create_directories_only_dirs [frame_rules]:
  "only_dirs (set (dir_prefixes d)) P w (fs_create_directories w d)"
  using create_directories_files [of w d] by (auto simp: only_dirs_def)

lemma os_close_same:
  "os_close w s = (s', w') \<Longrightarrow> os_path s' = os_path s \<and> \<not> os_open s'"
  by (auto simp: os_close_def dest: os_sync_same split: prod.splits)


lemma dir_prefixes_length: "p \<in> set (dir_prefixes d) \<Longrightarrow> length p \<le> length d"
  by (auto simp: dir_prefixes_def split: if_splits)

lemma create_directories_not_dir:
  assumes "files w p \<noteq> Some Directory" "p \<notin> set (dir_prefixes d)"
  shows "files (fs_create_directories w d) p = files w p"
  using create_directories_files [of w d p] assms by auto

end
