(* ===== verification/Ftx_File_Source.thy ===== *)
theory Ftx_File_Source
  imports Ftx_Filesystem
begin

text \<open>
  \<^verbatim>\<open>include/ftx/io/file_source.hpp\<close> and \<^verbatim>\<open>src/lib/io/file_source.cpp\<close>: the sender's random-access
  view of its file. \<^verbatim>\<open>read_at\<close> fills the caller's buffer; its result here is the bytes it counts in
  \<^verbatim>\<open>*out_n\<close>, or \<^const>\<open>None\<close> where it returns false.
\<close>

record FileSource =
  sr_path :: string
  sr_stream :: ifstream
  sr_size :: u64
  sr_last_error :: string

definition new_FileSource :: "string \<Rightarrow> FileSource" where
  "new_FileSource p =
     \<lparr>sr_path = p, sr_stream = closed_ifstream, sr_size = 0, sr_last_error = ''''\<rparr>"

definition FileSource_open :: "string \<Rightarrow> world \<Rightarrow> FileSource \<Rightarrow> bool \<times> FileSource \<times> world" where
  "FileSource_open ec_message w s =
     (let ((found, ec), w) = fs_exists w (sr_path s)
      in if \<not> found then
           (False, s\<lparr>sr_last_error := ''file does not exist: '' @ sr_path s\<rparr>, w)
         else let (regular, w) = fs_is_regular_file w (sr_path s)
              in if \<not> regular then
                   (False, s\<lparr>sr_last_error := ''not a regular file: '' @ sr_path s\<rparr>, w)
                 else let ((file_size, ec), w) = fs_file_size w (sr_path s)
                      in if ec then
                           (False, s\<lparr>sr_last_error := ''failed to stat: '' @ ec_message\<rparr>, w)
                         else let (st, w) = is_open_read w (sr_path s);
                                  s = s\<lparr>sr_size := file_size, sr_stream := st\<rparr>
                              in if \<not> is_open st then
                                   (False, s\<lparr>sr_last_error := ''open() failed for '' @ sr_path s\<rparr>, w)
                                 else (True, s, w))"

definition FileSource_read_at ::
    "world \<Rightarrow> FileSource \<Rightarrow> u64 \<Rightarrow> nat \<Rightarrow> bytes option \<times> FileSource \<times> world" where
  "FileSource_read_at w s off buf_size =
     (if \<not> is_open (sr_stream s) then
        (None, s\<lparr>sr_last_error := ''read_at on closed source''\<rparr>, w)
      else if off > sr_size s then
        (None, s\<lparr>sr_last_error := ''read_at: offset beyond EOF''\<rparr>, w)
      else let available = unat (sr_size s - off);
               to_read = (if available < buf_size then available else buf_size);
               st = is_seekg (is_clear (sr_stream s)) off
           in if \<not> is_good st then
                (None, s\<lparr>sr_stream := st, sr_last_error := ''seekg failed''\<rparr>, w)
              else let (got, st, w) = is_read w st to_read;
                       s = s\<lparr>sr_stream := st\<rparr>
                   in if length got \<noteq> to_read \<and> \<not> is_eof st then
                        (None, s\<lparr>sr_last_error := ''read short of expected bytes''\<rparr>, w)
                      else (Some got, s, w))"

definition FileSource_close :: "FileSource \<Rightarrow> FileSource" where
  "FileSource_close s =
     (if is_open (sr_stream s) then s\<lparr>sr_stream := (sr_stream s)\<lparr>is_open := False\<rparr>\<rparr> else s)"

subsection \<open>Reading\<close>

definition source_ready :: "FileSource \<Rightarrow> bool" where
  "source_ready s \<longleftrightarrow> is_open (sr_stream s) \<and> is_path (sr_stream s) = sr_path s"

lemma source_open_ok:
  assumes "FileSource_open ec_message w s = (True, s', w')"
  shows "source_ready s'" "sr_path s' = sr_path s" "files w' = files w"
    "\<exists>c. files w (sr_path s) = Some (Regular c) \<and> sr_size s' = word_of_nat (length c)"
proof -
  obtain found ec w1 where 1: "fs_exists w (sr_path s) = ((found, ec), w1)" by (metis surj_pair)
  obtain reg w2 where 2: "fs_is_regular_file w1 (sr_path s) = (reg, w2)" by fastforce
  obtain sz ec2 w3 where 3: "fs_file_size w2 (sr_path s) = ((sz, ec2), w3)" by (metis surj_pair)
  obtain st w4 where 4: "is_open_read w3 (sr_path s) = (st, w4)" by fastforce
  have r: "\<not> ec2" "is_open st" "s' = s\<lparr>sr_size := sz, sr_stream := st\<rparr>" "w' = w4"
    using assms 1 2 3 4 by (auto simp: FileSource_open_def Let_def split: if_splits)
  have fs: "files w1 = files w" "files w2 = files w" "files w3 = files w" "files w4 = files w"
    using queries_unchanged(1) [of w "sr_path s"] queries_unchanged(2) [of w1 "sr_path s"]
      queries_unchanged(3) [of w2 "sr_path s"] queries_unchanged(4) [of w3 "sr_path s"] 1 2 3 4 by simp_all
  show "source_ready s'" using r 4
    by (auto simp: source_ready_def is_open_read_def closed_ifstream_def
        split: prod.splits if_splits option.splits node.splits)
  show "sr_path s' = sr_path s" "files w' = files w" using r fs by simp_all
  show "\<exists>c. files w (sr_path s) = Some (Regular c) \<and> sr_size s' = word_of_nat (length c)"
    using 3 r fs by (auto simp: fs_file_size_def split: prod.splits if_splits option.splits node.splits)
qed

lemma is_read_exact:
  assumes "is_read w st n = (got, st', w')" "is_good st" "\<not> is_eof st"
    and "length got = n \<or> is_eof st'"
  shows "got = take n (drop (is_pos st) (content w (is_path st)))" "is_path st' = is_path st"
    "is_open st' = is_open st" "files w' = files w"
proof -
  obtain e w0 where e: "next_fault w = (e, w0)" by fastforce
  note c = next_fault_content [OF e] and f = next_fault_files [OF e]
  show "got = take n (drop (is_pos st) (content w (is_path st)))"
    using assms e c by (cases e) (auto simp: is_read_def Let_def)
  show "is_path st' = is_path st" "is_open st' = is_open st" "files w' = files w"
    using assms e f by (cases e; auto simp: is_read_def Let_def)+
qed

lemma read_at_Some:
  assumes "source_ready s" "FileSource_read_at w s off n = (Some d, s', w')"
  shows "d = take (min n (unat (sr_size s) - unat off)) (drop (unat off) (content w (sr_path s)))"
    "source_ready s'" "sr_path s' = sr_path s" "sr_size s' = sr_size s" "files w' = files w"
    "unat off \<le> unat (sr_size s)"
proof -
  let ?st = "is_seekg (is_clear (sr_stream s)) off"
  let ?n = "min n (unat (sr_size s) - unat off)"
  have off: "off \<le> sr_size s"
    using assms by (auto simp: FileSource_read_at_def source_ready_def not_less split: if_splits)
  then have size: "unat (sr_size s - off) = unat (sr_size s) - unat off" "unat off \<le> unat (sr_size s)"
    by (simp_all add: unat_sub word_le_nat_alt)
  have to_read: "(if unat (sr_size s - off) < n then unat (sr_size s - off) else n) = ?n"
    using size by simp
  obtain got st1 w1 where rd: "is_read w ?st ?n = (got, st1, w1)" by (metis surj_pair)
  have r: "is_good ?st" "length got = ?n \<or> is_eof st1" "d = got" "s' = s\<lparr>sr_stream := st1\<rparr>" "w' = w1"
  proof -
    have "is_open (sr_stream s)" "\<not> off > sr_size s" using assms(1) off by (simp_all add: source_ready_def)
    then have "FileSource_read_at w s off n =
        (if \<not> is_good ?st then (None, s\<lparr>sr_stream := ?st, sr_last_error := ''seekg failed''\<rparr>, w)
         else if length got \<noteq> ?n \<and> \<not> is_eof st1
         then (None, s\<lparr>sr_stream := st1, sr_last_error := ''read short of expected bytes''\<rparr>, w1)
         else (Some got, s\<lparr>sr_stream := st1\<rparr>, w1))"
      unfolding FileSource_read_at_def Let_def to_read rd by simp
    then show "is_good ?st" "length got = ?n \<or> is_eof st1" "d = got" "s' = s\<lparr>sr_stream := st1\<rparr>" "w' = w1"
      using assms(2) by (auto split: if_splits)
  qed
  have st: "\<not> is_eof ?st" "is_path ?st = sr_path s" "is_open ?st" "is_pos ?st = unat off"
    using r(1) assms(1) by (auto simp: is_seekg_def is_clear_def source_ready_def split: if_splits)
  note x = is_read_exact [OF rd r(1) st(1) r(2)]
  show "d = take ?n (drop (unat off) (content w (sr_path s)))" using x(1) r(3) st by simp
  show "source_ready s'" "sr_path s' = sr_path s" "sr_size s' = sr_size s" "files w' = files w"
    using x r st by (simp_all add: source_ready_def)
  show "unat off \<le> unat (sr_size s)" by (rule size(2))
qed

lemma read_at_quiet:
  assumes "source_ready s" "faults w = []" "unat off \<le> unat (sr_size s)" "unat off < 2 ^ 63"
  shows "\<exists>d s'. FileSource_read_at w s off n = (Some d, s', w)"
proof -
  have "sint off \<ge> 0" by (rule sint_nonneg [OF assms(4)])
  then show ?thesis
    using assms by (auto simp: FileSource_read_at_def source_ready_def is_seekg_def is_clear_def is_read_def
        fs_simps Let_def word_less_nat_alt not_less)
qed


subsection \<open>A file as chunks\<close>

definition chunk_of :: "bytes \<Rightarrow> nat \<Rightarrow> nat \<Rightarrow> bytes" where
  "chunk_of c n i = take n (drop (i * n) c)"

lemma concat_chunks: "concat (map (chunk_of c n) [0..<k]) = take (k * n) c"
proof (induction k)
  case (Suc k)
  have "take (k * n) c @ chunk_of c n k = take (k * n + n) c" by (simp add: chunk_of_def take_add)
  then show ?case using Suc by (simp add: add.commute)
qed simp

lemma chunk_of_beyond: "length c \<le> i * n \<Longrightarrow> chunk_of c n i = []"
  by (simp add: chunk_of_def)

lemma min_remaining: "take (min n (length c - m)) (drop m c) = take n (drop m c)"
  by (simp add: min_def)

subsection \<open>Properties\<close>

text \<open>
  A source opened on a file delivers that file: under every schedule of faults a read that
  reports success returns exactly the file's bytes in the requested range, cut at the end of the
  file and never short for another reason; and without faults every read at an offset within the
  file succeeds.
\<close>

lemma source_reads_file:
  assumes "FileSource_open ec_message w0 (new_FileSource p) = (True, s, w1)"
    and "files w0 p = Some (Regular c)" "length c < 2 ^ 63" "files w = files w1"
  shows "(\<forall>d s' w'. FileSource_read_at w s off n = (Some d, s', w') \<longrightarrow>
      d = take n (drop (unat off) c) \<and> files w' = files w) \<and>
    (faults w = [] \<and> unat off \<le> length c \<longrightarrow> fst (FileSource_read_at w s off n) \<noteq> None)"
proof -
  have s: "source_ready s" "sr_path s = p" "files w1 = files w0" "sr_size s = word_of_nat (length c)"
    using source_open_ok [OF assms(1)] assms(2) by (auto simp: new_FileSource_def)
  have size: "unat (sr_size s) = length c" using s(4) assms(3) by simp
  have "content w p = c" using assms(2,4) s(3) by (simp add: content_def)
  then have "d = take n (drop (unat off) c) \<and> files w' = files w"
    if "FileSource_read_at w s off n = (Some d, s', w')" for d s' w'
    using read_at_Some [OF s(1) that] size s(2) by (simp add: min_remaining)
  moreover have "fst (FileSource_read_at w s off n) \<noteq> None" if "faults w = []" "unat off \<le> length c"
    using read_at_quiet [OF s(1) that(1), of off n] that(2) assms(3) size by auto
  ultimately show ?thesis by blast
qed

end
