(* ===== verification/Ftx_Blake3.thy ===== *)
theory Ftx_Blake3
  imports Ftx_Prelude
begin

text \<open>
  \<^verbatim>\<open>include/ftx/util/blake3.hpp\<close> and \<^verbatim>\<open>src/lib/util/blake3.cpp\<close>: the one-shot and the
  incremental hash over the BLAKE3 C library. That library is not part of the repository: it is
  a parameter, a record of its three functions over a hasher state \<open>'h\<close>. A digest is an array
  of 32 bytes that \<^verbatim>\<open>blake3_hasher_finalize\<close> writes into.
\<close>

record 'h blake3_lib =
  b3_init :: 'h
  b3_update :: "'h \<Rightarrow> bytes \<Rightarrow> 'h"
  b3_finalize :: "'h \<Rightarrow> nat \<Rightarrow> bytes"

definition kDigestSize :: nat where
  "kDigestSize = 32"

definition blake3 :: "'h blake3_lib \<Rightarrow> bytes \<Rightarrow> bytes" where
  "blake3 lib d =
     (let h = b3_init lib;
          h = (if d \<noteq> [] then b3_update lib h d else h)
      in fill_buffer kDigestSize (b3_finalize lib h kDigestSize))"

definition Blake3Hasher_new :: "'h blake3_lib \<Rightarrow> 'h" where
  "Blake3Hasher_new lib = b3_init lib"

definition Blake3Hasher_update :: "'h blake3_lib \<Rightarrow> 'h \<Rightarrow> bytes \<Rightarrow> 'h" where
  "Blake3Hasher_update lib h d = (if d = [] then h else b3_update lib h d)"

definition Blake3Hasher_finalize :: "'h blake3_lib \<Rightarrow> 'h \<Rightarrow> bytes" where
  "Blake3Hasher_finalize lib h = fill_buffer kDigestSize (b3_finalize lib h kDigestSize)"

definition Blake3Hasher_reset :: "'h blake3_lib \<Rightarrow> 'h \<Rightarrow> 'h" where
  "Blake3Hasher_reset lib h = b3_init lib"

text \<open>
  What the library documents of \<^verbatim>\<open>blake3_hasher_update\<close>: input may be added in any number of
  calls.
\<close>

definition streaming :: "'h blake3_lib \<Rightarrow> bool" where
  "streaming lib \<longleftrightarrow> (\<forall>h a b. b3_update lib (b3_update lib h a) b = b3_update lib h (a @ b))"

text \<open>A library that keeps its input; the digest is the first bytes of it.\<close>

definition recording_lib :: "bytes blake3_lib" where
  "recording_lib = \<lparr>b3_init = [], b3_update = (@), b3_finalize = (\<lambda>h n. take n h)\<rparr>"

lemma streaming_recording [simp]: "streaming recording_lib"
  by (simp add: streaming_def recording_lib_def)

lemma length_blake3 [simp]: "length (blake3 lib d) = 32" "length (Blake3Hasher_finalize lib h) = 32"
  by (simp_all add: blake3_def Blake3Hasher_finalize_def Let_def kDigestSize_def)

lemma update_twice:
  "streaming lib \<Longrightarrow> Blake3Hasher_update lib (Blake3Hasher_update lib h a) b =
     Blake3Hasher_update lib h (a @ b)"
  by (simp add: streaming_def Blake3Hasher_update_def)

lemma update_concat:
  "streaming lib \<Longrightarrow>
   foldl (Blake3Hasher_update lib) h ds = Blake3Hasher_update lib h (concat ds)"
  by (induction ds arbitrary: h) (simp_all add: update_twice, simp add: Blake3Hasher_update_def)

lemma finalize_update_new:
  "Blake3Hasher_finalize lib (Blake3Hasher_update lib (Blake3Hasher_new lib) d) = blake3 lib d"
  by (simp add: Blake3Hasher_finalize_def Blake3Hasher_update_def Blake3Hasher_new_def blake3_def Let_def)

text \<open>
  Hashing a sequence of pieces incrementally, empty ones included, gives the one-shot hash of
  their concatenation, and a reset hasher behaves like a new one.
\<close>

theorem hasher_segments:
  assumes "streaming lib"
  shows "Blake3Hasher_finalize lib (foldl (Blake3Hasher_update lib) (Blake3Hasher_new lib) ds) =
      blake3 lib (concat ds) \<and>
    Blake3Hasher_finalize lib (foldl (Blake3Hasher_update lib) (Blake3Hasher_reset lib h) ds) =
      blake3 lib (concat ds)"
  using update_concat [OF assms] finalize_update_new [of lib]
  by (simp add: Blake3Hasher_reset_def Blake3Hasher_new_def)

theorem hasher_segments_witness:
  "Blake3Hasher_finalize recording_lib
     (foldl (Blake3Hasher_update recording_lib) (Blake3Hasher_new recording_lib) [[1, 2], [], [3]]) =
   blake3 recording_lib [1, 2, 3]"
  using hasher_segments [of recording_lib "[[1, 2], [], [3]]"] by simp

end
