(* ===== verification/Ftx_Client.thy ===== *)
theory Ftx_Client
  imports Ftx_Connection Ftx_File_Source Ftx_Blake3
begin

text \<open>
  \<^verbatim>\<open>include/ftx/transport/client.hpp\<close> and \<^verbatim>\<open>src/lib/transport/client.cpp\<close>: one sending session.
  \<^verbatim>\<open>Client::send\<close> is a sequence of phases over the source file, the connection and the world. A
  phase ends with a value for the next one, or the call ends early: it stores a message in
  \<^verbatim>\<open>last_error_\<close> and returns false, a TLS context throws, or the code divides by zero or indexes out
  of range. Name resolution and connecting belong to asio and are arguments.
\<close>

record ClientOptions =
  opt_chunk_size :: u32
  opt_tls :: "TlsConfig option"

definition default_ClientOptions :: ClientOptions where
  "default_ClientOptions = \<lparr>opt_chunk_size = 1 * 1024 * 1024, opt_tls = None\<rparr>"

record ('s, 'h, 'e) client_env =
  c_ops :: "'s stream_ops"
  c_b3 :: "'h blake3_lib"
  c_ec_message :: string
  c_tls_files :: tls_files
  c_resolve :: "string \<Rightarrow> string \<Rightarrow> string + 'e"
  c_connect :: "'e \<Rightarrow> string + 's"
  c_opts :: ClientOptions

record 's client =
  cs_conn :: "'s Connection"
  cs_source :: FileSource
  cs_world :: world

datatype client_failure = LastError string | Thrown tls_exception | ClientUndefined

type_synonym ('a, 's) client_phase = "(client_failure + 'a) \<times> 's client"

definition client_then ::
    "('a, 's) client_phase \<Rightarrow> ('a \<Rightarrow> 's client \<Rightarrow> ('b, 's) client_phase) \<Rightarrow> ('b, 's) client_phase" where
  "client_then r f = (case r of (Inl e, st) \<Rightarrow> (Inl e, st) | (Inr a, st) \<Rightarrow> f a st)"

definition client_send_frame ::
    "('s, 'h, 'e) client_env \<Rightarrow> string \<Rightarrow> FrameType \<Rightarrow> bytes \<Rightarrow> 's client \<Rightarrow> (unit, 's) client_phase" where
  "client_send_frame env what t p st =
     (let (ok, c) = send_frame (c_ops env) (cs_conn st) t p;
          st = st\<lparr>cs_conn := c\<rparr>
      in if ok then (Inr (), st) else (Inl (LastError (what @ cn_last_error c)), st))"

text \<open>\<^verbatim>\<open>if (!frame || frame->header.type != expected) ...\<close>\<close>

definition client_recv_frame ::
    "('s, 'h, 'e) client_env \<Rightarrow> string \<Rightarrow> FrameType \<Rightarrow> 's client \<Rightarrow> (Frame, 's) client_phase" where
  "client_recv_frame env what t st =
     (let (f, c) = recv_frame (c_ops env) (cs_conn st) kDefaultMaxPayload;
          st = st\<lparr>cs_conn := c\<rparr>
      in case f of
           None \<Rightarrow> (Inl (LastError (what @ cn_last_error c)), st)
         | Some f \<Rightarrow>
             if ftype (header f) \<noteq> t then (Inl (LastError (what @ ''unexpected frame type'')), st)
             else (Inr f, st))"

subsection \<open>Source, resolution, connection\<close>

text \<open>Unsigned 64-bit arithmetic, then a cast to 32 bits; a chunk size of zero divides by zero.\<close>

definition chunk_count_of :: "u64 \<Rightarrow> u32 \<Rightarrow> u32 option" where
  "chunk_count_of fsize csize =
     (if fsize = 0 then Some 0
      else if csize = 0 then None
      else Some (ucast ((fsize + ucast csize - 1) div ucast csize)))"

definition client_connect ::
    "('s, 'h, 'e) client_env \<Rightarrow> string \<Rightarrow> u16 \<Rightarrow> client_failure + 's" where
  "client_connect env host port =
     (case c_resolve env host (dec_string (unat port)) of
        Inl ec \<Rightarrow> Inl (LastError (''resolve: '' @ ec))
      | Inr endpoints \<Rightarrow>
          (case c_connect env endpoints of
             Inl ec \<Rightarrow> Inl (LastError (''connect: '' @ ec))
           | Inr socket \<Rightarrow> Inr socket))"

text \<open>On failure the socket or the connection is destroyed: a bare socket is closed only.\<close>

definition client_secure ::
    "('s, 'h, 'e) client_env \<Rightarrow> string \<Rightarrow> 's \<Rightarrow> (client_failure \<times> 's) + 's Connection" where
  "client_secure env host socket =
     (case opt_tls (c_opts env) of
        None \<Rightarrow> Inr (Connection_plain socket)
      | Some cfg \<Rightarrow>
          (case make_client_tls_context (c_tls_files env) cfg of
             Inl e \<Rightarrow> Inl (Thrown e, st_close (c_ops env) socket)
           | Inr ctx \<Rightarrow>
               (let sni = (if sni_host cfg = '''' then host else sni_host cfg);
                    (ok, c) = tls_client_handshake (c_ops env) (Connection_tls (c_ops env) socket ctx) sni
                in if ok then Inr c
                   else Inl (LastError (''TLS handshake: '' @ cn_last_error c),
                             cn_stream (Connection_close (c_ops env) c)))))"

subsection \<open>The phases of a transfer\<close>

definition client_hello :: "('s, 'h, 'e) client_env \<Rightarrow> 's client \<Rightarrow> (unit, 's) client_phase" where
  "client_hello env st =
     client_then (client_send_frame env ''send HELLO: '' Hello (encode_hello default_hello) st) (\<lambda>_ st.
     client_then (client_recv_frame env ''recv HELLO: '' Hello st) (\<lambda>hello_resp st.
     case decode_hello (payload hello_resp) of
       None \<Rightarrow> (Inl (LastError ''decode HELLO: malformed''), st)
     | Some server_hello \<Rightarrow>
         if protocol_version server_hello \<noteq> kProtocolVersion
         then (Inl (LastError ''protocol version mismatch''), st)
         else (Inr (), st)))"

definition client_read ::
    "('s, 'h, 'e) client_env \<Rightarrow> string \<Rightarrow> u32 \<Rightarrow> 's client \<Rightarrow> (bytes, 's) client_phase" where
  "client_read env what i st =
     (let csize = opt_chunk_size (c_opts env);
          off = (ucast i :: u64) * ucast csize;
          (r, src, w) = FileSource_read_at (cs_world st) (cs_source st) off (unat csize);
          st = st\<lparr>cs_source := src, cs_world := w\<rparr>
      in case r of
           None \<Rightarrow> (Inl (LastError (what @ sr_last_error src)), st)
         | Some d \<Rightarrow> (Inr d, st))"

text \<open>The hash pass: the remaining indices, the root hasher and the hashes computed so far.\<close>

fun client_hash_pass ::
    "('s, 'h, 'e) client_env \<Rightarrow> u32 list \<Rightarrow> 'h \<Rightarrow> Hash list \<Rightarrow> 's client \<Rightarrow> ('h \<times> Hash list, 's) client_phase" where
  "client_hash_pass env [] root_hasher hs st = (Inr (root_hasher, hs), st)"
| "client_hash_pass env (i # is) root_hasher hs st =
     client_then (client_read env ''hash pass: '' i st) (\<lambda>chunk_view st.
     client_hash_pass env is (Blake3Hasher_update (c_b3 env) root_hasher chunk_view)
       (hs[unat i := blake3 (c_b3 env) chunk_view]) st)"

definition client_manifest ::
    "('s, 'h, 'e) client_env \<Rightarrow> u32 \<Rightarrow> string \<Rightarrow> 's client \<Rightarrow> (ManifestMsg, 's) client_phase" where
  "client_manifest env count remote_dest st =
     client_then (client_hash_pass env (upto_u32 count) (Blake3Hasher_new (c_b3 env))
                    (replicate (unat count) kZeroHash) st) (\<lambda>(root_hasher, hs) st.
     let manifest = \<lparr>file_size = sr_size (cs_source st), chunk_size = opt_chunk_size (c_opts env),
                     chunk_count = count, root_hash = Blake3Hasher_finalize (c_b3 env) root_hasher,
                     path = remote_dest, chunk_hashes = hs\<rparr>
     in client_then (client_send_frame env ''send MANIFEST: '' Manifest (encode_manifest manifest) st) (\<lambda>_ st.
        (Inr manifest, st)))"

definition client_request :: "('s, 'h, 'e) client_env \<Rightarrow> 's client \<Rightarrow> (u32 list, 's) client_phase" where
  "client_request env st =
     client_then (client_recv_frame env ''recv REQ_CHUNKS: '' ReqChunks st) (\<lambda>req_frame st.
     case decode_req_chunks (payload req_frame) of
       None \<Rightarrow> (Inl (LastError ''decode REQ_CHUNKS: malformed''), st)
     | Some req \<Rightarrow> (Inr (indices req), st))"

fun client_chunks ::
    "('s, 'h, 'e) client_env \<Rightarrow> ManifestMsg \<Rightarrow> u32 list \<Rightarrow> 's client \<Rightarrow> (unit, 's) client_phase" where
  "client_chunks env m [] st = (Inr (), st)"
| "client_chunks env m (i # is) st =
     (if i \<ge> chunk_count m
      then (Inl (LastError (''REQ_CHUNKS: index '' @ dec_string (unat i) @ '' out of range'')), st)
      else client_then (client_read env ''read source: '' i st) (\<lambda>d st.
           case vec_at (chunk_hashes m) (unat i) of
             None \<Rightarrow> (Inl ClientUndefined, st)
           | Some h \<Rightarrow>
               client_then (client_send_frame env (''send CHUNK['' @ dec_string (unat i) @ '']: '') Chunk
                  (encode_chunk \<lparr>index = i, hash = h, data = d\<rparr>) st) (\<lambda>_ st.
               client_chunks env m is st)))"

definition client_complete :: "('s, 'h, 'e) client_env \<Rightarrow> ManifestMsg \<Rightarrow> 's client \<Rightarrow> (unit, 's) client_phase" where
  "client_complete env m st =
     client_send_frame env ''send COMPLETE: '' Complete
       (encode_complete \<lparr>final_root_hash = root_hash m, status = 0\<rparr>) st"

definition client_ack :: "('s, 'h, 'e) client_env \<Rightarrow> 's client \<Rightarrow> (unit, 's) client_phase" where
  "client_ack env st =
     (let (f, c) = recv_frame (c_ops env) (cs_conn st) kDefaultMaxPayload;
          st = st\<lparr>cs_conn := c\<rparr>
      in case f of
           None \<Rightarrow> (Inl (LastError (''recv ACK: '' @ cn_last_error c)), st)
         | Some f \<Rightarrow>
             if ftype (header f) = Error then
               (case decode_error (payload f) of
                  Some err \<Rightarrow> (Inl (LastError (''server ERROR: '' @ message err)), st)
                | None \<Rightarrow> (Inl (LastError ''server ERROR (malformed)''), st))
             else if ftype (header f) \<noteq> Ack then (Inl (LastError ''expected ACK, got something else''), st)
             else (Inr (), st))"

definition client_transfer ::
    "('s, 'h, 'e) client_env \<Rightarrow> u32 \<Rightarrow> string \<Rightarrow> 's client \<Rightarrow> (unit, 's) client_phase" where
  "client_transfer env count remote_dest st =
     client_then (client_hello env st) (\<lambda>_ st.
     client_then (client_manifest env count remote_dest st) (\<lambda>m st.
     client_then (client_request env st) (\<lambda>is st.
     client_then (client_chunks env m is st) (\<lambda>_ st.
     client_then (client_complete env m st) (\<lambda>_ st.
     client_ack env st)))))"

text \<open>
  \<^verbatim>\<open>Client::send\<close>. The result is true as \<^term>\<open>Inr ()\<close>, the stream the connection left behind where one
  was made, and the world. Returning destroys the connection, which closes the stream.
\<close>

definition Client_send ::
    "('s, 'h, 'e) client_env \<Rightarrow> string \<Rightarrow> u16 \<Rightarrow> string \<Rightarrow> string \<Rightarrow> world \<Rightarrow>
     (client_failure + unit) \<times> 's option \<times> world" where
  "Client_send env host port source_path remote_dest w =
     (let (ok, src, w) = FileSource_open (c_ec_message env) w (new_FileSource source_path)
      in if \<not> ok then (Inl (LastError (''open source: '' @ sr_last_error src)), None, w)
         else case chunk_count_of (sr_size src) (opt_chunk_size (c_opts env)) of
             None \<Rightarrow> (Inl ClientUndefined, None, w)
           | Some count \<Rightarrow>
               (case client_connect env host port of
                  Inl e \<Rightarrow> (Inl e, None, w)
                | Inr socket \<Rightarrow>
                    (case client_secure env host socket of
                       Inl (e, s) \<Rightarrow> (Inl e, Some s, w)
                     | Inr c \<Rightarrow>
                         (let (r, st) = client_transfer env count remote_dest
                                          \<lparr>cs_conn = c, cs_source = src, cs_world = w\<rparr>
                          in (r, Some (cn_stream (Connection_close (c_ops env) (cs_conn st))), cs_world st)))))"

end
