(* ===== verification/Ftx_Resume_State.thy ===== *)
theory Ftx_Resume_State
  imports Ftx_Filesystem "HOL-Library.Monad_Syntax"
begin

text \<open>
  \<^verbatim>\<open>include/ftx/io/resume_state.hpp\<close> and \<^verbatim>\<open>src/lib/io/resume_state.cpp\<close>: the bitmap of received
  chunks and its file. An out-of-range element access of a vector is undefined behaviour in
  C++; the operations that index the bitmap return an option, with \<^const>\<open>None\<close> for it. The
  32-bit arithmetic of the bitmap size is kept, with its wrap-around.
\<close>

record ResumeState =
  rs_manifest_id :: bytes
  rs_chunk_count :: u32
  rs_bitmap :: "u8 list"

definition kMagic :: bytes where
  "kMagic = as_bytes ''FTXS''"

definition kVersion :: u8 where
  "kVersion = 1"

text \<open>\<^verbatim>\<open>static_cast<size_t>((chunk_count + 7u) / 8u)\<close>, in 32-bit arithmetic.\<close>

definition bitmap_size :: "u32 \<Rightarrow> nat" where
  "bitmap_size cc = unat ((cc + 7) div 8)"

definition new_ResumeState :: "bytes \<Rightarrow> u32 \<Rightarrow> ResumeState" where
  "new_ResumeState i cc =
     \<lparr>rs_manifest_id = i, rs_chunk_count = cc, rs_bitmap = replicate (bitmap_size cc) 0\<rparr>"

definition is_set :: "ResumeState \<Rightarrow> u32 \<Rightarrow> bool option" where
  "is_set s i =
     (if i \<ge> rs_chunk_count s then Some False
      else do {
        b \<leftarrow> vec_at (rs_bitmap s) (unat (i div 8));
        Some ((ucast b :: u32) AND push_bit (unat (i mod 8)) 1 \<noteq> 0)
      })"

definition mark_received :: "ResumeState \<Rightarrow> u32 \<Rightarrow> ResumeState option" where
  "mark_received s i =
     (if i \<ge> rs_chunk_count s then Some s
      else do {
        b \<leftarrow> vec_at (rs_bitmap s) (unat (i div 8));
        Some (s\<lparr>rs_bitmap := (rs_bitmap s)[unat (i div 8) :=
                 ucast ((ucast b :: u32) OR push_bit (unat (i mod 8)) 1)]\<rparr>)
      })"

fun missing_from :: "ResumeState \<Rightarrow> u32 list \<Rightarrow> u32 list option" where
  "missing_from s [] = Some []"
| "missing_from s (i # is) = do {
     b \<leftarrow> is_set s i;
     out \<leftarrow> missing_from s is;
     Some (if b then out else i # out)
   }"

definition missing :: "ResumeState \<Rightarrow> u32 list option" where
  "missing s = missing_from s (upto_u32 (rs_chunk_count s))"

fun complete_from :: "ResumeState \<Rightarrow> u32 list \<Rightarrow> bool option" where
  "complete_from s [] = Some True"
| "complete_from s (i # is) = do {
     b \<leftarrow> is_set s i;
     if \<not> b then Some False else complete_from s is
   }"

definition complete :: "ResumeState \<Rightarrow> bool option" where
  "complete s = complete_from s (upto_u32 (rs_chunk_count s))"

subsection \<open>The state file\<close>

definition write_le_u32 :: "u32 \<Rightarrow> bytes" where
  "write_le_u32 v =
     [ucast (v AND 0xFF), ucast (drop_bit 8 v AND 0xFF), ucast (drop_bit 16 v AND 0xFF),
      ucast (drop_bit 24 v AND 0xFF)]"

definition read_le_u32 :: "bytes \<Rightarrow> u32" where
  "read_le_u32 b =
     ucast (b ! 0) OR push_bit 8 (ucast (b ! 1)) OR push_bit 16 (ucast (b ! 2)) OR
     push_bit 24 (ucast (b ! 3))"

text \<open>The sequence of \<^verbatim>\<open>f.write\<close> calls of \<^verbatim>\<open>save\<close>.\<close>

definition save_pieces :: "ResumeState \<Rightarrow> bytes list" where
  "save_pieces s =
     [kMagic, [kVersion], rs_manifest_id s, write_le_u32 (rs_chunk_count s)] @
     (if rs_bitmap s = [] then [] else [rs_bitmap s])"

fun os_writes :: "world \<Rightarrow> ofstream \<Rightarrow> bytes list \<Rightarrow> ofstream \<times> world" where
  "os_writes w f [] = (f, w)"
| "os_writes w f (d # ds) = (let (f, w) = os_write w f d in os_writes w f ds)"

definition save :: "world \<Rightarrow> ResumeState \<Rightarrow> string \<Rightarrow> bool \<times> world" where
  "save w s p =
     (let tmp = p @ ''.tmp'';
          (f, w) = os_open_trunc w tmp
      in if \<not> os_open f then (False, w)
         else let (f, w) = os_writes w f (save_pieces s)
              in if \<not> os_good f then (False, snd (os_close w f))
                 else let (f, w) = os_sync w f;
                          (f, w) = os_close w f;
                          (ok, w) = fs_rename w tmp p
                      in if ok then (True, w)
                         else let (_, w) = fs_remove w p
                              in fs_rename w tmp p)"

definition load :: "world \<Rightarrow> string \<Rightarrow> ResumeState option \<times> world" where
  "load w p =
     (let (f, w) = is_open_read w p
      in if \<not> is_open f then (None, w)
         else let (magic, f, w) = is_read w f 4
              in if length magic \<noteq> 4 \<or> magic \<noteq> kMagic then (None, w)
                 else let (ver, f, w) = is_read w f 1
                      in if length ver \<noteq> 1 \<or> ver ! 0 \<noteq> kVersion then (None, w)
                         else let (i, f, w) = is_read w f 32
                              in if length i \<noteq> 32 then (None, w)
                                 else let (cc_bytes, f, w) = is_read w f 4
                                      in if length cc_bytes \<noteq> 4 then (None, w)
                                         else let cc = read_le_u32 cc_bytes;
                                                  (bitmap, f, w) =
                                                    (if bitmap_size cc > 0
                                                     then is_read w f (bitmap_size cc) else ([], f, w))
                                              in if length bitmap \<noteq> bitmap_size cc then (None, w)
                                                 else (Some \<lparr>rs_manifest_id = i, rs_chunk_count = cc,
                                                             rs_bitmap = bitmap\<rparr>, w))"

definition remove :: "world \<Rightarrow> string \<Rightarrow> world" where
  "remove w p = snd (fs_remove w p)"

subsection \<open>The bitmap as a set of chunks\<close>

definition received :: "ResumeState \<Rightarrow> nat set" where
  "received s =
     {i. i < unat (rs_chunk_count s) \<and> bit (rs_bitmap s ! (i div 8)) (i mod 8)}"

definition wf_state :: "ResumeState \<Rightarrow> bool" where
  "wf_state s \<longleftrightarrow>
     length (rs_manifest_id s) = 32 \<and> unat (rs_chunk_count s) + 7 < 2 ^ 32 \<and>
     length (rs_bitmap s) = bitmap_size (rs_chunk_count s)"

lemma bitmap_size_nat: "unat cc + 7 < 2 ^ 32 \<Longrightarrow> bitmap_size cc = (unat cc + 7) div 8"
  by (simp add: bitmap_size_def unat_div_distrib unat_plus_if')

lemma wf_state_index:
  assumes "wf_state s" "i < rs_chunk_count s"
  shows "unat i div 8 < length (rs_bitmap s)"
proof -
  have "unat i < unat (rs_chunk_count s)" using assms(2) by (simp add: word_less_nat_alt)
  then show ?thesis using assms(1) by (simp add: wf_state_def bitmap_size_nat)
qed

lemma unat_div_mod_8: "unat (i div 8) = unat i div 8" "unat (i mod 8) = unat i mod 8" for i :: u32
  by (simp_all add: unat_div_distrib unat_mod_distrib)

lemma byte_test_bit: "k < 8 \<Longrightarrow> (ucast b :: u32) AND 2 ^ k \<noteq> 0 \<longleftrightarrow> bit b k" for b :: u8
  by (simp add: and_exp_eq_0_iff_not_bit bit_simps)

lemma byte_set_bit:
  "k < 8 \<Longrightarrow> bit (ucast ((ucast b :: u32) OR 2 ^ k) :: u8) j \<longleftrightarrow> bit b j \<or> j = k" for b :: u8
  by (auto simp: bit_simps bit_exp_iff dest: bit_imp_le_length)

lemma is_set_wf:
  assumes "wf_state s"
  shows "is_set s i = Some (unat i \<in> received s)"
proof (cases "i < rs_chunk_count s")
  case True
  then show ?thesis
    using wf_state_index [OF assms True]
    by (simp add: is_set_def vec_at_def received_def unat_div_mod_8 byte_test_bit
        word_less_nat_alt word_le_nat_alt)
next
  case False
  then show ?thesis by (simp add: is_set_def received_def word_less_nat_alt word_le_nat_alt)
qed

lemma mark_received_wf:
  assumes "wf_state s"
  obtains s' where "mark_received s i = Some s'" "wf_state s'"
    "rs_chunk_count s' = rs_chunk_count s" "rs_manifest_id s' = rs_manifest_id s"
    "received s' = (if i < rs_chunk_count s then insert (unat i) (received s) else received s)"
proof (cases "i < rs_chunk_count s")
  case True
  let ?k = "unat i div 8" and ?b = "rs_bitmap s ! (unat i div 8)"
  let ?s = "s\<lparr>rs_bitmap := (rs_bitmap s)[?k := ucast ((ucast ?b :: u32) OR 2 ^ (unat i mod 8))]\<rparr>"
  have k: "?k < length (rs_bitmap s)" by (rule wf_state_index [OF assms True])
  have "mark_received s i = Some ?s"
    using True k by (simp add: mark_received_def vec_at_def unat_div_mod_8 word_less_nat_alt
        word_le_nat_alt)
  moreover have "wf_state ?s" using assms by (simp add: wf_state_def)
  moreover have "received ?s = insert (unat i) (received s)"
  proof (rule set_eqI)
    fix n
    have "n div 8 = ?k \<Longrightarrow> n mod 8 = unat i mod 8 \<longleftrightarrow> n = unat i"
      by (metis div_mult_mod_eq)
    then show "n \<in> received ?s \<longleftrightarrow> n \<in> insert (unat i) (received s)"
      using True k by (auto simp: received_def nth_list_update byte_set_bit word_less_nat_alt)
  qed
  ultimately show thesis using True by (intro that) simp_all
next
  case False
  then show thesis using assms by (intro that [of s]) (auto simp: mark_received_def not_less)
qed

lemma missing_from_wf:
  "wf_state s \<Longrightarrow> missing_from s is = Some (filter (\<lambda>i. unat i \<notin> received s) is)"
  by (induction "is") (simp_all add: is_set_wf)

lemma complete_from_wf:
  "wf_state s \<Longrightarrow> complete_from s is = Some (\<forall>i\<in>set is. unat i \<in> received s)"
  by (induction "is") (auto simp: is_set_wf)

lemma received_bound: "received s \<subseteq> {0..<unat (rs_chunk_count s)}"
  by (auto simp: received_def)

lemma complete_wf:
  assumes "wf_state s"
  shows "complete s = Some (received s = {0..<unat (rs_chunk_count s)})"
proof -
  have "(\<forall>i\<in>set (upto_u32 (rs_chunk_count s)). unat i \<in> received s)
      \<longleftrightarrow> set (map unat (upto_u32 (rs_chunk_count s))) \<subseteq> received s" by auto
  then have "(\<forall>i\<in>set (upto_u32 (rs_chunk_count s)). unat i \<in> received s)
      \<longleftrightarrow> received s = {0..<unat (rs_chunk_count s)}"
    using received_bound [of s] by (auto simp: unat_upto_u32)
  then show ?thesis using assms by (simp add: complete_def complete_from_wf)
qed

text \<open>
  What a session relies on: the operations of the resume state, which never meet undefined
  behaviour under the invariant, act on a set of chunk numbers below the chunk count.
\<close>

locale chunk_set =
  fixes member :: "'s \<Rightarrow> u32 \<Rightarrow> bool option"
    and mark :: "'s \<Rightarrow> u32 \<Rightarrow> 's option"
    and absent :: "'s \<Rightarrow> u32 list option"
    and full :: "'s \<Rightarrow> bool option"
    and invar :: "'s \<Rightarrow> bool"
    and size_of :: "'s \<Rightarrow> u32"
    and abs :: "'s \<Rightarrow> nat set"
  assumes member: "invar s \<Longrightarrow> member s i = Some (unat i \<in> abs s)"
    and mark: "invar s \<Longrightarrow> \<exists>s'. mark s i = Some s' \<and> invar s' \<and> size_of s' = size_of s \<and>
      abs s' = (if i < size_of s then insert (unat i) (abs s) else abs s)"
    and absent: "invar s \<Longrightarrow>
      absent s = Some (filter (\<lambda>i. unat i \<notin> abs s) (map word_of_nat [0..<unat (size_of s)]))"
    and full: "invar s \<Longrightarrow> full s = Some (abs s = {0..<unat (size_of s)})"
    and bound: "abs s \<subseteq> {0..<unat (size_of s)}"
begin

text \<open>Marking a list of chunks one by one, as a session does.\<close>

fun mark_all :: "'s \<Rightarrow> u32 list \<Rightarrow> 's option" where
  "mark_all s [] = Some s"
| "mark_all s (i # is) = Option.bind (mark s i) (\<lambda>s. mark_all s is)"

lemma mark_all_abs:
  "invar s \<Longrightarrow> \<exists>s'. mark_all s is = Some s' \<and> invar s' \<and> size_of s' = size_of s \<and>
     abs s' = abs s \<union> {unat i |i. i \<in> set is \<and> i < size_of s}"
proof (induction "is" arbitrary: s)
  case (Cons i "is")
  from mark [OF Cons.prems, of i] obtain s1 where s1: "mark s i = Some s1" "invar s1"
    "size_of s1 = size_of s" "abs s1 = (if i < size_of s then insert (unat i) (abs s) else abs s)"
    by blast
  from Cons.IH [OF s1(2)] show ?case using s1 by (auto split: if_splits)
qed auto

lemma mark_absent_full:
  assumes "invar s" "absent s = Some is"
  shows "\<exists>s'. mark_all s is = Some s' \<and> full s' = Some True"
proof -
  obtain s' where s': "mark_all s is = Some s'" "invar s'" "size_of s' = size_of s"
    "abs s' = abs s \<union> {unat i |i. i \<in> set is \<and> i < size_of s}"
    using mark_all_abs [OF assms(1)] by blast
  have "k \<in> abs s'" if k: "k < unat (size_of s)" for k
  proof (cases "k \<in> abs s")
    case False
    have u: "unat (word_of_nat k :: u32) = k" by (rule unat_word_of_nat_below [OF k])
    then have "word_of_nat k \<in> set is" "word_of_nat k < size_of s"
      using assms False k absent [OF assms(1)] by (auto simp: word_less_nat_alt)
    then show ?thesis using s'(4) u by auto
  qed (use s'(4) in simp)
  then have "abs s' = {0..<unat (size_of s')}" using bound [of s'] s'(3) by auto
  then show ?thesis using s'(1) full [OF s'(2)] by auto
qed

end

interpretation resume: chunk_set is_set mark_received missing complete wf_state rs_chunk_count received
proof unfold_locales
  fix s i assume s: "wf_state s"
  show "is_set s i = Some (unat i \<in> received s)" by (rule is_set_wf [OF s])
  show "\<exists>s'. mark_received s i = Some s' \<and> wf_state s' \<and> rs_chunk_count s' = rs_chunk_count s \<and>
      received s' = (if i < rs_chunk_count s then insert (unat i) (received s) else received s)"
    by (rule mark_received_wf [OF s, of i]) blast
  show "missing s = Some (filter (\<lambda>i. unat i \<notin> received s)
      (map word_of_nat [0..<unat (rs_chunk_count s)]))"
    by (simp add: missing_def missing_from_wf [OF s] upto_u32_def)
  show "complete s = Some (received s = {0..<unat (rs_chunk_count s)})" by (rule complete_wf [OF s])
qed (rule received_bound)

lemma new_ResumeState_wf:
  "length i = 32 \<Longrightarrow> unat cc + 7 < 2 ^ 32 \<Longrightarrow> wf_state (new_ResumeState i cc)"
  by (simp add: wf_state_def new_ResumeState_def)

lemma new_ResumeState_received:
  assumes "unat cc + 7 < 2 ^ 32"
  shows "received (new_ResumeState i cc) = {}"
proof -
  have "k div 8 < bitmap_size cc" if "k < unat cc" for k
    using that assms by (simp add: bitmap_size_nat)
  then show ?thesis by (auto simp: received_def new_ResumeState_def)
qed

subsection \<open>The state file, saved and loaded\<close>

definition state_bytes :: "ResumeState \<Rightarrow> bytes" where
  "state_bytes s =
     kMagic @ [kVersion] @ rs_manifest_id s @ write_le_u32 (rs_chunk_count s) @ rs_bitmap s"

text \<open>What a state file with content \<open>c\<close> means.\<close>

definition parse_state :: "bytes \<Rightarrow> ResumeState option" where
  "parse_state c =
     (let cc = read_le_u32 (take 4 (drop 37 c))
      in if length c < 41 + bitmap_size cc \<or> take 4 c \<noteq> kMagic \<or> c ! 4 \<noteq> kVersion then None
         else Some \<lparr>rs_manifest_id = take 32 (drop 5 c), rs_chunk_count = cc,
                    rs_bitmap = take (bitmap_size cc) (drop 41 c)\<rparr>)"

lemma concat_save_pieces: "concat (save_pieces s) = state_bytes s"
  by (simp add: save_pieces_def state_bytes_def)

lemma length_write_le [simp]: "length (write_le_u32 v) = 4"
  by (simp add: write_le_u32_def)

lemma read_write_le [simp]: "read_le_u32 (write_le_u32 v) = v"
proof (rule bit_word_eqI)
  fix n assume "n < LENGTH(32)"
  then consider "n < 8" | "8 \<le> n" "n < 16" | "16 \<le> n" "n < 24" | "24 \<le> n" "n < 32"
    by fastforce
  then show "bit (read_le_u32 (write_le_u32 v)) n = bit v n"
    by cases (auto simp: read_le_u32_def write_le_u32_def bit_simps)
qed

lemma length_kMagic [simp]: "length kMagic = 4"
  by (simp add: kMagic_def)

lemma parse_state_bytes: "wf_state s \<Longrightarrow> parse_state (state_bytes s @ extra) = Some s"
  by (simp add: parse_state_def state_bytes_def wf_state_def nth_append Let_def)

lemma length_state_bytes:
  "wf_state s \<Longrightarrow> length (state_bytes s) = 41 + bitmap_size (rs_chunk_count s)"
  by (simp add: state_bytes_def wf_state_def)

lemma parse_state_truncated:
  assumes "wf_state s" "n < length (state_bytes s)"
  shows "parse_state (take n (state_bytes s)) = None"
proof (cases "n < 41")
  case True
  then have "length (take n (state_bytes s)) < 41" by simp
  then show ?thesis unfolding parse_state_def Let_def by simp
next
  case False
  then have "take 4 (drop 37 (take n (state_bytes s))) = write_le_u32 (rs_chunk_count s)"
    using assms(1) by (simp add: take_drop state_bytes_def wf_state_def)
  then show ?thesis
    using assms False by (simp add: parse_state_def Let_def length_state_bytes)
qed

lemma parse_state_shape:
  "parse_state c = Some s \<Longrightarrow>
   length (rs_manifest_id s) = 32 \<and> length (rs_bitmap s) = bitmap_size (rs_chunk_count s)"
  by (auto simp: parse_state_def Let_def split: if_splits)

text \<open>A read that returns all the bytes asked for came from a good stream and the file.\<close>

lemma is_read_full:
  assumes rd: "is_read w f n = (got, f', w')" and len: "length got = n" and pos: "0 < n"
  shows "n \<le> length (content w (is_path f)) - is_pos f"
    and "got = take n (drop (is_pos f) (content w (is_path f)))"
    and "is_pos f' = is_pos f + n" "is_path f' = is_path f" "content w' = content w"
proof -
  let ?x = "take n (drop (is_pos f) (content w (is_path f)))"
  obtain e w1 where e: "next_fault w = (e, w1)" by fastforce
  note w1 = next_fault_content [OF e]
  have good: "is_good f" using rd len pos by (auto simp: is_read_def split: if_splits)
  have cases: "got = ?x \<or> (\<exists>k. got = take k ?x)" and w': "w' = w1"
    and f': "is_path f' = is_path f" "is_pos f' = is_pos f + length got"
    using rd good by (auto simp: is_read_def Let_def e w1 split: fault.splits)
  have "length got \<le> length ?x" using cases by auto
  then have lx: "length ?x = n" using len by simp
  from cases show "got = ?x"
  proof (elim disjE exE)
    fix k assume k: "got = take k ?x"
    then have "length ?x \<le> k" using len lx by (metis length_take min.cobounded2)
    with k show ?thesis by (simp only: take_all)
  qed
  show "n \<le> length (content w (is_path f)) - is_pos f" using lx by simp
  show "is_pos f' = is_pos f + n" "is_path f' = is_path f" using f' len by simp_all
  show "content w' = content w" using w' w1 by simp
qed

lemma load_sound:
  assumes "load w p = (Some s, w')"
  shows "\<exists>c. files w p = Some (Regular c) \<and> parse_state c = Some s"
proof -
  obtain f0 w0 where 0: "is_open_read w p = (f0, w0)" by fastforce
  obtain magic f1 w1 where 1: "is_read w0 f0 4 = (magic, f1, w1)" by (metis prod_cases3)
  obtain ver f2 w2 where 2: "is_read w1 f1 1 = (ver, f2, w2)" by (metis prod_cases3)
  obtain i f3 w3 where 3: "is_read w2 f2 32 = (i, f3, w3)" by (metis prod_cases3)
  obtain cc f4 w4 where 4: "is_read w3 f3 4 = (cc, f4, w4)" by (metis prod_cases3)
  let ?n = "bitmap_size (read_le_u32 cc)"
  obtain bm f5 w5 where 5: "is_read w4 f4 ?n = (bm, f5, w5)" by (metis prod_cases3)
  note run = 0 1 2 3 4 5
  have ok: "is_open f0" "length magic = 4" "magic = kMagic" "length ver = 1" "ver ! 0 = kVersion"
    "length i = 32" "length cc = 4"
    using assms run by (auto simp: load_def Let_def split: if_splits)
  have bm: "(if ?n > 0 then length bm = ?n else True) \<and>
      s = \<lparr>rs_manifest_id = i, rs_chunk_count = read_le_u32 cc,
           rs_bitmap = (if ?n > 0 then bm else [])\<rparr>"
    using assms run ok by (auto simp: load_def Let_def split: if_splits)
  obtain c where c: "files w p = Some (Regular c)" "is_path f0 = p" "is_pos f0 = 0"
      "files w0 = files w"
    using 0 ok(1) by (auto simp: is_open_read_def closed_ifstream_def
        split: prod.splits option.splits node.splits if_splits)
  have c0: "content w0 p = c" using c by (simp add: content_def)
  note r1 = is_read_full [OF 1 ok(2)] and r2 = is_read_full [OF 2 ok(4)]
    and r3 = is_read_full [OF 3 ok(6)] and r4 = is_read_full [OF 4 ok(7)]
  have fields: "magic = take 4 c" "ver = take 1 (drop 4 c)" "i = take 32 (drop 5 c)"
      "cc = take 4 (drop 37 c)" "41 \<le> length c" "is_pos f4 = 41" "content w4 (is_path f4) = c"
    using r1 r2 r3 r4 c(2,3) c0 by simp_all
  have "bm = take ?n (drop 41 c) \<and> ?n \<le> length c - 41" if "?n > 0"
    using is_read_full(1,2) [OF 5 _ that] bm that fields(6,7) by simp
  moreover have "ver ! 0 = c ! 4" using fields(2,5) by simp
  ultimately have "parse_state c = Some s"
    using ok bm fields by (auto simp: parse_state_def Let_def)
  with c(1) show ?thesis by blast
qed

lemma is_read_quiet [fs_simps]:
  "faults w = [] \<Longrightarrow> is_good f \<Longrightarrow> is_read w f n =
     (let got = take n (drop (is_pos f) (content w (is_path f)))
      in (got, f\<lparr>is_pos := is_pos f + length got, is_good := (length got = n),
                 is_eof := (length got \<noteq> n)\<rparr>, w))"
  by (simp add: is_read_def fs_simps)

lemma load_quiet:
  assumes quiet: "faults w = []"
  shows "load w p = (case files w p of Some (Regular c) \<Rightarrow> parse_state c | _ \<Rightarrow> None, w)"
proof (cases "\<exists>c. files w p = Some (Regular c)")
  case True
  then obtain c where c: "files w p = Some (Regular c)" by blast
  have cp: "content w p = c" using c by (simp add: content_def)
  have short: "length c < n \<Longrightarrow> n \<le> 41 \<Longrightarrow> parse_state c = None" for n
    by (simp add: parse_state_def Let_def)
  show ?thesis
  proof (cases "41 \<le> length c")
    case True
    then have "take (Suc 0) (drop 4 c) = [c ! 4]"
      by (simp add: take_Suc_conv_app_nth)
    then show ?thesis using True
      by (auto simp: load_def is_open_read_def fs_simps quiet c cp Let_def parse_state_def)
  next
    case False
    then show ?thesis
      by (simp add: load_def is_open_read_def fs_simps quiet c cp Let_def short [of 41])
  qed
next
  case False
  then show ?thesis
    by (auto simp: load_def is_open_read_def fs_simps quiet closed_ifstream_def
        split: option.splits node.splits)
qed

lemma load_files [frame_rules]: "files (snd (load w p)) = files w"
proof -
  have rd: "is_read v f n = (got, f', v') \<Longrightarrow> files v' = files v" for v f n got f' v'
    using queries_unchanged(6) [of v f n] by simp
  have op: "is_open_read v q = (f, v') \<Longrightarrow> files v' = files v" for v q f v'
    using queries_unchanged(4) [of v q] by simp
  show ?thesis
    by (auto simp: load_def Let_def dest!: rd op split: prod.splits)
qed

text \<open>Saving: the temporary file holds a prefix of the state's bytes, all of them without faults.\<close>

lemma take_prefix_append: "\<exists>m. take n a = take m (a @ b)"
  by (rule exI [of _ "min n (length a)"]) (simp add: min_def)

lemma os_writes_result:
  assumes "os_good f" "os_writes w f ds = (f', w')"
  shows "f' = f\<lparr>os_pending := os_pending f @ concat ds\<rparr> \<and> files w' = files w \<or>
    \<not> os_good f' \<and> os_pending f' = [] \<and> os_path f' = os_path f \<and>
    (\<exists>n. files w' = files (os_drain w f (take n (os_pending f @ concat ds))))"
  using assms
proof (induction ds arbitrary: w f)
  case (Cons d ds)
  obtain f1 w1 where 1: "os_write w f d = (f1, w1)" by fastforce
  obtain e w0 where e: "next_fault w = (e, w0)" by fastforce
  have rest: "os_writes w1 f1 ds = (f', w')" using Cons.prems(2) 1 by simp
  show ?case
  proof (cases e)
    case NoFault
    then have f1: "f1 = f\<lparr>os_pending := os_pending f @ d\<rparr>" "files w1 = files w"
      using 1 e Cons.prems(1) by (auto simp: os_write_def)
    then have "files (os_drain w1 f1 b) = files (os_drain w f b)" for b
      by (intro os_drain_cong) simp_all
    then show ?thesis using Cons.IH [OF _ rest] f1 Cons.prems(1) by simp
  next
    case (Fault k)
    let ?b = "take k (os_pending f @ d)"
    have f1: "f1 = f\<lparr>os_pending := [], os_good := False\<rparr>" "w1 = os_drain w0 f ?b"
      using 1 e Cons.prems(1) Fault by (auto simp: os_write_def)
    have "os_writes v g gs = (g, v)" if "\<not> os_good g" for v g gs
      using that by (induction gs) (simp_all add: os_write_def)
    then have same: "f' = f1" "w' = w1" using rest f1(1) by simp_all
    have "files w1 = files (os_drain w f ?b)"
      using e f1(2) os_drain_cong [of w0 w f f] by simp
    moreover obtain m where "?b = take m (os_pending f @ concat (d # ds))"
      using take_prefix_append [of k "os_pending f @ d" "concat ds"] by auto
    ultimately show ?thesis using same f1(1) by auto
  qed
qed simp

lemma overwrite_empty: "overwrite [] 0 d = d"
  by (simp add: overwrite_def)

text \<open>The file written by \<^verbatim>\<open>save\<close> before the rename.\<close>

lemma save_tmp:
  assumes "os_open_trunc w tmp = (f0, w0)" "os_open f0"
    and "os_writes w0 f0 (save_pieces s) = (f1, w1)"
  shows "\<not> os_good f1 \<Longrightarrow> unchanged_outside {tmp} w w1 \<and> os_close w1 f1 = (f1\<lparr>os_open := False\<rparr>, w1)"
    and "os_good f1 \<Longrightarrow> os_sync w1 f1 = (f2, w2) \<Longrightarrow> os_close w2 f2 = (f3, w3) \<Longrightarrow>
      unchanged_outside {tmp} w w3 \<and> (\<exists>n. files w3 tmp = Some (Regular (take n (state_bytes s))))"
    and "faults w = [] \<Longrightarrow> os_good f1 \<and> f1 = f0\<lparr>os_pending := state_bytes s\<rparr> \<and>
      files w1 = (files w)(tmp \<mapsto> Regular []) \<and> faults w1 = []"
proof -
  have f0: "f0 = opened_ofstream tmp" and w0: "files w0 = (files w)(tmp \<mapsto> Regular [])"
    using assms(1,2)
    by (auto simp: os_open_trunc_def closed_ofstream_def split: prod.splits if_splits)
  note res = os_writes_result [OF _ assms(3), unfolded concat_save_pieces]
  have fresh: "files (os_drain w0 f0 d) = (files w)(tmp \<mapsto> Regular d)" for d
    using w0 by (simp add: f0 os_drain_def opened_ofstream_def content_def overwrite_empty)
  show "unchanged_outside {tmp} w w1 \<and> os_close w1 f1 = (f1\<lparr>os_open := False\<rparr>, w1)"
    if "\<not> os_good f1"
    using res that fresh
    by (auto simp: f0 opened_ofstream_def unchanged_outside_def os_close_def os_sync_def)
  show "unchanged_outside {tmp} w w3 \<and> (\<exists>n. files w3 tmp = Some (Regular (take n (state_bytes s))))"
    if g: "os_good f1" and sy: "os_sync w1 f1 = (f2, w2)" and cl: "os_close w2 f2 = (f3, w3)"
  proof -
    have f1: "f1 = f0\<lparr>os_pending := state_bytes s\<rparr>" "files w1 = files w0"
      using res g by (auto simp: f0 opened_ofstream_def)
    then obtain n where n: "files w2 = files (os_drain w1 f1 (take n (state_bytes s)))"
      "os_pending f2 = []"
      using os_sync_result(1) [OF sy g] by auto
    have "files (os_drain w1 f1 (take n (state_bytes s))) = files (os_drain w0 f0 (take n (state_bytes s)))"
      using f1 by (intro os_drain_cong) simp_all
    moreover have "files w3 = files w2"
      using cl n(2) os_sync_result(3) [of w2 f2] by (auto simp: os_close_def split: prod.splits)
    ultimately show ?thesis using n(1) fresh by (auto simp: unchanged_outside_def)
  qed
  show "os_good f1 \<and> f1 = f0\<lparr>os_pending := state_bytes s\<rparr> \<and>
      files w1 = (files w)(tmp \<mapsto> Regular []) \<and> faults w1 = []" if quiet: "faults w = []"
  proof -
    have "os_writes v g ds = (g\<lparr>os_pending := os_pending g @ concat ds\<rparr>, v)"
      if "os_good g" "faults v = []" for v g ds
      using that by (induction ds arbitrary: g) (simp_all add: os_write_def fs_simps)
    moreover have "faults w0 = []"
      using assms(1) quiet by (auto simp: os_open_trunc_def fs_simps split: if_splits)
    ultimately show ?thesis
      using assms(3) w0 by (auto simp: f0 opened_ofstream_def concat_save_pieces)
  qed
qed

definition state_tmp :: "string \<Rightarrow> string" where
  "state_tmp p = p @ ''.tmp''"

lemma state_tmp_neq [simp]: "state_tmp p \<noteq> p" "p \<noteq> state_tmp p"
  by (simp_all add: state_tmp_def)

text \<open>What saving may have done to the world so far.\<close>

definition saves :: "ResumeState \<Rightarrow> string \<Rightarrow> world \<Rightarrow> world \<Rightarrow> bool" where
  "saves s p w v \<longleftrightarrow>
     unchanged_outside {p, state_tmp p} w v \<and>
     (files v p = files w p \<or> files v p = None \<or> (\<exists>n. files v p = Some (Regular (take n (state_bytes s)))))"

lemma saves_tmp: "unchanged_outside {state_tmp p} w v \<Longrightarrow> saves s p w v"
  by (auto simp: saves_def unchanged_outside_def)

lemma saves_rename:
  assumes "saves s p w v" "files v (state_tmp p) = Some (Regular (take n (state_bytes s)))"
    and "fs_rename v (state_tmp p) p = (ok, v')"
  shows "saves s p w v'"
  using assms(3) by (cases rule: fs_rename_result) (use assms(1,2) in \<open>auto simp: saves_def unchanged_outside_def\<close>)

lemma save_saves:
  assumes "save w s p = (ok, w')"
  shows "saves s p w w'"
proof -
  obtain f0 w0 where 0: "os_open_trunc w (state_tmp p) = (f0, w0)" by fastforce
  obtain f1 w1 where 1: "os_writes w0 f0 (save_pieces s) = (f1, w1)" by fastforce
  obtain f2 w2 where 2: "os_sync w1 f1 = (f2, w2)" by fastforce
  obtain f3 w3 where 3: "os_close w2 f2 = (f3, w3)" by fastforce
  obtain r w4 where 4: "fs_rename w3 (state_tmp p) p = (r, w4)" by fastforce
  obtain x w5 where 5: "fs_remove w4 p = (x, w5)" by fastforce
  obtain r' w6 where 6: "fs_rename w5 (state_tmp p) p = (r', w6)" by fastforce
  show ?thesis
  proof (cases "os_open f0 \<and> os_good f1")
    case False
    then show ?thesis
      using assms 0 1 save_tmp(1) [OF 0 _ 1] os_open_trunc_unchanged [of "state_tmp p" w] saves_tmp
      by (auto simp: save_def Let_def simp flip: state_tmp_def split: if_splits)
  next
    case True
    obtain n where w3: "unchanged_outside {state_tmp p} w w3"
        "files w3 (state_tmp p) = Some (Regular (take n (state_bytes s)))"
      using save_tmp(2) [OF 0 _ 1 _ 2 3] True by blast
    have w': "w' = (if r then w4 else w6)"
      using assms 0 1 2 3 4 5 6 True
      by (auto simp: save_def Let_def simp flip: state_tmp_def split: if_splits)
    have g4: "saves s p w w4" by (rule saves_rename [OF saves_tmp [OF w3(1)] w3(2) 4])
    show ?thesis
    proof (cases r)
      case False
      from 4 have "files w4 = files w3" by (cases rule: fs_rename_result) (use False in simp_all)
      then have "saves s p w w5" "files w5 (state_tmp p) = Some (Regular (take n (state_bytes s)))"
        using g4 w3(2) fs_remove_result [OF 5] by (auto simp: saves_def unchanged_outside_def)
      from saves_rename [OF this 6] show ?thesis using w' False by simp
    qed (use w' g4 in simp)
  qed
qed

lemma save_result:
  assumes "save w s p = (ok, w')"
  shows "unchanged_outside {p, state_tmp p} w w'"
    and "files w' p = files w p \<or> files w' p = None \<or> (\<exists>n. files w' p = Some (Regular (take n (state_bytes s))))"
  using save_saves [OF assms] by (simp_all add: saves_def)

lemma save_quiet:
  assumes "faults w = []" "files w p \<noteq> Some Directory" "files w (state_tmp p) \<noteq> Some Directory"
  obtains w' where "save w s p = (True, w')" "faults w' = []"
    "files w' = (files w)(state_tmp p := None, p \<mapsto> Regular (state_bytes s))"
proof -
  let ?w0 = "w\<lparr>files := (files w)(state_tmp p \<mapsto> Regular [])\<rparr>"
  have 0: "os_open_trunc w (state_tmp p) = (opened_ofstream (state_tmp p), ?w0)"
    using assms by (simp add: os_open_trunc_def fs_simps)
  obtain f1 w1 where 1: "os_writes ?w0 (opened_ofstream (state_tmp p)) (save_pieces s) = (f1, w1)"
    by fastforce
  have f1: "f1 = (opened_ofstream (state_tmp p))\<lparr>os_pending := state_bytes s\<rparr>" "os_good f1"
    "files w1 = files ?w0" "faults w1 = []"
    using save_tmp(3) [OF 0 _ 1 assms(1)] by (simp_all add: opened_ofstream_def)
  have "state_bytes s \<noteq> []" by (simp add: state_bytes_def)
  then have "save w s p = (True, w1\<lparr>files := (files w)(state_tmp p := None, p \<mapsto> Regular (state_bytes s))\<rparr>)"
    using 0 1 f1 assms
    by (auto simp: save_def Let_def opened_ofstream_def os_sync_def os_close_def os_drain_def
        fs_rename_def fs_simps content_def overwrite_empty
        simp flip: state_tmp_def split: node.splits option.splits)
  then show thesis by (rule that) (use f1(4) in simp_all)
qed

subsection \<open>Properties\<close>

text \<open>
  Under the invariant the bitmap is a set of chunk numbers: no operation meets undefined
  behaviour, marking a chunk below the count adds exactly that chunk and keeps the invariant,
  marking any other index changes nothing, and a query answers membership.
\<close>

lemma resume_state_set:
  assumes "wf_state s"
  shows "is_set s i = Some (unat i \<in> received s) \<and>
    (\<exists>s'. mark_received s i = Some s' \<and> wf_state s' \<and> rs_chunk_count s' = rs_chunk_count s \<and>
       received s' = (if i < rs_chunk_count s then insert (unat i) (received s) else received s))"
  using resume.member [OF assms] resume.mark [OF assms] by (intro conjI)

text \<open>
  C28. \<^verbatim>\<open>missing\<close> lists, in increasing order and without repetition, exactly the chunks not yet
  received, \<^verbatim>\<open>complete\<close> tells whether that list is empty, and marking every missing chunk makes the
  state complete.
\<close>

theorem missing_and_complete:
  assumes "wf_state s"
  shows "\<exists>is. missing s = Some is \<and> sorted (map unat is) \<and> distinct is \<and>
      set (map unat is) = {0..<unat (rs_chunk_count s)} - received s \<and>
      complete s = Some (is = []) \<and>
      (\<exists>s'. resume.mark_all s is = Some s' \<and> complete s' = Some True)"
proof -
  let ?n = "unat (rs_chunk_count s)"
  let ?is = "filter (\<lambda>i. unat i \<notin> received s) (upto_u32 (rs_chunk_count s))"
  have mis: "missing s = Some ?is" using resume.absent [OF assms] by (simp add: upto_u32_def)
  have nat: "map unat ?is = filter (\<lambda>i. i \<notin> received s) [0..<?n]"
    using unat_upto_u32 [of "rs_chunk_count s"] by (simp add: filter_map comp_def flip: unat_upto_u32)
  have set: "set (map unat ?is) = {0..<?n} - received s" unfolding nat by auto
  have "sorted (map unat ?is)" "distinct (map unat ?is)"
    unfolding nat by (simp_all add: sorted_wrt_filter)
  moreover have "complete s = Some (?is = [])"
    using resume.full [OF assms] resume.bound [of s] set by (auto simp: filter_empty_conv)
  moreover have "\<exists>s'. resume.mark_all s ?is = Some s' \<and> complete s' = Some True"
    by (rule resume.mark_absent_full [OF assms mis])
  ultimately show ?thesis using mis set by (auto simp: distinct_map)
qed

theorem missing_and_complete_witness:
  "\<exists>is. missing (new_ResumeState (replicate 32 0) 9) = Some is \<and>
     set (map unat is) = {0..<9} \<and> complete (new_ResumeState (replicate 32 0) 9) = Some (is = [])"
proof -
  have wf: "wf_state (new_ResumeState (replicate 32 0) 9)" by (simp add: new_ResumeState_wf)
  have cc: "rs_chunk_count (new_ResumeState (replicate 32 0) 9) = 9"
    by (simp add: new_ResumeState_def)
  show ?thesis
    using missing_and_complete [OF wf] by (auto simp: new_ResumeState_received cc)
qed

text \<open>
  C29. A state that is saved and loaded again without faults comes back unchanged; the temporary
  file is gone and no other file is touched.
\<close>

theorem save_load_roundtrip:
  assumes "wf_state s" "faults w = []"
    and "files w p \<noteq> Some Directory" "files w (state_tmp p) \<noteq> Some Directory"
  shows "\<exists>w'. save w s p = (True, w') \<and> load w' p = (Some s, w') \<and>
     files w' (state_tmp p) = None \<and> unchanged_outside {p, state_tmp p} w w'"
proof -
  obtain w' where w': "save w s p = (True, w')" "faults w' = []"
    "files w' = (files w)(state_tmp p := None, p \<mapsto> Regular (state_bytes s))"
    by (rule save_quiet [OF assms(2-4)])
  have "load w' p = (Some s, w')"
    using load_quiet [OF w'(2)] w'(3) parse_state_bytes [OF assms(1), of "[]"] by simp
  then show ?thesis using w' save_result(1) [OF w'(1)] by auto
qed

theorem save_load_roundtrip_witness:
  "\<exists>w'. save \<lparr>files = (\<lambda>_. None), faults = []\<rparr> (new_ResumeState (replicate 32 7) 20) ''f'' = (True, w') \<and>
     load w' ''f'' = (Some (new_ResumeState (replicate 32 7) 20), w')"
  using save_load_roundtrip [of "new_ResumeState (replicate 32 7) 20" "\<lparr>files = (\<lambda>_. None), faults = []\<rparr>" "''f''"]
  by (auto simp: new_ResumeState_wf)

text \<open>
  C30. Saving never corrupts: whatever faults hit the save and the later load, a load returns nothing,
  or the state that was saved, or what the state file held before. A truncated file left by a failed
  flush is rejected.
\<close>

theorem save_never_corrupts:
  assumes "wf_state s" "save w s p = (ok, w1)" "files w2 p = files w1 p" "load w2 p = (Some s', w3)"
  shows "s' = s \<or> (\<exists>c. files w p = Some (Regular c) \<and> parse_state c = Some s')"
proof -
  obtain c where c: "files w1 p = Some (Regular c)" "parse_state c = Some s'"
    using load_sound [OF assms(4)] assms(3) by auto
  from save_result(2) [OF assms(2)] show ?thesis
  proof (elim disjE exE)
    fix n assume n: "files w1 p = Some (Regular (take n (state_bytes s)))"
    then have t: "parse_state (take n (state_bytes s)) = Some s'" using c by simp
    then have "\<not> n < length (state_bytes s)" using parse_state_truncated [OF assms(1)] by auto
    then show ?thesis using t parse_state_bytes [OF assms(1), of "[]"] by simp
  qed (use c in auto)
qed

theorem save_never_corrupts_witness:
  "\<exists>w1. save \<lparr>files = (\<lambda>_. None), faults = []\<rparr> (new_ResumeState (replicate 32 7) 20) ''f'' = (True, w1) \<and>
     (\<forall>s' w3. load w1 ''f'' = (Some s', w3) \<longrightarrow> s' = new_ResumeState (replicate 32 7) 20)"
proof -
  let ?w = "\<lparr>files = (\<lambda>_. None), faults = []\<rparr>" and ?s = "new_ResumeState (replicate 32 7) 20"
  have wf: "wf_state ?s" by (simp add: new_ResumeState_wf)
  obtain w1 where w1: "save ?w ?s ''f'' = (True, w1)" by (rule save_quiet [of ?w "''f''" ?s]) simp_all
  have "s' = ?s" if "load w1 ''f'' = (Some s', w3)" for s' w3
    using save_never_corrupts [OF wf w1 refl that] by simp
  with w1 show ?thesis by blast
qed

text \<open>
  The 32-bit computation of the bitmap size wraps around for the seven largest chunk counts: a
  state constructed for such a count has an empty bitmap, and asking for chunk 0 or marking it reads
  the bitmap out of range.
\<close>

theorem bitmap_size_wraps:
  assumes "0xFFFFFFF9 \<le> cc"
  shows "rs_bitmap (new_ResumeState i cc) = [] \<and>
    is_set (new_ResumeState i cc) 0 = None \<and> mark_received (new_ResumeState i cc) 0 = None"
proof -
  have "unat cc \<ge> 0xFFFFFFF9" "unat cc < 2 ^ 32"
    using assms unat_less_u32 [of cc] by (simp_all add: word_le_nat_alt)
  then have "unat (cc + 7) < 8" by (simp add: unat_plus_if')
  then have "bitmap_size cc = 0" by (simp add: bitmap_size_def unat_div_distrib)
  moreover have "\<not> cc \<le> 0" using \<open>unat cc \<ge> 0xFFFFFFF9\<close> by (simp add: word_le_nat_alt)
  ultimately show ?thesis
    by (simp_all add: new_ResumeState_def is_set_def mark_received_def vec_at_def)
qed

theorem bitmap_size_wraps_witness: "is_set (new_ResumeState (replicate 32 0) 0xFFFFFFFF) 0 = None"
  using bitmap_size_wraps [of "0xFFFFFFFF" "replicate 32 0"] by simp

end
