(* ===== verification/Ftx_Path.thy ===== *)
theory Ftx_Path
  imports Ftx_Prelude
begin

text \<open>
  The part of \<^verbatim>\<open>std::filesystem::path\<close> (POSIX) the code uses, on path strings, and the path
  checks of \<^verbatim>\<open>src/lib/transport/server.cpp\<close> built on it: \<^verbatim>\<open>is_path_safe\<close> and
  \<^verbatim>\<open>Server::resolve_dest_\<close>.
\<close>

text \<open>The pieces of a string between slashes; the non-empty ones are the file names.\<close>

fun split_slash :: "string \<Rightarrow> string list" where
  "split_slash [] = [[]]"
| "split_slash (c # cs) =
     (if c = CHR ''/'' then [] # split_slash cs
      else case split_slash cs of [] \<Rightarrow> [[c]] | x # xs \<Rightarrow> (c # x) # xs)"

definition path_names :: "string \<Rightarrow> string list" where
  "path_names p = filter (\<lambda>s. s \<noteq> []) (split_slash p)"

definition is_absolute :: "string \<Rightarrow> bool" where
  "is_absolute p \<longleftrightarrow> p \<noteq> [] \<and> hd p = CHR ''/''"

definition ends_in_slash :: "string \<Rightarrow> bool" where
  "ends_in_slash p \<longleftrightarrow> p \<noteq> [] \<and> last p = CHR ''/''"

text \<open>
  The elements an iteration over a path yields: the root directory, the file names, and an
  empty element for a trailing slash.
\<close>

definition path_elements :: "string \<Rightarrow> string list" where
  "path_elements p =
     (if is_absolute p then [''/''] else []) @ path_names p @
     (if path_names p \<noteq> [] \<and> ends_in_slash p then [''''] else [])"

text \<open>\<^verbatim>\<open>operator/\<close>.\<close>

definition path_append :: "string \<Rightarrow> string \<Rightarrow> string" where
  "path_append p q =
     (if is_absolute q then q
      else if p = [] \<or> ends_in_slash p then p @ q
      else p @ ''/'' @ q)"

definition path_filename :: "string \<Rightarrow> string" where
  "path_filename p = last (split_slash p)"

definition path_parent :: "string \<Rightarrow> string" where
  "path_parent p =
     (if path_names p = [] then p
      else let d = rev (dropWhile (\<lambda>c. c = CHR ''/'') (dropWhile (\<lambda>c. c \<noteq> CHR ''/'') (rev p)))
           in if d = [] \<and> is_absolute p then ''/'' else d)"

subsection \<open>Lexical normalisation\<close>

text \<open>
  \<^verbatim>\<open>lexically_normal\<close>, one file name at a time. The state is the normalised prefix, innermost
  name first, and whether it ends in a separator: a dot goes away and leaves its separator, a
  dot-dot removes the name before it, is dropped at the root and is kept otherwise.
\<close>

fun normal_step :: "bool \<Rightarrow> string list \<times> bool \<Rightarrow> string \<Rightarrow> string list \<times> bool" where
  "normal_step rooted (stk, tr) n =
     (if n = ''.'' then (stk, True)
      else if n = ''..'' then
        (if stk = [] then if rooted then ([], True) else ([''..''], False)
         else if hd stk = ''..'' then (''..'' # stk, False)
         else (tl stk, True))
      else (n # stk, False))"

definition normal_state :: "string \<Rightarrow> string list \<times> bool" where
  "normal_state p = foldl (normal_step (is_absolute p)) ([], False) (path_names p)"

definition normal_names :: "string \<Rightarrow> string list" where
  "normal_names p = rev (fst (normal_state p))"

fun path_join :: "string list \<Rightarrow> string" where
  "path_join [] = []"
| "path_join [n] = n"
| "path_join (n # ns) = n @ ''/'' @ path_join ns"

definition lexically_normal :: "string \<Rightarrow> string" where
  "lexically_normal p =
     (if p = [] then []
      else let (stk, tr) = normal_state p;
               slash = stk \<noteq> [] \<and> hd stk \<noteq> ''..'' \<and> (tr \<or> ends_in_slash p);
               s = (if is_absolute p then ''/'' else []) @ path_join (rev stk) @
                   (if slash then ''/'' else [])
           in if s = [] then ''.'' else s)"

subsection \<open>The server's path checks\<close>

definition is_path_safe :: "string \<Rightarrow> bool" where
  "is_path_safe rel \<longleftrightarrow>
     rel \<noteq> [] \<and> \<not> is_absolute rel \<and> (\<forall>part\<in>set (path_elements rel). part \<noteq> ''..'')"

text \<open>\<^verbatim>\<open>s.rfind(t, 0) == 0\<close>: \<open>t\<close> is a prefix of \<open>s\<close>.\<close>

definition starts_with :: "string \<Rightarrow> string \<Rightarrow> bool" where
  "starts_with s t \<longleftrightarrow> take (length t) s = t"

definition resolve_dest :: "string \<Rightarrow> string \<Rightarrow> string option" where
  "resolve_dest root rel =
     (if \<not> is_path_safe rel then None
      else let candidate = lexically_normal (path_append root rel);
               root_norm = lexically_normal root
           in if \<not> starts_with candidate root_norm then None else Some candidate)"

subsection \<open>File names\<close>

lemma split_slash_not_Nil [simp]: "split_slash p \<noteq> []"
  by (induction p) (auto split: list.splits)

lemma split_slash_append: "split_slash (p @ CHR ''/'' # q) = split_slash p @ split_slash q"
proof (induction p)
  case (Cons c p)
  then show ?case by (cases "split_slash p") auto
qed simp

lemma path_names_append [simp]: "path_names (p @ CHR ''/'' # q) = path_names p @ path_names q"
  by (simp add: path_names_def split_slash_append)

lemma path_names_Nil [simp]: "path_names [] = []"
  by (simp add: path_names_def)

lemma path_names_slash [simp]: "path_names (CHR ''/'' # q) = path_names q"
  using path_names_append [of "[]" q] by simp

lemma path_names_trailing: "ends_in_slash p \<Longrightarrow> path_names (p @ q) = path_names p @ path_names q"
proof -
  assume "ends_in_slash p"
  then obtain r where "p = r @ [CHR ''/'']"
    unfolding ends_in_slash_def by (metis append_butlast_last_id)
  then show ?thesis using path_names_append [of r q] path_names_append [of r "[]"] by simp
qed

definition is_name :: "string \<Rightarrow> bool" where
  "is_name n \<longleftrightarrow> n \<noteq> [] \<and> CHR ''/'' \<notin> set n"

lemma split_slash_no_slash: "CHR ''/'' \<notin> set n \<Longrightarrow> split_slash n = [n]"
  by (induction n) auto

lemma path_names_name [simp]: "is_name n \<Longrightarrow> path_names n = [n]"
  by (simp add: path_names_def is_name_def split_slash_no_slash)

lemma split_slash_pieces: "n \<in> set (split_slash p) \<Longrightarrow> CHR ''/'' \<notin> set n"
proof (induction p arbitrary: n)
  case (Cons c p)
  then show ?case by (cases "split_slash p") (auto split: if_splits)
qed simp

lemma path_names_are_names: "n \<in> set (path_names p) \<Longrightarrow> is_name n"
  by (auto simp: path_names_def is_name_def dest: split_slash_pieces)

lemma path_names_join: "\<forall>n\<in>set ns. is_name n \<Longrightarrow> path_names (path_join ns) = ns"
  by (induction ns rule: path_join.induct) simp_all

lemma path_join_Nil_iff: "\<forall>n\<in>set ns. is_name n \<Longrightarrow> path_join ns = [] \<longleftrightarrow> ns = []"
  by (induction ns rule: path_join.induct) (auto simp: is_name_def)

lemma path_join_relative: "\<forall>n\<in>set ns. is_name n \<Longrightarrow> \<not> is_absolute (path_join ns)"
  by (induction ns rule: path_join.induct)
    (auto simp: is_name_def is_absolute_def hd_append dest: hd_in_set)

lemma path_names_path_append: "path_names (path_append p q) =
    (if is_absolute q then path_names q else path_names p @ path_names q)"
  by (auto simp: path_append_def path_names_trailing)

lemma is_absolute_path_append: "is_absolute (path_append p q) \<longleftrightarrow> is_absolute q \<or> is_absolute p"
  by (auto simp: path_append_def is_absolute_def ends_in_slash_def hd_append)

lemma path_elements_safe:
  "(\<forall>part\<in>set (path_elements p). part \<noteq> ''..'') \<longleftrightarrow> ''..'' \<notin> set (path_names p)"
  by (auto simp: path_elements_def)

lemma safe_path_names: "is_path_safe rel \<Longrightarrow> ''..'' \<notin> set (path_names rel) \<and> \<not> is_absolute rel"
  by (simp add: is_path_safe_def path_elements_safe)

subsection \<open>Normal forms\<close>

text \<open>
  A normal form is a number of dot-dots, none of them at the root, followed by proper names.
\<close>

definition proper :: "string \<Rightarrow> bool" where
  "proper n \<longleftrightarrow> is_name n \<and> n \<noteq> ''.'' \<and> n \<noteq> ''..''"

definition normal_form :: "bool \<Rightarrow> string list \<Rightarrow> bool" where
  "normal_form rooted ns \<longleftrightarrow>
     (\<exists>k ms. ns = replicate k ''..'' @ ms \<and> (rooted \<longrightarrow> k = 0) \<and> (\<forall>n\<in>set ms. proper n))"

lemma normal_form_append:
  "normal_form r ns \<Longrightarrow> \<forall>n\<in>set ms. proper n \<Longrightarrow> normal_form r (ns @ ms)"
  unfolding normal_form_def
proof (elim exE conjE)
  fix k ls
  assume "ns = replicate k ''..'' @ ls" "r \<longrightarrow> k = 0" "\<forall>n\<in>set ls. proper n" "\<forall>n\<in>set ms. proper n"
  then show "\<exists>k ls. ns @ ms = replicate k ''..'' @ ls \<and> (r \<longrightarrow> k = 0) \<and> (\<forall>n\<in>set ls. proper n)"
    by (intro exI [of _ k] exI [of _ "ls @ ms"]) auto
qed

lemma is_name_dots [simp]: "is_name ''..''" "is_name ''.''"
  by (simp_all add: is_name_def)

lemma normal_form_names: "normal_form r ns \<Longrightarrow> n \<in> set ns \<Longrightarrow> is_name n"
  unfolding normal_form_def by (elim exE conjE) (auto simp: proper_def)

lemma normal_step_form:
  assumes "normal_form r (rev stk)" "is_name n"
  shows "normal_form r (rev (fst (normal_step r (stk, tr) n)))"
proof -
  obtain k ms where rev: "rev stk = replicate k ''..'' @ ms" and k: "r \<longrightarrow> k = 0"
    and ms: "\<forall>n\<in>set ms. proper n" using assms(1) unfolding normal_form_def by blast
  show ?thesis
  proof (cases ms rule: rev_cases)
    case Nil
    have stk: "stk = replicate k ''..''" using rev Nil by (metis append_Nil2 rev_replicate rev_rev_ident)
    have dots: "normal_form r (replicate j ''..'')" if "r \<longrightarrow> j = 0" for j
      using that unfolding normal_form_def by (intro exI [of _ j] exI [of _ "[]"]) simp
    consider "n = ''.''" | "n = ''..''" | "n \<noteq> ''.''" "n \<noteq> ''..''" by blast
    then show ?thesis
    proof cases
      case 1
      then show ?thesis using assms(1) by simp
    next
      case 2
      have snoc: "replicate j ''..'' @ [''..'', ''..''] = replicate (Suc (Suc j)) ''..''" for j
        by (induction j) simp_all
      from 2 show ?thesis
        using dots [of 0] dots [of "Suc k"] dots [of 1] k stk snoc by (cases k; cases r) simp_all
    next
      case 3
      then have "normal_form r (rev stk @ [n])"
        using assms by (intro normal_form_append) (simp_all add: proper_def)
      then show ?thesis using 3 by simp
    qed
  next
    case (snoc ms' m)
    have stk: "stk = m # rev (replicate k ''..'' @ ms')" using rev snoc by (simp add: rev_swap)
    have m: "proper m" using ms snoc by simp
    have "normal_form r (replicate k ''..'' @ ms')"
      using ms snoc k unfolding normal_form_def by auto
    moreover have "normal_form r (replicate k ''..'' @ ms' @ [m, n])" if "n \<noteq> ''.''" "n \<noteq> ''..''"
      using that ms snoc k assms(2) unfolding normal_form_def
      by (intro exI [of _ k] exI [of _ "ms' @ [m, n]"]) (auto simp: proper_def)
    ultimately show ?thesis using stk m assms(1) by (auto simp: proper_def)
  qed
qed

lemma normal_names_form: "normal_form (is_absolute p) (normal_names p)"
proof -
  have "normal_form r (rev (fst (foldl (normal_step r) (stk, tr) ns)))"
    if "\<forall>n\<in>set ns. is_name n" "normal_form r (rev stk)" for r stk tr ns
    using that
  proof (induction ns arbitrary: stk tr)
    case (Cons n ns)
    obtain stk' tr' where e: "normal_step r (stk, tr) n = (stk', tr')" by fastforce
    have "normal_form r (rev stk')" using normal_step_form [of r stk n tr] Cons.prems e by simp
    then show ?case using Cons.IH Cons.prems e by simp
  qed simp
  then show ?thesis
    unfolding normal_names_def normal_state_def
    by (metis (no_types, lifting) append.right_neutral append_Nil empty_iff list.set(1)
        normal_form_def path_names_are_names replicate_0 rev.simps(1))
qed

text \<open>Proper names and dots only extend the stack.\<close>

lemma normal_fold_extends:
  "''..'' \<notin> set ns \<Longrightarrow>
   fst (foldl (normal_step r) (stk, tr) ns) = rev (filter (\<lambda>n. n \<noteq> ''.'') ns) @ stk"
  by (induction ns arbitrary: stk tr) auto

lemma normal_fold_normal_form:
  assumes "normal_form r ns"
  shows "fst (foldl (normal_step r) ([], False) ns) = rev ns"
proof -
  obtain k ms where ns: "ns = replicate k ''..'' @ ms" and k: "r \<longrightarrow> k = 0"
    and ms: "\<forall>n\<in>set ms. proper n" using assms unfolding normal_form_def by blast
  have "fst (foldl (normal_step r) ([], False) (replicate j ''..'')) = replicate j ''..''"
    if "r \<longrightarrow> j = 0" for j
    using that
  proof (induction j)
    case (Suc j)
    obtain tr where "foldl (normal_step r) ([], False) (replicate j ''..'') = (replicate j ''..'', tr)"
      using Suc by (metis not_gr_zero old.nat.distinct(2) prod.collapse)
    then have "foldl (normal_step r) ([], False) (replicate (Suc j) ''..'')
        = normal_step r (replicate j ''..'', tr) ''..''"
      by (simp flip: replicate_append_same)
    then show ?case using Suc.prems by (cases j) simp_all
  qed simp
  then obtain tr where "foldl (normal_step r) ([], False) (replicate k ''..'') = (replicate k ''..'', tr)"
    using k by (metis prod.collapse)
  moreover have "''..'' \<notin> set ms" "filter (\<lambda>n. n \<noteq> ''.'') ms = ms"
    using ms by (auto simp: proper_def filter_id_conv)
  ultimately show ?thesis using normal_fold_extends [of ms r] by (simp add: ns)
qed


lemma normal_names_relative [simp]: "n \<in> set (normal_names p) \<Longrightarrow> is_name n"
  using normal_form_names [OF normal_names_form] by blast

text \<open>
  The names and the root of a normalised path; the path without names normalises to a dot.
\<close>

lemma lexically_normal_shape:
  assumes "p \<noteq> []"
  obtains tl where "lexically_normal p =
      (if is_absolute p then ''/'' else []) @ path_join (normal_names p) @ tl"
    "tl = [] \<or> tl = ''/'' \<and> normal_names p \<noteq> []" "normal_names p \<noteq> [] \<or> is_absolute p"
  | "lexically_normal p = ''.''" "normal_names p = []" "\<not> is_absolute p"
proof -
  obtain stk tr where st: "normal_state p = (stk, tr)" by fastforce
  define slash where "slash \<longleftrightarrow> stk \<noteq> [] \<and> hd stk \<noteq> ''..'' \<and> (tr \<or> ends_in_slash p)"
  have nn: "normal_names p = rev stk" by (simp add: normal_names_def st)
  have "path_join (rev stk) = [] \<longleftrightarrow> stk = []"
    using path_join_Nil_iff [of "rev stk"] normal_names_relative [of _ p] nn by simp
  then have "lexically_normal p =
      (if stk = [] \<and> \<not> is_absolute p then ''.''
       else (if is_absolute p then ''/'' else []) @ path_join (rev stk) @ (if slash then ''/'' else []))"
    using assms unfolding lexically_normal_def Let_def st prod.case slash_def [symmetric]
    by (cases "stk = []"; cases "is_absolute p") (simp_all add: slash_def)
  then show thesis
    using nn that(1) [of "if slash then ''/'' else []"] that(2)
    by (cases "stk = [] \<and> \<not> is_absolute p") (simp_all add: slash_def)
qed

lemma lexically_normal_names:
  assumes "p \<noteq> []"
  shows "is_absolute (lexically_normal p) = is_absolute p"
    and "path_names (lexically_normal p) =
      (if normal_names p = [] \<and> \<not> is_absolute p then [''.''] else normal_names p)"
proof -
  have names: "\<forall>n\<in>set (normal_names p). is_name n" by simp
  note facts = path_names_join [OF names] path_join_relative [OF names] path_join_Nil_iff [OF names]
  have trail: "path_names (path_join (normal_names p) @ tl) = normal_names p"
    if "tl = [] \<or> tl = ''/''" for tl
    using that facts(1) path_names_append [of "path_join (normal_names p)" "[]"] by auto
  show "is_absolute (lexically_normal p) = is_absolute p"
    using assms by (cases rule: lexically_normal_shape)
      (use facts in \<open>auto simp: is_absolute_def hd_append split: if_splits\<close>)
  show "path_names (lexically_normal p) =
      (if normal_names p = [] \<and> \<not> is_absolute p then [''.''] else normal_names p)"
    using assms by (cases rule: lexically_normal_shape) (use trail in auto)
qed

lemma normal_names_normal:
  assumes "p \<noteq> []"
  shows "normal_names (lexically_normal p) = normal_names p"
  using lexically_normal_names [OF assms] normal_fold_normal_form [OF normal_names_form [of p]]
  by (auto simp: normal_names_def [of "lexically_normal p"] normal_state_def [of "lexically_normal p"])

lemma normal_names_path_append:
  assumes "is_path_safe rel"
  shows "normal_names (path_append root rel) =
    normal_names root @ filter (\<lambda>n. n \<noteq> ''.'') (path_names rel)"
proof -
  have safe: "''..'' \<notin> set (path_names rel)" "\<not> is_absolute rel"
    using safe_path_names [OF assms] by simp_all
  obtain stk tr where st: "normal_state root = (stk, tr)" by fastforce
  have "is_absolute (path_append root rel) = is_absolute root"
    "path_names (path_append root rel) = path_names root @ path_names rel"
    using safe(2) by (simp_all add: is_absolute_path_append path_names_path_append)
  then have "fst (normal_state (path_append root rel)) =
      rev (filter (\<lambda>n. n \<noteq> ''.'') (path_names rel)) @ stk"
    using st normal_fold_extends [OF safe(1)] by (simp add: normal_state_def)
  then show ?thesis by (simp add: normal_names_def st)
qed

lemma resolve_dest_Some:
  assumes "resolve_dest root rel = Some dest"
  shows "is_path_safe rel" "dest = lexically_normal (path_append root rel)"
    "starts_with dest (lexically_normal root)" "path_append root rel \<noteq> []"
proof -
  show "is_path_safe rel" "dest = lexically_normal (path_append root rel)"
    "starts_with dest (lexically_normal root)"
    using assms by (auto simp: resolve_dest_def Let_def split: if_splits)
  then show "path_append root rel \<noteq> []" by (auto simp: is_path_safe_def path_append_def)
qed


lemma path_join_append:
  "ns \<noteq> [] \<Longrightarrow> ms \<noteq> [] \<Longrightarrow> path_join (ns @ ms) = path_join ns @ ''/'' @ path_join ms"
proof (induction ns rule: path_join.induct)
  case (2 n)
  then show ?case by (cases ms) simp_all
qed simp_all

lemma starts_with_append [simp]: "starts_with (s @ t) s"
  by (simp add: starts_with_def)

lemma starts_with_cancel [simp]: "starts_with (r @ s) (r @ t) = starts_with s t"
  by (simp add: starts_with_def)

text \<open>A file under the destination: suffixes stay in the directory of the destination.\<close>

lemma suffix_names:
  assumes "sfx \<noteq> []" "CHR ''/'' \<notin> set sfx"
  shows "path_names (p @ sfx) =
    (if p = [] \<or> ends_in_slash p then path_names p @ [sfx]
     else butlast (path_names p) @ [last (path_names p) @ sfx])"
proof (cases "p = [] \<or> ends_in_slash p")
  case True
  then show ?thesis
    using assms path_names_trailing [of p sfx] by (auto simp: is_name_def path_names_Nil)
next
  case False
  obtain r n where p: "split_slash p = r @ [n]" by (metis rev_exhaust split_slash_not_Nil)
  have "split_slash (q @ sfx) = butlast (split_slash q) @ [last (split_slash q) @ sfx]" for q
  proof (induction q)
    case Nil
    then show ?case using assms(2) by (simp add: split_slash_no_slash)
  next
    case (Cons c q)
    then show ?case by (cases "split_slash q") (auto split: list.splits)
  qed
  then have "split_slash (p @ sfx) = r @ [n @ sfx]" using p by simp
  moreover have "n \<noteq> []"
  proof
    assume "n = []"
    moreover have "split_slash q \<noteq> [] \<and> (last (split_slash q) = [] \<longrightarrow> q = [] \<or> ends_in_slash q)" for q
      by (induction q) (auto simp: ends_in_slash_def split: list.splits if_splits)
    ultimately show False using p False by (metis last_snoc)
  qed
  ultimately show ?thesis using False p assms(1) by (simp add: path_names_def)
qed

text \<open>
  Normalising the root with a safe path appended: the normalised root is a prefix, unless the root
  has no name and is relative.
\<close>

lemma normal_slash:
  assumes "is_path_safe rel" "filter (\<lambda>n. n \<noteq> ''.'') (path_names rel) = []"
  shows "normal_state (path_append root rel) = (fst (normal_state root), True)"
proof -
  have "path_names rel \<noteq> []"
  proof
    assume e: "path_names rel = []"
    obtain c cs where "rel = c # cs" "c \<noteq> CHR ''/''"
      using assms(1) by (cases rel) (auto simp: is_path_safe_def is_absolute_def)
    then show False using e by (cases "split_slash cs") (auto simp: path_names_def)
  qed
  moreover have "\<forall>n\<in>set (path_names rel). n = ''.''" using assms(2) by (simp add: filter_empty_conv)
  moreover have "foldl (normal_step r) (stk, tr) ns = (stk, ns \<noteq> [] \<or> tr)"
    if "\<forall>n\<in>set ns. n = ''.''" for r stk tr ns
    using that by (induction ns arbitrary: tr) simp_all
  ultimately show ?thesis
    using safe_path_names [OF assms(1)]
    by (cases "normal_state root")
      (simp add: normal_state_def is_absolute_path_append path_names_path_append)
qed

lemma resolve_dest_accepts:
  assumes safe: "is_path_safe rel" and root: "root \<noteq> []" "normal_names root \<noteq> [] \<or> is_absolute root"
  shows "resolve_dest root rel = Some (lexically_normal (path_append root rel))"
proof -
  let ?p = "path_append root rel" and ?ms = "filter (\<lambda>n. n \<noteq> ''.'') (path_names rel)"
  have p: "?p \<noteq> []" "is_absolute ?p = is_absolute root"
    using safe root by (auto simp: path_append_def is_path_safe_def is_absolute_def)
  have names: "normal_names ?p = normal_names root @ ?ms" by (rule normal_names_path_append [OF safe])
  have "starts_with (lexically_normal ?p) (lexically_normal root)"
  proof (cases "?ms = []")
    case True
    then have "fst (normal_state ?p) = fst (normal_state root)" "snd (normal_state ?p)"
      using normal_slash [OF safe True] by simp_all
    moreover have "path_join (rev (fst (normal_state root))) = [] \<longleftrightarrow> normal_names root = []"
      using path_join_Nil_iff [of "normal_names root"] by (simp add: normal_names_def)
    ultimately show ?thesis
      using p root by (auto simp: lexically_normal_def Let_def normal_names_def starts_with_def
          split: prod.splits if_splits)
  next
    case False
    obtain t where t: "lexically_normal root =
        (if is_absolute root then ''/'' else []) @ path_join (normal_names root) @ t"
      "t = [] \<or> t = ''/'' \<and> normal_names root \<noteq> []"
      using root by (cases rule: lexically_normal_shape [OF root(1)]) auto
    obtain u where u: "lexically_normal ?p =
        (if is_absolute root then ''/'' else []) @ path_join (normal_names root @ ?ms) @ u"
      using p names False by (cases rule: lexically_normal_shape [OF p(1)]) auto
    show ?thesis
    proof (cases "normal_names root = []")
      case True
      then show ?thesis using t u by (simp add: starts_with_def)
    next
      case False
      then show ?thesis using t u path_join_append [OF False \<open>?ms \<noteq> []\<close>]
        by (auto simp: starts_with_def)
    qed
  qed
  then show ?thesis using safe by (simp add: resolve_dest_def Let_def)
qed

text \<open>A parent is shorter than its path, so no path is among the directories above it.\<close>

lemma split_slash_all_slashes: "\<forall>c\<in>set p. c = CHR ''/'' \<Longrightarrow> path_names p = []"
  by (induction p) (simp_all add: path_names_def)

lemma length_path_parent:
  assumes "path_names p \<noteq> []"
  shows "length (path_parent p) < length p"
proof -
  let ?a = "dropWhile (\<lambda>c. c \<noteq> CHR ''/'') (rev p)"
  let ?b = "dropWhile (\<lambda>c. c = CHR ''/'') ?a"
  have ne: "p \<noteq> []" "\<exists>c\<in>set p. c \<noteq> CHR ''/''"
    using assms split_slash_all_slashes [of p] by auto
  then obtain q c where p: "rev p = c # q" by (cases "rev p") simp_all
  have "length ?b < length p"
  proof (cases "c = CHR ''/''")
    case True
    then have "?b = dropWhile (\<lambda>c. c = CHR ''/'') q" using p by simp
    then show ?thesis using length_dropWhile_le [of "\<lambda>c. c = CHR ''/''" q] arg_cong [OF p, of length] by simp
  next
    case False
    then have "length ?a \<le> length q" using p length_dropWhile_le by simp
    then show ?thesis
      using length_dropWhile_le [of "\<lambda>c. c = CHR ''/''" ?a] arg_cong [OF p, of length] by simp
  qed
  moreover have "1 < length p" if "is_absolute p"
  proof -
    have "p \<noteq> [CHR ''/'']" using ne(2) by auto
    moreover have "hd p = CHR ''/''" using that by (simp add: is_absolute_def)
    ultimately show ?thesis using ne(1) by (cases p; cases "tl p") auto
  qed
  ultimately show ?thesis using assms by (auto simp: path_parent_def Let_def)
qed

lemma resolve_dest_names:
  assumes "resolve_dest root rel = Some dest"
  shows "normal_names dest = normal_names root @ filter (\<lambda>n. n \<noteq> ''.'') (path_names rel) \<and>
    ''..'' \<notin> set (path_names rel) \<and> is_absolute dest = is_absolute root"
proof -
  note r = resolve_dest_Some [OF assms]
  have "normal_names dest = normal_names root @ filter (\<lambda>n. n \<noteq> ''.'') (path_names rel)"
    using r normal_names_normal normal_names_path_append by simp
  moreover have "''..'' \<notin> set (path_names rel)" "is_absolute dest = is_absolute root"
    using r safe_path_names [OF r(1)] lexically_normal_names(1) [OF r(4)]
    by (auto simp: is_absolute_path_append)
  ultimately show ?thesis by blast
qed

subsection \<open>Properties\<close>

text \<open>
  C15. The path jail. A destination the server resolves from a received path is the root with
  further names appended: after lexical normalisation the names of the root are a prefix of those
  of the destination, and what follows are the names of the received path without dots, none of
  them a dot-dot. In particular the destination is absolute exactly when the root is.
\<close>

theorem resolve_dest_jail:
  assumes "resolve_dest root rel = Some dest"
  shows "normal_names dest = normal_names root @ filter (\<lambda>n. n \<noteq> ''.'') (path_names rel) \<and>
    ''..'' \<notin> set (path_names rel) \<and> is_absolute dest = is_absolute root"
  by (rule resolve_dest_names [OF assms])

theorem resolve_dest_jail_witness:
  "resolve_dest ''/srv'' ''a/./b'' = Some ''/srv/a/b'' \<and>
   normal_names ''/srv/a/b'' = normal_names ''/srv'' @ [''a'', ''b'']"
proof -
  have "resolve_dest ''/srv'' ''a/./b'' = Some ''/srv/a/b''" by code_simp
  from resolve_dest_jail [OF this] show ?thesis using \<open>resolve_dest _ _ = _\<close>
    by (simp add: path_names_def)
qed

text \<open>
  C16. Exactly the safe paths are accepted: with a root that is not empty and does not normalise to
  the current directory, a path is resolved if and only if it is not empty, is relative and has no
  dot-dot among its names.
\<close>

theorem resolve_dest_exact:
  assumes "root \<noteq> []" "normal_names root \<noteq> [] \<or> is_absolute root"
  shows "resolve_dest root rel \<noteq> None \<longleftrightarrow>
    rel \<noteq> [] \<and> \<not> is_absolute rel \<and> ''..'' \<notin> set (path_names rel)"
proof
  assume "resolve_dest root rel \<noteq> None"
  then have "is_path_safe rel" using resolve_dest_Some(1) by blast
  then show "rel \<noteq> [] \<and> \<not> is_absolute rel \<and> ''..'' \<notin> set (path_names rel)"
    by (simp add: is_path_safe_def path_elements_safe)
next
  assume "rel \<noteq> [] \<and> \<not> is_absolute rel \<and> ''..'' \<notin> set (path_names rel)"
  then have "is_path_safe rel" by (simp add: is_path_safe_def path_elements_safe)
  then show "resolve_dest root rel \<noteq> None" using resolve_dest_accepts assms by simp
qed

theorem resolve_dest_exact_witness:
  "resolve_dest ''in'' ''../x'' = None \<and> resolve_dest ''in'' ''y/x'' \<noteq> None"
proof -
  have "normal_names ''in'' \<noteq> [] \<or> is_absolute ''in''" by code_simp
  note ex = resolve_dest_exact [OF _ this]
  have "''..'' \<in> set (path_names ''../x'')" "''..'' \<notin> set (path_names ''y/x'')"
    "\<not> is_absolute ''y/x''" by code_simp+
  then show ?thesis using ex [of "''../x''"] ex [of "''y/x''"] by auto
qed

text \<open>
  A server whose root is the current directory rejects ordinary paths: the normal form of the
  root is a dot, which is not a prefix of the normalised destination, so every path whose first
  name does not itself begin with a dot is refused.
\<close>

theorem dot_root_rejects:
  assumes "path_names rel = n # ns" "hd n \<noteq> CHR ''.''"
  shows "resolve_dest ''.'' rel = None"
proof (rule ccontr)
  assume "resolve_dest ''.'' rel \<noteq> None"
  then obtain dest where d: "resolve_dest ''.'' rel = Some dest" by blast
  note r = resolve_dest_Some [OF d]
  have n: "is_name n" using path_names_are_names [of n rel] assms(1) by simp
  have root: "normal_names ''.'' = []" "lexically_normal ''.'' = ''.''" "\<not> is_absolute ''.''"
    by code_simp+
  have rel: "\<not> is_absolute (path_append ''.'' rel)"
    using safe_path_names [OF r(1)] root by (simp add: is_absolute_path_append)
  have "n \<noteq> ''.''" using assms(2) by auto
  then have names: "normal_names (path_append ''.'' rel) = n # filter (\<lambda>n. n \<noteq> ''.'') ns"
    using normal_names_path_append [OF r(1), of "''.''"] root assms(1) by simp
  have hd: "hd (path_join (n # ms) @ t) = hd n \<and> path_join (n # ms) \<noteq> []" for ms t
    using n by (cases ms) (auto simp: is_name_def)
  obtain t where "dest = path_join (normal_names (path_append ''.'' rel)) @ t"
    unfolding r(2) using rel names by (cases rule: lexically_normal_shape [OF r(4)]) auto
  then have "hd dest = hd n" "dest \<noteq> []" using names hd by auto
  then show False using r(3) root assms(2) by (cases dest) (auto simp: starts_with_def)
qed

theorem dot_root_rejects_witness: "resolve_dest ''.'' ''data/report.csv'' = None"
proof -
  have "path_names ''data/report.csv'' = [''data'', ''report.csv'']" by code_simp
  then show ?thesis by (rule dot_root_rejects) simp
qed

end
