(* ===== verification/Ftx_File_Sink.thy ===== *)
theory Ftx_File_Sink
  imports Ftx_Filesystem Ftx_Path
begin

text \<open>
  \<^verbatim>\<open>include/ftx/io/file_sink.hpp\<close> and \<^verbatim>\<open>src/lib/io/file_sink.cpp\<close>: the receiver's random-access
  file, written under a \<^verbatim>\<open>.partial\<close> name and renamed into place. Every operation returns its
  result, the sink and the world.
\<close>

record FileSink =
  sk_final_path :: string
  sk_partial_path :: string
  sk_stream :: ofstream
  sk_total_size :: u64
  sk_last_error :: string

definition with_partial_suffix :: "string \<Rightarrow> string" where
  "with_partial_suffix p = p @ ''.partial''"

definition new_FileSink :: "string \<Rightarrow> FileSink" where
  "new_FileSink p =
     \<lparr>sk_final_path = p, sk_partial_path = with_partial_suffix p, sk_stream = closed_ofstream,
      sk_total_size = 0, sk_last_error = ''''\<rparr>"

text \<open>The second part of \<^verbatim>\<open>open\<close>: create or truncate the file and extend it to its size.\<close>

definition FileSink_open_fresh :: "world \<Rightarrow> FileSink \<Rightarrow> u64 \<Rightarrow> bool \<times> FileSink \<times> world" where
  "FileSink_open_fresh w k total_size =
     (let (s, w) = os_open_trunc w (sk_partial_path k);
          k = k\<lparr>sk_stream := s\<rparr>
      in if \<not> os_open s then
           (False, k\<lparr>sk_last_error := ''failed to open '' @ sk_partial_path k\<rparr>, w)
         else if total_size > 0 then
           let (s, w) = os_seekp w s (total_size - 1);
               (s, w) = os_write w s [0];
               k = k\<lparr>sk_stream := s\<rparr>
           in if \<not> os_good s then
                (False,
                 k\<lparr>sk_last_error := ''failed to pre-size sink to '' @ dec_string (unat total_size)\<rparr>, w)
              else (True, k, w)
         else (True, k, w))"

definition FileSink_open :: "world \<Rightarrow> FileSink \<Rightarrow> u64 \<Rightarrow> bool \<Rightarrow> bool \<times> FileSink \<times> world" where
  "FileSink_open w k total_size resume_existing =
     (let k = k\<lparr>sk_total_size := total_size\<rparr>;
          w = fs_create_directories w (path_parent (sk_final_path k))
      in if resume_existing then
           let ((found, stat_ec), w) = fs_exists w (sk_partial_path k);
               ((cur_size, stat_ec), w) =
                 (if found then fs_file_size w (sk_partial_path k) else ((0, stat_ec), w))
           in if \<not> stat_ec \<and> cur_size \<ge> total_size then
                let (s, w) = os_open_inout w (sk_partial_path k)
                in if os_open s then (True, k\<lparr>sk_stream := s\<rparr>, w)
                   else FileSink_open_fresh w (k\<lparr>sk_stream := s\<rparr>) total_size
              else FileSink_open_fresh w k total_size
         else FileSink_open_fresh w k total_size)"

definition FileSink_write_at ::
    "world \<Rightarrow> FileSink \<Rightarrow> u64 \<Rightarrow> bytes \<Rightarrow> bool \<times> FileSink \<times> world" where
  "FileSink_write_at w k off d =
     (if \<not> os_open (sk_stream k) then
        (False, k\<lparr>sk_last_error := ''write_at on closed sink''\<rparr>, w)
      else if off + word_of_nat (length d) > sk_total_size k then
        (False, k\<lparr>sk_last_error := ''write_at: range exceeds declared total size''\<rparr>, w)
      else let (s, w) = os_seekp w (sk_stream k) off
           in if \<not> os_good s then
                (False, k\<lparr>sk_stream := s, sk_last_error := ''seekp failed''\<rparr>, w)
              else let (s, w) = os_write w s d
                   in if \<not> os_good s then
                        (False, k\<lparr>sk_stream := s, sk_last_error := ''write failed''\<rparr>, w)
                      else (True, k\<lparr>sk_stream := s\<rparr>, w))"

definition FileSink_flush :: "world \<Rightarrow> FileSink \<Rightarrow> bool \<times> FileSink \<times> world" where
  "FileSink_flush w k =
     (if \<not> os_open (sk_stream k) then (True, k, w)
      else let (s, w) = os_sync w (sk_stream k)
           in if \<not> os_good s then
                (False, k\<lparr>sk_stream := s, sk_last_error := ''flush failed''\<rparr>, w)
              else (True, k\<lparr>sk_stream := s\<rparr>, w))"

text \<open>
  \<^verbatim>\<open>finalize\<close>. The text of an error code, \<^verbatim>\<open>ec.message()\<close>, is the operating system's and an
  argument here.
\<close>

definition FileSink_finalize :: "string \<Rightarrow> world \<Rightarrow> FileSink \<Rightarrow> bool \<times> FileSink \<times> world" where
  "FileSink_finalize ec_message w k =
     (let (k, w) =
        (if os_open (sk_stream k) then
           let (s, w) = os_sync w (sk_stream k);
               (s, w) = os_close w s
           in (k\<lparr>sk_stream := s\<rparr>, w)
         else (k, w));
          (ok, w) = fs_rename w (sk_partial_path k) (sk_final_path k)
      in if ok then (True, k, w)
         else let (_, w) = fs_remove w (sk_final_path k);
                  (ok, w) = fs_rename w (sk_partial_path k) (sk_final_path k)
              in if ok then (True, k, w)
                 else (False, k\<lparr>sk_last_error := ''rename failed: '' @ ec_message\<rparr>, w))"

text \<open>\<^verbatim>\<open>close\<close>; the destructor of the stream does the same at the end of a session.\<close>

definition FileSink_close :: "world \<Rightarrow> FileSink \<Rightarrow> FileSink \<times> world" where
  "FileSink_close w k =
     (if os_open (sk_stream k) then
        let (s, w) = os_close w (sk_stream k) in (k\<lparr>sk_stream := s\<rparr>, w)
      else (k, w))"

subsection \<open>What a sink holds\<close>

text \<open>
  The logical content of a sink is its file with the bytes still in the stream buffer applied.
\<close>

definition sink_view :: "world \<Rightarrow> FileSink \<Rightarrow> bytes" where
  "sink_view w k =
     overwrite (content w (sk_partial_path k)) (os_base (sk_stream k)) (os_pending (sk_stream k))"

definition sink_ready :: "world \<Rightarrow> FileSink \<Rightarrow> bool" where
  "sink_ready w k \<longleftrightarrow>
     os_open (sk_stream k) \<and> os_good (sk_stream k) \<and> os_path (sk_stream k) = sk_partial_path k \<and>
     (\<exists>c. files w (sk_partial_path k) = Some (Regular c))"

text \<open>Two sinks for the same file.\<close>

definition same_sink :: "FileSink \<Rightarrow> FileSink \<Rightarrow> bool" where
  "same_sink k k' \<longleftrightarrow>
     sk_final_path k' = sk_final_path k \<and> sk_partial_path k' = sk_partial_path k \<and>
     sk_total_size k' = sk_total_size k \<and> os_path (sk_stream k') = os_path (sk_stream k) \<and>
     os_open (sk_stream k') = os_open (sk_stream k)"

lemma same_sink_refl [simp, intro]: "same_sink k k"
  by (simp add: same_sink_def)

lemma same_sink_trans [trans]: "same_sink k k' \<Longrightarrow> same_sink k' k'' \<Longrightarrow> same_sink k k''"
  by (simp add: same_sink_def)

lemma content_drain:
  "content (os_drain w s d) (os_path s) = overwrite (content w (os_path s)) (os_base s) d"
  by (simp add: os_drain_def content_def)

lemma os_sync_good:
  assumes "os_sync w s = (s', w')" "os_good s'"
  shows "os_good s" "os_pending s' = []" "os_path s' = os_path s" "os_open s' = os_open s"
    "content w' (os_path s) = overwrite (content w (os_path s)) (os_base s) (os_pending s)"
    "files w (os_path s) = Some (Regular c) \<Longrightarrow> \<exists>c'. files w' (os_path s) = Some (Regular c')"
proof -
  obtain e w0 where e: "next_fault w = (e, w0)" by fastforce
  have "os_good s \<and> e = NoFault" using assms e
    by (auto simp: os_sync_def split: if_splits fault.splits)
  then have *: "os_good s" "s' = s\<lparr>os_base := os_base s + length (os_pending s), os_pending := []\<rparr>"
    "w' = os_drain w0 s (os_pending s)" using assms e by (simp_all add: os_sync_def)
  show "os_good s" "os_pending s' = []" "os_path s' = os_path s" "os_open s' = os_open s"
    using * by simp_all
  show "content w' (os_path s) = overwrite (content w (os_path s)) (os_base s) (os_pending s)"
    using * next_fault_content [OF e] by (simp add: content_drain)
  show "\<exists>c'. files w' (os_path s) = Some (Regular c')" if "files w (os_path s) = Some (Regular c)"
    using * that next_fault_files [OF e] by (auto simp: os_drain_def)
qed

lemma os_seekp_good:
  assumes "os_seekp w s off = (s', w')" "os_good s'"
  shows "os_good s" "os_pending s' = []" "os_base s' = unat off"
    "content w' (os_path s) = overwrite (content w (os_path s)) (os_base s) (os_pending s)"
    "files w (os_path s) = Some (Regular c) \<Longrightarrow> \<exists>c'. files w' (os_path s) = Some (Regular c')"
proof -
  obtain s1 w1 where sy: "os_sync w s = (s1, w1)" by fastforce
  have s1: "os_good s1" "w' = w1" "s' = s1\<lparr>os_base := unat off\<rparr>"
    using assms sy by (auto simp: os_seekp_def split: if_splits)
  note g = os_sync_good [OF sy s1(1)]
  show "os_good s" "os_pending s' = []" "os_base s' = unat off"
    "content w' (os_path s) = overwrite (content w (os_path s)) (os_base s) (os_pending s)"
    "files w (os_path s) = Some (Regular c) \<Longrightarrow> \<exists>c'. files w' (os_path s) = Some (Regular c')"
    using g s1 by simp_all
qed

lemma os_write_good:
  assumes "os_write w s d = (s', w')" "os_good s'"
  shows "os_good s" "s' = s\<lparr>os_pending := os_pending s @ d\<rparr>" "files w' = files w"
  using assms
  by (auto simp: os_write_def split: if_splits prod.splits fault.splits)

lemma content_cong: "files w p = files w' p \<Longrightarrow> content w p = content w' p"
  by (simp add: content_def)

lemma write_at_ok:
  assumes "sink_ready w k" "FileSink_write_at w k off d = (True, k', w')"
    and "unat off + length d < 2 ^ 64"
  shows "sink_ready w' k'" "sink_view w' k' = overwrite (sink_view w k) (unat off) d"
    "same_sink k k'" "unat off + length d \<le> unat (sk_total_size k)"
    "files w' (sk_partial_path k) = Some (Regular (sink_view w k))"
proof -
  obtain s1 w1 where 1: "os_seekp w (sk_stream k) off = (s1, w1)" by fastforce
  obtain s2 w2 where 2: "os_write w1 s1 d = (s2, w2)" by fastforce
  have r: "os_open (sk_stream k)" "\<not> off + word_of_nat (length d) > sk_total_size k"
    "os_good s1" "os_good s2" "k' = k\<lparr>sk_stream := s2\<rparr>" "w' = w2"
    using assms(1,2) 1 2 by (auto simp: FileSink_write_at_def sink_ready_def split: if_splits)
  note seek = os_seekp_good [OF 1 r(3)] and wr = os_write_good [OF 2 r(4)]
  have s1: "os_path s1 = sk_partial_path k" "os_open s1"
    using assms(1) os_seekp_same [of w "sk_stream k" off] 1 by (simp_all add: sink_ready_def)
  have path: "os_path (sk_stream k) = sk_partial_path k" using assms(1) by (simp add: sink_ready_def)
  have c: "content w2 (sk_partial_path k) = sink_view w k"
    using wr(3) seek(4) path content_cong [of w2 _ w1] by (simp add: sink_view_def)
  show ready: "sink_ready w' k'"
    using assms(1) r wr s1 seek(5) path by (auto simp: sink_ready_def)
  then show "files w' (sk_partial_path k) = Some (Regular (sink_view w k))"
    using c r(5,6) by (auto simp: sink_ready_def content_def)
  show "sink_view w' k' = overwrite (sink_view w k) (unat off) d"
    using c r(5,6) wr(2) seek(2,3) by (simp add: sink_view_def [of w2])
  show "same_sink k k'"
    using r(5) wr(2) s1 path r(1) by (simp add: same_sink_def)
  have "unat (off + word_of_nat (length d)) = unat off + length d"
    using assms(3) by (simp add: unat_plus_if')
  then show "unat off + length d \<le> unat (sk_total_size k)"
    using r(2) by (simp add: word_le_nat_alt not_less)
qed

lemma flush_ok:
  assumes "sink_ready w k" "FileSink_flush w k = (True, k', w')"
  shows "sink_ready w' k'" "sink_view w' k' = sink_view w k"
    "content w' (sk_partial_path k) = sink_view w k" "same_sink k k'" "os_pending (sk_stream k') = []"
proof -
  obtain s1 w1 where 1: "os_sync w (sk_stream k) = (s1, w1)" by fastforce
  have r: "os_open (sk_stream k)" "os_good s1" "k' = k\<lparr>sk_stream := s1\<rparr>" "w' = w1"
    using assms 1 by (auto simp: FileSink_flush_def sink_ready_def split: if_splits)
  note sy = os_sync_good [OF 1 r(2)]
  have path: "os_path (sk_stream k) = sk_partial_path k" using assms(1) by (simp add: sink_ready_def)
  show "sink_ready w' k'" using assms(1) r sy path by (auto simp: sink_ready_def)
  show c: "content w' (sk_partial_path k) = sink_view w k" using r(4) sy(5) path by (simp add: sink_view_def)
  show "sink_view w' k' = sink_view w k" using c r sy by (simp add: sink_view_def [of w1])
  show "same_sink k k'" "os_pending (sk_stream k') = []" using r sy by (simp_all add: same_sink_def)
qed


subsection \<open>What an operation can change\<close>

lemma write_at_frame:
  assumes "FileSink_write_at w k off d = (ok, k', w')"
  shows "unchanged_outside {os_path (sk_stream k)} w w'" "same_sink k k'"
proof -
  obtain s1 w1 where 1: "os_seekp w (sk_stream k) off = (s1, w1)" by fastforce
  obtain s2 w2 where 2: "os_write w1 s1 d = (s2, w2)" by fastforce
  have s: "os_path s1 = os_path (sk_stream k)" "os_open s1 = os_open (sk_stream k)"
    "os_path s2 = os_path (sk_stream k)" "os_open s2 = os_open (sk_stream k)"
    using os_seekp_same [of w "sk_stream k" off] os_write_same [of w1 s1 d] 1 2 by simp_all
  have u: "unchanged_outside {os_path (sk_stream k)} w w1" "unchanged_outside {os_path (sk_stream k)} w w2"
    using os_seekp_unchanged [of "sk_stream k" w off] os_write_unchanged [of s1 w1 d] 1 2 s
    by (auto intro: unchanged_trans)
  show "unchanged_outside {os_path (sk_stream k)} w w'" "same_sink k k'"
    using assms 1 2 u s by (auto simp: FileSink_write_at_def same_sink_def split: if_splits)
qed

lemma flush_frame:
  assumes "FileSink_flush w k = (ok, k', w')"
  shows "unchanged_outside {os_path (sk_stream k)} w w'" "same_sink k k'"
proof -
  obtain s1 w1 where 1: "os_sync w (sk_stream k) = (s1, w1)" by fastforce
  then have "unchanged_outside {os_path (sk_stream k)} w w1"
    "os_path s1 = os_path (sk_stream k)" "os_open s1 = os_open (sk_stream k)"
    using os_sync_unchanged [of "sk_stream k" w] os_sync_same [OF 1] by simp_all
  then show "unchanged_outside {os_path (sk_stream k)} w w'" "same_sink k k'"
    using assms 1 by (auto simp: FileSink_flush_def same_sink_def split: if_splits)
qed

lemma close_frame:
  assumes "FileSink_close w k = (k', w')"
  shows "unchanged_outside {os_path (sk_stream k)} w w'"
    and "\<not> os_open (sk_stream k) \<Longrightarrow> w' = w"
proof -
  obtain s1 w1 where 1: "os_close w (sk_stream k) = (s1, w1)" by fastforce
  then have "unchanged_outside {os_path (sk_stream k)} w w1"
    using os_close_unchanged [of "sk_stream k" w] by simp
  then show "unchanged_outside {os_path (sk_stream k)} w w'"
    and "\<not> os_open (sk_stream k) \<Longrightarrow> w' = w"
    using assms 1 by (auto simp: FileSink_close_def split: if_splits)
qed

lemma open_fresh_frame:
  assumes "FileSink_open_fresh w k total_size = (ok, k', w')"
  shows "unchanged_outside {sk_partial_path k} w w'"
    and "os_open (sk_stream k') \<Longrightarrow> os_path (sk_stream k') = sk_partial_path k"
    and "sk_final_path k' = sk_final_path k" "sk_partial_path k' = sk_partial_path k"
proof -
  obtain s1 w1 where 1: "os_open_trunc w (sk_partial_path k) = (s1, w1)" by fastforce
  obtain s2 w2 where 2: "os_seekp w1 s1 (total_size - 1) = (s2, w2)" by fastforce
  obtain s3 w3 where 3: "os_write w2 s2 [0] = (s3, w3)" by fastforce
  have s: "os_path s2 = os_path s1" "os_open s2 = os_open s1" "os_path s3 = os_path s1" "os_open s3 = os_open s1"
    using os_seekp_same [of w1 s1 "total_size - 1"] os_write_same [of w2 s2 "[0]"] 2 3 by simp_all
  have s1: "os_open s1 \<Longrightarrow> os_path s1 = sk_partial_path k"
    using 1 by (auto simp: os_open_trunc_def opened_ofstream_def closed_ofstream_def
        split: prod.splits if_splits)
  have u1: "unchanged_outside {sk_partial_path k} w w1"
    using os_open_trunc_unchanged [of "sk_partial_path k" w] 1 by simp
  have u3: "unchanged_outside {sk_partial_path k} w w3" if "os_open s1"
    using that u1 s1 s os_seekp_unchanged [of s1 w1 "total_size - 1"] os_write_unchanged [of s2 w2 "[0]"] 2 3
    by (auto intro: unchanged_trans)
  show "unchanged_outside {sk_partial_path k} w w'"
    and "os_open (sk_stream k') \<Longrightarrow> os_path (sk_stream k') = sk_partial_path k"
    and "sk_final_path k' = sk_final_path k" "sk_partial_path k' = sk_partial_path k"
    using assms 1 2 3 s s1 u1 u3 by (auto simp: FileSink_open_fresh_def Let_def split: if_splits)
qed

text \<open>A fresh sink holds zeros; a reused one holds what the file held, at least the declared size.\<close>

lemma open_fresh_ok:
  assumes "FileSink_open_fresh w k total_size = (True, k', w')"
  shows "sink_ready w' k'" "sink_view w' k' = replicate (unat total_size) 0"
    "sk_total_size k' = sk_total_size k"
proof -
  obtain s1 w1 where 1: "os_open_trunc w (sk_partial_path k) = (s1, w1)" by fastforce
  obtain s2 w2 where 2: "os_seekp w1 s1 (total_size - 1) = (s2, w2)" by fastforce
  obtain s3 w3 where 3: "os_write w2 s2 [0] = (s3, w3)" by fastforce
  have o: "os_open s1" using assms 1 by (auto simp: FileSink_open_fresh_def Let_def split: if_splits)
  have s1: "s1 = opened_ofstream (sk_partial_path k)" "files w1 (sk_partial_path k) = Some (Regular [])"
    using 1 o by (auto simp: os_open_trunc_def closed_ofstream_def split: prod.splits if_splits)
  have "sink_ready w' k' \<and> sink_view w' k' = replicate (unat total_size) 0 \<and>
    sk_total_size k' = sk_total_size k"
  proof (cases "total_size > 0")
    case False
    then have "total_size = 0" by (simp add: not_less)
    then show ?thesis using assms 1 o s1
      by (auto simp: FileSink_open_fresh_def Let_def sink_ready_def sink_view_def opened_ofstream_def content_def)
  next
    case True
    then have r: "os_good s3" "k' = k\<lparr>sk_stream := s3\<rparr>" "w' = w3"
      using assms 1 2 3 o by (auto simp: FileSink_open_fresh_def Let_def split: if_splits)
    note wr = os_write_good [OF 3 r(1)]
    note seek = os_seekp_good [OF 2 wr(1)]
    have same: "os_path s2 = sk_partial_path k" "os_open s2"
      using os_seekp_same [of w1 s1 "total_size - 1"] s1(1) unfolding 2
      by (simp_all add: opened_ofstream_def)
    have "unat total_size > 0" using True by (simp add: word_less_nat_alt)
    then have size: "unat (total_size - 1) = unat total_size - 1" by (rule unat_pred)
    have "content w2 (sk_partial_path k) = []"
      using seek(4) s1 by (simp add: opened_ofstream_def content_def)
    then have "content w3 (sk_partial_path k) = []" using wr(3) content_cong by metis
    then have "sink_view w' k' = replicate (unat total_size - 1) 0 @ [0]"
      using r wr(2) seek(2,3) size by (simp add: sink_view_def overwrite_def)
    moreover have "replicate (unat total_size - 1) 0 @ [0] = replicate (unat total_size) (0 :: byte)"
      using \<open>unat total_size > 0\<close> by (metis Suc_pred' replicate_Suc replicate_append_same)
    moreover have "sink_ready w' k'"
      using r wr same seek(5) s1 by (auto simp: sink_ready_def opened_ofstream_def)
    ultimately show ?thesis using r by simp
  qed
  then show "sink_ready w' k'" "sink_view w' k' = replicate (unat total_size) 0"
    "sk_total_size k' = sk_total_size k" by auto
qed


text \<open>
  What \<^verbatim>\<open>open\<close> promises: it makes directories on the way and touches the partial file only, and on success
  the sink holds zeros, or what a partial file of at least the declared size held.
\<close>

definition opens :: "world \<Rightarrow> FileSink \<Rightarrow> u64 \<Rightarrow> bool \<Rightarrow> bool \<Rightarrow> FileSink \<Rightarrow> world \<Rightarrow> bool" where
  "opens w k total_size resume ok k' w' \<longleftrightarrow>
     only_dirs (set (dir_prefixes (path_parent (sk_final_path k)))) {sk_partial_path k} w w' \<and>
     (os_open (sk_stream k') \<longrightarrow> os_open (sk_stream k) \<or> os_path (sk_stream k') = sk_partial_path k) \<and>
     sk_final_path k' = sk_final_path k \<and> sk_partial_path k' = sk_partial_path k \<and>
     (ok \<longrightarrow> sink_ready w' k' \<and> sk_total_size k' = total_size \<and>
       (sink_view w' k' = replicate (unat total_size) 0 \<or>
        resume \<and> (\<exists>c. files w (sk_partial_path k) = Some (Regular c) \<and> sink_view w' k' = c \<and>
          word_of_nat (length c) \<ge> total_size)))"

lemma open_fresh_opens:
  assumes "FileSink_open_fresh v k1 total_size = (ok, k2, v2)"
    and "files v = files (fs_create_directories w (path_parent (sk_final_path k)))"
    and "sk_partial_path k1 = sk_partial_path k" "sk_final_path k1 = sk_final_path k" "sk_total_size k1 = total_size"
  shows "opens w k total_size resume ok k2 v2"
proof -
  have "only_dirs (set (dir_prefixes (path_parent (sk_final_path k)))) {sk_partial_path k} w v"
    using create_directories_only_dirs [of "path_parent (sk_final_path k)" "{sk_partial_path k}" w] assms(2) by (simp add: only_dirs_def)
  then show ?thesis
    using open_fresh_frame [OF assms(1)] assms(3-) open_fresh_ok [of v k1 total_size k2 v2] assms(1)
    by (auto simp: opens_def intro: only_dirs_then_unchanged)
qed

lemma open_reuse_opens:
  assumes w0: "w0 = fs_create_directories w (path_parent (sk_final_path k))"
    and 1: "fs_exists w0 (sk_partial_path k) = ((found, ec), w1)"
    and 2: "(if found then fs_file_size w1 (sk_partial_path k) else ((0, ec), w1)) = ((sz, ec2), w2)"
    and 3: "os_open_inout w2 (sk_partial_path k) = (s, w3)"
    and fs: "files w1 = files w0" "files w2 = files w0" "files w3 = files w0"
    and ok: "\<not> ec2" "sz \<ge> total_size" "os_open s"
  shows "opens w k total_size True True (k\<lparr>sk_total_size := total_size, sk_stream := s\<rparr>) w3"
proof -
  let ?p = "sk_partial_path k"
  obtain c where c: "files w0 ?p = Some (Regular c)" and s: "s = opened_ofstream ?p"
    using 3 ok fs by (auto simp: os_open_inout_def closed_ofstream_def
        split: prod.splits if_splits option.splits node.splits)
  have "found" using 1 2 ok c by (auto simp: fs_exists_def split: prod.splits if_splits)
  then have "sz = word_of_nat (length c)" using 2 c fs(1) ok
    by (auto simp: fs_file_size_def split: prod.splits if_splits)
  moreover have "files w ?p = Some (Regular c)"
    using c w0 create_directories_files [of w "path_parent (sk_final_path k)" ?p] by auto
  moreover have "only_dirs (set (dir_prefixes (path_parent (sk_final_path k)))) {?p} w w3"
    using create_directories_only_dirs [of "path_parent (sk_final_path k)" "{?p}" w] w0 fs(3) by (simp add: only_dirs_def)
  ultimately show ?thesis
    using s c fs(3) ok by (simp add: opens_def sink_ready_def sink_view_def opened_ofstream_def content_def)
qed

lemma open_opens:
  assumes "FileSink_open w k total_size resume = (ok, k', w')"
  shows "opens w k total_size resume ok k' w'"
proof -
  let ?k = "k\<lparr>sk_total_size := total_size\<rparr>" and ?p = "sk_partial_path k"
  let ?w0 = "fs_create_directories w (path_parent (sk_final_path k))"
  note fresh = open_fresh_opens [where w = w and k = k and resume = resume]
  show ?thesis
  proof (cases resume)
    case False
    then show ?thesis using assms fresh [of ?w0 ?k total_size ok k' w'] by (simp add: FileSink_open_def Let_def)
  next
    case True
    obtain found ec w1 where 1: "fs_exists ?w0 ?p = ((found, ec), w1)" by (metis surj_pair)
    obtain sz ec2 w2 where 2: "(if found then fs_file_size w1 ?p else ((0, ec), w1)) = ((sz, ec2), w2)"
      by (metis surj_pair)
    obtain s w3 where 3: "os_open_inout w2 ?p = (s, w3)" by fastforce
    have fs: "files w1 = files ?w0" "files w2 = files ?w0" "files w3 = files ?w0"
      using queries_unchanged(1) [of ?w0 ?p] queries_unchanged(3) [of w1 ?p]
        queries_unchanged(5) [of w2 ?p] 1 2 3 by (auto split: if_splits)
    show ?thesis
    proof (cases "\<not> ec2 \<and> sz \<ge> total_size \<and> os_open s")
      case False
      then show ?thesis
        using assms True 1 2 3 fs fresh [of w2 ?k total_size ok k' w'] fresh [of w3 "?k\<lparr>sk_stream := s\<rparr>" total_size ok k' w']
        by (auto simp: FileSink_open_def Let_def split: if_splits)
    next
      case reuse: True
      have "ok" "k' = ?k\<lparr>sk_stream := s\<rparr>" "w' = w3"
        using assms True 1 2 3 reuse by (auto simp: FileSink_open_def Let_def split: if_splits)
      then show ?thesis using open_reuse_opens [OF refl 1 2 3 fs] reuse True by simp
    qed
  qed
qed

lemma open_frame:
  assumes "FileSink_open w k total_size resume = (ok, k', w')"
  shows "only_dirs (set (dir_prefixes (path_parent (sk_final_path k)))) {sk_partial_path k} w w'"
    and "os_open (sk_stream k') \<Longrightarrow> os_open (sk_stream k) \<or> os_path (sk_stream k') = sk_partial_path k"
    and "sk_final_path k' = sk_final_path k" "sk_partial_path k' = sk_partial_path k"
    and "ok \<Longrightarrow> sink_ready w' k' \<and> sk_total_size k' = total_size \<and>
      (sink_view w' k' = replicate (unat total_size) 0 \<or>
       resume \<and> (\<exists>c. files w (sk_partial_path k) = Some (Regular c) \<and> sink_view w' k' = c \<and>
         word_of_nat (length c) \<ge> total_size))"
  using open_opens [OF assms] unfolding opens_def by blast+


lemma finalize_result:
  assumes "FileSink_finalize ec_message w k = (ok, k', w')" "sk_partial_path k \<noteq> sk_final_path k"
    and "os_open (sk_stream k) \<Longrightarrow> os_pending (sk_stream k) = []"
  shows "ok \<Longrightarrow> \<exists>n. files w (sk_partial_path k) = Some n \<and>
      files w' = (files w)(sk_partial_path k := None, sk_final_path k := Some n)"
    and "\<not> ok \<Longrightarrow> files w' = files w \<or> files w' = (files w)(sk_final_path k := None)"
    and "\<not> os_open (sk_stream k')"
proof -
  let ?p = "sk_partial_path k" and ?q = "sk_final_path k"
  obtain k1 w1 where 1: "(if os_open (sk_stream k) then
        let (s, w) = os_sync w (sk_stream k); (s, w) = os_close w s in (k\<lparr>sk_stream := s\<rparr>, w)
      else (k, w)) = (k1, w1)" by fastforce
  have k1: "sk_partial_path k1 = ?p" "sk_final_path k1 = ?q" "\<not> os_open (sk_stream k1)"
    using 1 os_close_same by (auto split: if_splits prod.splits)
  have "files w1 = files w"
  proof (cases "os_open (sk_stream k)")
    case True
    obtain s2 w2 where 2: "os_sync w (sk_stream k) = (s2, w2)" by fastforce
    obtain s3 w3 where 3: "os_sync w2 s2 = (s3, w3)" by fastforce
    have pend: "os_pending (sk_stream k) = []" by (rule assms(3) [OF True])
    have "os_pending s2 = []"
      using os_sync_result(1,2) [OF 2] pend by (cases "os_good (sk_stream k)") auto
    then have "files w3 = files w" using os_sync_result(3) [OF 2 pend] os_sync_result(3) [OF 3] by simp
    then show ?thesis using 1 2 3 True by (auto simp: os_close_def)
  qed (use 1 in simp)
  moreover obtain r w2 where 2: "fs_rename w1 ?p ?q = (r, w2)" by fastforce
  moreover obtain x w3 where 3: "fs_remove w2 ?q = (x, w3)" by fastforce
  moreover obtain r' w4 where 4: "fs_rename w3 ?p ?q = (r', w4)" by fastforce
  ultimately have f1: "files w1 = files w" and
    res: "ok = (r \<or> r')" "w' = (if r then w2 else w4)" "sk_stream k' = sk_stream k1"
    using assms(1) k1 unfolding FileSink_finalize_def unfolding 1
    by (auto simp: Let_def split: if_splits)
  have w2: "r \<Longrightarrow> \<exists>n. files w ?p = Some n \<and> files w2 = (files w)(?p := None, ?q := Some n)"
    "\<not> r \<Longrightarrow> files w2 = files w" by (use 2 in \<open>cases rule: fs_rename_result; simp add: f1\<close>)+
  have w3: "files w3 = files w2 \<or> files w3 = (files w2)(?q := None)" by (rule fs_remove_result [OF 3])
  have w4: "r' \<Longrightarrow> \<exists>n. files w3 ?p = Some n \<and> files w4 = (files w3)(?p := None, ?q := Some n)"
    "\<not> r' \<Longrightarrow> files w4 = files w3" by (use 4 in \<open>cases rule: fs_rename_result; simp\<close>)+
  show "\<exists>n. files w ?p = Some n \<and> files w' = (files w)(?p := None, ?q := Some n)" if ok
    using that res w2 w3 w4 assms(2) by (cases r) auto
  show "files w' = files w \<or> files w' = (files w)(?q := None)" if "\<not> ok"
    using that res w2 w3 w4 by auto
  show "\<not> os_open (sk_stream k')" using res k1 by simp
qed

subsection \<open>Operations without faults succeed\<close>

lemma os_seekp_quiet:
  assumes "os_good s" "faults w = []" "unat off < 2 ^ 63"
  shows "os_good (fst (os_seekp w s off))" "faults (snd (os_seekp w s off)) = []"
  using assms sint_nonneg [of off] by (simp_all add: os_seekp_def os_sync_def os_drain_def fs_simps)

lemma os_write_quiet:
  assumes "os_good s" "faults w = []"
  shows "os_good (fst (os_write w s d))" "faults (snd (os_write w s d)) = []"
  using assms by (simp_all add: os_write_def fs_simps)

lemma write_at_quiet:
  assumes "sink_ready w k" "faults w = []" "unat off + length d \<le> unat (sk_total_size k)" "unat off < 2 ^ 63"
  obtains k' w' where "FileSink_write_at w k off d = (True, k', w')" "faults w' = []"
proof -
  obtain s1 w1 where 1: "os_seekp w (sk_stream k) off = (s1, w1)" by fastforce
  obtain s2 w2 where 2: "os_write w1 s1 d = (s2, w2)" by fastforce
  have g: "os_open (sk_stream k)" "os_good (sk_stream k)" using assms(1) by (simp_all add: sink_ready_def)
  have q1: "os_good s1" "faults w1 = []" using os_seekp_quiet [OF g(2) assms(2,4)] 1 by simp_all
  have q2: "os_good s2" "faults w2 = []" using os_write_quiet [OF q1, of d] 2 by simp_all
  have "unat off + length d < 2 ^ 64" using assms(3) unat_less_u64 [of "sk_total_size k"] by simp
  then have "unat (off + word_of_nat (length d)) = unat off + length d" by (simp add: unat_plus_if')
  then have "\<not> off + word_of_nat (length d) > sk_total_size k" using assms(3) by (simp add: word_less_nat_alt)
  then show thesis using that [of "k\<lparr>sk_stream := s2\<rparr>" w2] 1 2 q1 q2 g by (simp add: FileSink_write_at_def)
qed

lemma flush_quiet:
  assumes "sink_ready w k" "faults w = []"
  obtains k' w' where "FileSink_flush w k = (True, k', w')" "faults w' = []"
  using assms that
  by (simp add: FileSink_flush_def os_sync_def os_drain_def sink_ready_def fs_simps)

lemma finalize_quiet:
  assumes "sink_ready w k" "faults w = []" "os_pending (sk_stream k) = []" "files w (sk_final_path k) \<noteq> Some Directory"
  obtains k' w' where "FileSink_finalize ec_message w k = (True, k', w')" "faults w' = []"
proof -
  obtain c where c: "files w (sk_partial_path k) = Some (Regular c)" using assms(1) by (auto simp: sink_ready_def)
  have "fs_rename v (sk_partial_path k) (sk_final_path k) =
      (True, v\<lparr>files := (files v)(sk_partial_path k := None, sk_final_path k := Some (Regular c))\<rparr>)"
    if "v = w" for v
    using that assms c by (auto simp: fs_rename_def fs_simps split: option.splits node.splits)
  then show thesis
    using assms that
    by (simp add: FileSink_finalize_def os_sync_def os_close_def os_drain_def sink_ready_def fs_simps Let_def)
qed

lemma open_fresh_quiet:
  assumes "faults w = []" "files w (sk_partial_path k) \<noteq> Some Directory" "unat total_size \<le> 2 ^ 63"
  obtains k' w' where "FileSink_open_fresh w k total_size = (True, k', w')" "faults w' = []"
proof -
  obtain s1 w1 where 1: "os_open_trunc w (sk_partial_path k) = (s1, w1)" by fastforce
  obtain s2 w2 where 2: "os_seekp w1 s1 (total_size - 1) = (s2, w2)" by fastforce
  obtain s3 w3 where 3: "os_write w2 s2 [0] = (s3, w3)" by fastforce
  have q1: "os_open s1" "os_good s1" "faults w1 = []"
    using 1 assms(1,2) by (auto simp: os_open_trunc_def opened_ofstream_def fs_simps split: if_splits)
  show thesis
  proof (cases "total_size > 0")
    case True
    then have "unat (total_size - 1) = unat total_size - 1" "unat total_size \<noteq> 0"
      by (simp_all add: word_less_nat_alt unat_pred)
    then have "unat (total_size - 1) < 2 ^ 63" using assms(3) by linarith
    then have q2: "os_good s2" "faults w2 = []" using os_seekp_quiet [OF q1(2,3)] 2 by fastforce+
    have q3: "os_good s3" "faults w3 = []" using os_write_quiet [OF q2, of "[0]"] 3 by simp_all
    show thesis using that [of "k\<lparr>sk_stream := s3\<rparr>" w3] 1 2 3 q1 q3 True by (simp add: FileSink_open_fresh_def)
  next
    case False
    then show thesis using that [of "k\<lparr>sk_stream := s1\<rparr>" w1] 1 q1 by (simp add: FileSink_open_fresh_def)
  qed
qed

subsection \<open>The sink as a random-access file\<close>

text \<open>Writing a sequence of pieces at their offsets.\<close>

definition place :: "bytes \<Rightarrow> u64 \<times> bytes \<Rightarrow> bytes" where
  "place c p = overwrite c (unat (fst p)) (snd p)"

text \<open>
  The contract a session relies on: successful writes act on a logical content, steps of other
  components that leave the file alone do not disturb it, and a successful flush brings it to
  the disk.
\<close>

locale random_access_sink =
  fixes write_at :: "'w \<Rightarrow> 'k \<Rightarrow> u64 \<Rightarrow> bytes \<Rightarrow> bool \<times> 'k \<times> 'w"
    and flush :: "'w \<Rightarrow> 'k \<Rightarrow> bool \<times> 'k \<times> 'w"
    and ready :: "'w \<Rightarrow> 'k \<Rightarrow> bool"
    and view :: "'w \<Rightarrow> 'k \<Rightarrow> bytes"
    and disk :: "'w \<Rightarrow> 'k \<Rightarrow> bytes"
    and capacity :: "'k \<Rightarrow> nat"
    and undisturbed :: "'k \<Rightarrow> 'w \<Rightarrow> 'w \<Rightarrow> bool"
  assumes write_at: "ready w k \<Longrightarrow> write_at w k off d = (True, k', w') \<Longrightarrow>
      unat off + length d < 2 ^ 64 \<Longrightarrow>
      ready w' k' \<and> view w' k' = overwrite (view w k) (unat off) d \<and> capacity k' = capacity k \<and>
      unat off + length d \<le> capacity k"
    and flush: "ready w k \<Longrightarrow> flush w k = (True, k', w') \<Longrightarrow>
      ready w' k' \<and> view w' k' = view w k \<and> disk w' k' = view w k \<and> capacity k' = capacity k"
    and undisturbed: "ready w k \<Longrightarrow> undisturbed k w w' \<Longrightarrow> ready w' k \<and> view w' k = view w k"
begin

inductive writes :: "'w \<Rightarrow> 'k \<Rightarrow> (u64 \<times> bytes) list \<Rightarrow> 'w \<Rightarrow> 'k \<Rightarrow> bool" where
  none: "writes w k [] w k"
| other: "writes w k ps w1 k1 \<Longrightarrow> undisturbed k1 w1 w2 \<Longrightarrow> writes w k ps w2 k1"
| written: "writes w k ps w1 k1 \<Longrightarrow> write_at w1 k1 off d = (True, k2, w2) \<Longrightarrow>
    unat off + length d < 2 ^ 64 \<Longrightarrow> writes w k (ps @ [(off, d)]) w2 k2"

lemma writes_view:
  "writes w k ps w' k' \<Longrightarrow> ready w k \<Longrightarrow>
   ready w' k' \<and> view w' k' = foldl place (view w k) ps \<and> capacity k' = capacity k \<and>
   (\<forall>p\<in>set ps. unat (fst p) + length (snd p) \<le> capacity k)"
proof (induction rule: writes.induct)
  case (written w k ps w1 k1 off d k2 w2)
  then show ?case using write_at [of w1 k1 off d k2 w2] by (auto simp: place_def)
qed (auto dest: undisturbed)

lemma flushed_writes:
  "writes w k ps w1 k1 \<Longrightarrow> ready w k \<Longrightarrow> flush w1 k1 = (True, k', w') \<Longrightarrow>
   disk w' k' = foldl place (view w k) ps"
  using writes_view flush by metis

end

lemma foldl_place_length:
  "\<forall>p\<in>set ps. unat (fst p) + length (snd p) \<le> length c \<Longrightarrow> length (foldl place c ps) = length c"
  by (induction ps arbitrary: c) (simp_all add: place_def length_overwrite_inside)

interpretation sink: random_access_sink FileSink_write_at FileSink_flush sink_ready sink_view
  "\<lambda>w k. content w (sk_partial_path k)" "\<lambda>k. unat (sk_total_size k)"
  "\<lambda>k w (w' :: world). files w' (sk_partial_path k) = files w (sk_partial_path k)"
proof unfold_locales
  fix w k off d k' w'
  assume a: "sink_ready w k" "FileSink_write_at w k off d = (True, k', w')"
    "unat off + length d < 2 ^ 64"
  show "sink_ready w' k' \<and> sink_view w' k' = overwrite (sink_view w k) (unat off) d \<and>
      unat (sk_total_size k') = unat (sk_total_size k) \<and> unat off + length d \<le> unat (sk_total_size k)"
    using write_at_ok [OF a] by (simp add: same_sink_def)
next
  fix w k k' w'
  assume a: "sink_ready w k" "FileSink_flush w k = (True, k', w')"
  show "sink_ready w' k' \<and> sink_view w' k' = sink_view w k \<and>
      content w' (sk_partial_path k') = sink_view w k \<and> unat (sk_total_size k') = unat (sk_total_size k)"
    using flush_ok [OF a] by (simp add: same_sink_def)
next
  fix w w' :: world and k
  assume "sink_ready w k" "files w' (sk_partial_path k) = files w (sk_partial_path k)"
  then show "sink_ready w' k \<and> sink_view w' k = sink_view w k"
    using content_cong [of w' _ w] by (simp add: sink_ready_def sink_view_def)
qed


subsection \<open>Properties\<close>

text \<open>
  C26. A fresh sink of \<open>n\<close> bytes that takes a sequence of writes, in any order, overlapping or not and
  interleaved with any steps that leave its file alone, and is then flushed has on disk exactly
  \<open>n\<close> bytes: zeros overwritten by the pieces in the order of the writes. This holds under every
  schedule of faults, as long as each call reported success.
\<close>

theorem sink_holds_writes:
  assumes "FileSink_open w (new_FileSink p) n False = (True, k0, w0)"
    and "sink.writes w0 k0 ps w1 k1" "FileSink_flush w1 k1 = (True, k2, w2)"
  shows "content w2 (with_partial_suffix p) = foldl place (replicate (unat n) 0) ps \<and>
    length (content w2 (with_partial_suffix p)) = unat n"
proof -
  have k0: "sink_ready w0 k0" "sk_total_size k0 = n" "sink_view w0 k0 = replicate (unat n) 0"
    "sk_partial_path k0 = with_partial_suffix p"
    using open_frame(4,5) [OF assms(1)] by (auto simp: new_FileSink_def)
  note v = sink.writes_view [OF assms(2) k0(1)]
  have "sk_partial_path k1 = sk_partial_path k0"
    using assms(2) by (induction rule: sink.writes.induct)
      (auto dest: write_at_frame(2) simp: same_sink_def)
  then have "sk_partial_path k2 = with_partial_suffix p"
    using k0(4) flush_frame(2) [OF assms(3)] by (simp add: same_sink_def)
  then show ?thesis
    using sink.flushed_writes [OF assms(2) k0(1) assms(3)] v k0 foldl_place_length [of ps "replicate (unat n) 0"]
    by simp
qed

theorem sink_holds_writes_witness:
  "\<exists>k0 w0 k1 w1 k2 w2.
     FileSink_open \<lparr>files = (\<lambda>_. None), faults = []\<rparr> (new_FileSink ''f'') 4 False = (True, k0, w0) \<and>
     FileSink_write_at w0 k0 1 [7, 8] = (True, k1, w1) \<and> FileSink_flush w1 k1 = (True, k2, w2) \<and>
     content w2 ''f.partial'' = [0, 7, 8, 0]"
proof -
  let ?w = "\<lparr>files = (\<lambda>_. None), faults = []\<rparr>"
  let ?o = "FileSink_open ?w (new_FileSink ''f'') 4 False"
  obtain ok k0 w0 where o: "?o = (ok, k0, w0)" by (metis surj_pair)
  obtain ok1 k1 w1 where 1: "FileSink_write_at w0 k0 1 [7, 8] = (ok1, k1, w1)" by (metis surj_pair)
  obtain ok2 k2 w2 where 2: "FileSink_flush w1 k1 = (ok2, k2, w2)" by (metis surj_pair)
  have "fst ?o" "case ?o of (_, k, w) \<Rightarrow> fst (FileSink_write_at w k 1 [7, 8])"
    "case ?o of (_, k, w) \<Rightarrow> case FileSink_write_at w k 1 [7, 8] of (_, k, w) \<Rightarrow> fst (FileSink_flush w k)"
    by code_simp+
  then have ok: ok ok1 ok2 using o 1 2 by simp_all
  have "sink.writes w0 k0 ([] @ [(1, [7, 8])]) w1 k1"
    by (rule sink.written [OF sink.none]) (use 1 ok in simp_all)
  then have "content w2 (with_partial_suffix ''f'') = foldl place (replicate (unat (4 :: u64)) 0) [(1, [7, 8])]"
    using sink_holds_writes [of ?w "''f''" 4 k0 w0 "[(1, [7, 8])]" w1 k1 k2 w2] o 2 ok by simp
  moreover have "foldl place (replicate (unat (4 :: u64)) 0) [(1, [7, 8])] = [0, 7, 8, 0]" by code_simp
  ultimately have "content w2 ''f.partial'' = [0, 7, 8, 0]" by (simp add: with_partial_suffix_def)
  then show ?thesis using o 1 2 ok by (intro exI [of _ k0] exI [of _ w0] exI [of _ k1] exI [of _ w1] exI [of _ k2] exI [of _ w2]) simp
qed



end
