(* ===== verification/Ftx_Server.thy ===== *)
theory Ftx_Server
  imports Ftx_Connection Ftx_Resume_State Ftx_File_Sink Ftx_Blake3 "HOL-Library.While_Combinator"
begin

text \<open>
  \<^verbatim>\<open>src/lib/transport/server.cpp\<close>: one receiving session. \<^verbatim>\<open>handle_session_\<close> is a sequence of phases
  over the connection, the world and the sink; a phase ends with a value for the next one, or the
  session ends early: the code returns false, or would index a vector out of range. The chunk loop
  runs until the peer completes or fails, which need not happen: a session has no result then.
  Locals are destroyed at the end of a session: the sink closes its stream, the connection its
  socket.
\<close>

record ('s, 'h) session_env =
  e_ops :: "'s stream_ops"
  e_b3 :: "'h blake3_lib"
  e_ec_message :: string
  e_root :: string
  e_ssl_ctx :: "ssl_context option"

record 's session =
  ss_conn :: "'s Connection"
  ss_world :: world
  ss_sink :: FileSink

datatype failure = ReturnFalse | Undefined

type_synonym ('a, 's) phase = "(failure + 'a) \<times> 's session"

definition send_error :: "('s, 'h) session_env \<Rightarrow> 's session \<Rightarrow> ErrorCode \<Rightarrow> string \<Rightarrow> 's session" where
  "send_error env st ec msg =
     st\<lparr>ss_conn := snd (send_frame (e_ops env) (ss_conn st) Error
                          (encode_error \<lparr>code = ec, message = msg\<rparr>))\<rparr>"

text \<open>\<^verbatim>\<open>send_error(...); return false;\<close>\<close>

definition reject :: "('s, 'h) session_env \<Rightarrow> 's session \<Rightarrow> ErrorCode \<Rightarrow> string \<Rightarrow> ('a, 's) phase" where
  "reject env st ec msg = (Inl ReturnFalse, send_error env st ec msg)"

definition session_recv :: "('s, 'h) session_env \<Rightarrow> 's session \<Rightarrow> Frame option \<times> 's session" where
  "session_recv env st =
     (let (f, c) = recv_frame (e_ops env) (ss_conn st) kDefaultMaxPayload
      in (f, st\<lparr>ss_conn := c\<rparr>))"

text \<open>\<^verbatim>\<open>if (!conn.send_frame(...)) return false;\<close>\<close>

definition session_send :: "('s, 'h) session_env \<Rightarrow> 's session \<Rightarrow> FrameType \<Rightarrow> bytes \<Rightarrow> (unit, 's) phase" where
  "session_send env st t p =
     (let (ok, c) = send_frame (e_ops env) (ss_conn st) t p;
          st = st\<lparr>ss_conn := c\<rparr>
      in if ok then (Inr (), st) else (Inl ReturnFalse, st))"

subsection \<open>HELLO and MANIFEST\<close>

definition session_hello :: "('s, 'h) session_env \<Rightarrow> 's session \<Rightarrow> (unit, 's) phase" where
  "session_hello env st =
     (let (hello_frame, st) = session_recv env st
      in case hello_frame of
           None \<Rightarrow> (Inl ReturnFalse, st)
         | Some f \<Rightarrow>
             if ftype (header f) \<noteq> Hello then (Inl ReturnFalse, st)
             else case decode_hello (payload f) of
                 None \<Rightarrow> reject env st ProtocolViolation ''malformed HELLO''
               | Some client_hello \<Rightarrow>
                   if protocol_version client_hello \<noteq> kProtocolVersion
                   then reject env st UnsupportedVersion
                          (''server requires protocol version '' @ dec_string (unat kProtocolVersion))
                   else session_send env st Hello (encode_hello default_hello))"

definition session_manifest :: "('s, 'h) session_env \<Rightarrow> 's session \<Rightarrow> (ManifestMsg \<times> string, 's) phase" where
  "session_manifest env st =
     (let (man_frame, st) = session_recv env st
      in case man_frame of
           None \<Rightarrow> (Inl ReturnFalse, st)
         | Some f \<Rightarrow>
             if ftype (header f) \<noteq> Manifest then (Inl ReturnFalse, st)
             else case decode_manifest (payload f) of
                 None \<Rightarrow> reject env st ProtocolViolation ''malformed MANIFEST''
               | Some m \<Rightarrow>
                   (case resolve_dest (e_root env) (path m) of
                      None \<Rightarrow> reject env st InvalidPath (''rejected path: '' @ path m)
                    | Some dest \<Rightarrow> (Inr (m, dest), st)))"

subsection \<open>Resume state, sink and REQ_CHUNKS\<close>

definition state_path :: "string \<Rightarrow> string" where
  "state_path dest = dest @ ''.ftxstate''"

definition manifest_id :: "('s, 'h) session_env \<Rightarrow> ManifestMsg \<Rightarrow> bytes" where
  "manifest_id env m = blake3 (e_b3 env) (encode_manifest m)"

text \<open>The log line of a resumed session counts the missing chunks.\<close>

definition session_state ::
    "('s, 'h) session_env \<Rightarrow> ManifestMsg \<Rightarrow> string \<Rightarrow> 's session \<Rightarrow> (ResumeState \<times> bool, 's) phase" where
  "session_state env m dest st =
     (let mid = manifest_id env m;
          (loaded, w) = load (ss_world st) (state_path dest);
          fresh = (Inr (new_ResumeState mid (chunk_count m), False),
                   st\<lparr>ss_world := remove w (state_path dest)\<rparr>)
      in case loaded of
           None \<Rightarrow> fresh
         | Some l \<Rightarrow>
             if rs_manifest_id l = mid \<and> rs_chunk_count l = chunk_count m
             then case missing l of
                 None \<Rightarrow> (Inl Undefined, st\<lparr>ss_world := w\<rparr>)
               | Some _ \<Rightarrow> (Inr (l, True), st\<lparr>ss_world := w\<rparr>)
             else fresh)"

definition session_request ::
    "('s, 'h) session_env \<Rightarrow> ManifestMsg \<Rightarrow> string \<Rightarrow> ResumeState \<Rightarrow> bool \<Rightarrow> 's session \<Rightarrow> (unit, 's) phase" where
  "session_request env m dest rs resume_active st =
     (let (ok, sink, w) = FileSink_open (ss_world st) (new_FileSink dest) (file_size m) resume_active;
          st = st\<lparr>ss_world := w, ss_sink := sink\<rparr>
      in if \<not> ok then reject env st InternalError (sk_last_error sink)
         else case missing rs of
             None \<Rightarrow> (Inl Undefined, st)
           | Some req \<Rightarrow> session_send env st ReqChunks (encode_req_chunks \<lparr>indices = req\<rparr>))"

subsection \<open>The chunk loop\<close>

record 'h transfer =
  tr_state :: ResumeState
  tr_bytes_received :: u64
  tr_chunks_received :: u32
  tr_hasher :: 'h
  tr_all_in_order :: bool
  tr_next_expected :: u32
  tr_client_final_root_hash :: Hash

definition new_transfer :: "'h blake3_lib \<Rightarrow> ResumeState \<Rightarrow> bool \<Rightarrow> 'h transfer" where
  "new_transfer lib rs resume_active =
     \<lparr>tr_state = rs, tr_bytes_received = 0, tr_chunks_received = 0, tr_hasher = Blake3Hasher_new lib,
      tr_all_in_order = \<not> resume_active, tr_next_expected = 0, tr_client_final_root_hash = kZeroHash\<rparr>"

datatype loop_status = Running | Finished | Failed failure

type_synonym ('s, 'h) loop = "loop_status \<times> 'h transfer \<times> 's session"

definition loop_reject ::
    "('s, 'h) session_env \<Rightarrow> 'h transfer \<Rightarrow> 's session \<Rightarrow> ErrorCode \<Rightarrow> string \<Rightarrow> ('s, 'h) loop" where
  "loop_reject env tr st ec msg = (Failed ReturnFalse, tr, send_error env st ec msg)"

text \<open>A chunk whose index and hashes have been checked: hash it, write it, mark it, save the state.\<close>

definition store_chunk ::
    "('s, 'h) session_env \<Rightarrow> ManifestMsg \<Rightarrow> string \<Rightarrow> ChunkMsg \<Rightarrow> 'h transfer \<Rightarrow> 's session \<Rightarrow> ('s, 'h) loop" where
  "store_chunk env m dest ck tr st =
     (let tr = (if tr_all_in_order tr \<and> index ck = tr_next_expected tr
                then tr\<lparr>tr_hasher := Blake3Hasher_update (e_b3 env) (tr_hasher tr) (data ck),
                        tr_next_expected := tr_next_expected tr + 1\<rparr>
                else tr\<lparr>tr_all_in_order := False\<rparr>);
          off = (ucast (index ck) :: u64) * ucast (chunk_size m);
          (ok, sink, w) = FileSink_write_at (ss_world st) (ss_sink st) off (data ck);
          st = st\<lparr>ss_world := w, ss_sink := sink\<rparr>
      in if \<not> ok then loop_reject env tr st InternalError (sk_last_error sink)
         else case mark_received (tr_state tr) (index ck) of
             None \<Rightarrow> (Failed Undefined, tr, st)
           | Some rs \<Rightarrow>
               (let (_, w) = save (ss_world st) rs (state_path dest)
                in (Running,
                    tr\<lparr>tr_state := rs,
                       tr_bytes_received := tr_bytes_received tr + word_of_nat (length (data ck)),
                       tr_chunks_received := tr_chunks_received tr + 1\<rparr>,
                    st\<lparr>ss_world := w\<rparr>)))"

definition check_chunk ::
    "('s, 'h) session_env \<Rightarrow> ManifestMsg \<Rightarrow> string \<Rightarrow> ChunkMsg \<Rightarrow> 'h transfer \<Rightarrow> 's session \<Rightarrow> ('s, 'h) loop" where
  "check_chunk env m dest ck tr st =
     (if index ck \<ge> chunk_count m
      then loop_reject env tr st ProtocolViolation ''chunk index out of range''
      else if blake3 (e_b3 env) (data ck) \<noteq> hash ck
      then loop_reject env tr st HashMismatch
             (''chunk hash mismatch at index '' @ dec_string (unat (index ck)))
      else case vec_at (chunk_hashes m) (unat (index ck)) of
          None \<Rightarrow> (Failed Undefined, tr, st)
        | Some h \<Rightarrow>
            if h \<noteq> hash ck
            then loop_reject env tr st HashMismatch
                   (''chunk hash diverges from manifest at index '' @ dec_string (unat (index ck)))
            else store_chunk env m dest ck tr st)"

definition chunk_step ::
    "('s, 'h) session_env \<Rightarrow> ManifestMsg \<Rightarrow> string \<Rightarrow> ('s, 'h) loop \<Rightarrow> ('s, 'h) loop" where
  "chunk_step env m dest l =
     (let (_, tr, st) = l;
          (frame, st) = session_recv env st
      in case frame of
           None \<Rightarrow> (Failed ReturnFalse, tr, st)
         | Some f \<Rightarrow>
             if ftype (header f) = Complete then
               (case decode_complete (payload f) of
                  None \<Rightarrow> loop_reject env tr st ProtocolViolation ''malformed COMPLETE''
                | Some c \<Rightarrow> (Finished, tr\<lparr>tr_client_final_root_hash := final_root_hash c\<rparr>, st))
             else if ftype (header f) \<noteq> Chunk
             then loop_reject env tr st ProtocolViolation ''expected CHUNK or COMPLETE''
             else case decode_chunk (payload f) of
                 None \<Rightarrow> loop_reject env tr st ProtocolViolation ''malformed CHUNK''
               | Some ck \<Rightarrow> check_chunk env m dest ck tr st)"

definition chunk_loop ::
    "('s, 'h) session_env \<Rightarrow> ManifestMsg \<Rightarrow> string \<Rightarrow> 'h transfer \<Rightarrow> 's session \<Rightarrow> ('s, 'h) loop option" where
  "chunk_loop env m dest tr st =
     while_option (\<lambda>l. fst l = Running) (chunk_step env m dest) (Running, tr, st)"

subsection \<open>Verification and completion\<close>

definition kReadBack :: nat where
  "kReadBack = 64 * 1024"

lemma is_read_decreases:
  assumes "is_read w fb n = (got, fb', w')" "is_good fb" "is_good fb'" "0 < n"
  shows "is_path fb' = is_path fb" "files w' = files w"
    "length (content w (is_path fb)) - is_pos fb' < length (content w (is_path fb)) - is_pos fb"
proof -
  obtain e w0 where e: "next_fault w = (e, w0)" by fastforce
  note c = next_fault_content [OF e] and f = next_fault_files [OF e]
  have r: "e = NoFault" "got = take n (drop (is_pos fb) (content w (is_path fb)))" "length got = n"
    "fb' = fb\<lparr>is_pos := is_pos fb + n, is_good := True, is_eof := False\<rparr>" "w' = w0"
    using assms e c by (auto simp: is_read_def Let_def split: fault.splits)
  have "is_pos fb + n \<le> length (content w (is_path fb))"
    using r(2,3) assms(4) by (simp add: min_def split: if_splits)
  then show "is_path fb' = is_path fb" "files w' = files w"
    "length (content w (is_path fb)) - is_pos fb' < length (content w (is_path fb)) - is_pos fb"
    using r f assms(4) by auto
qed

text \<open>\<^verbatim>\<open>while (fb.good()) { fb.read(rb); n = fb.gcount(); if (n > 0) disk_hasher.update(rb[0..n]); }\<close>\<close>

function read_back :: "'h blake3_lib \<Rightarrow> world \<Rightarrow> ifstream \<Rightarrow> 'h \<Rightarrow> 'h \<times> world" where
  "read_back lib w fb h =
     (if \<not> is_good fb then (h, w)
      else let (got, fb, w) = is_read w fb kReadBack
           in read_back lib w fb (if got \<noteq> [] then Blake3Hasher_update lib h got else h))"
  by pat_completeness auto

termination
proof (relation "measure (\<lambda>(lib, w, fb, h).
    if is_good fb then Suc (length (content w (is_path fb)) - is_pos fb) else 0)", goal_cases)
  case (2 lib w fb h x got y fb' w')
  then have r: "is_read w fb kReadBack = (got, fb', w')" "is_good fb" by simp_all
  show ?case
  proof (cases "is_good fb'")
    case True
    note d = is_read_decreases [OF r True]
    have "content w' = content w" using d(2) by (simp add: content_def fun_eq_iff kReadBack_def)
    then show ?thesis using d True r(2) by (simp add: kReadBack_def)
  qed (use r in simp)
qed simp

declare read_back.simps [simp del]

text \<open>The completeness checks: the chunk inventory of a resumed transfer, the counts of a fresh one.\<close>

definition session_counts ::
    "('s, 'h) session_env \<Rightarrow> ManifestMsg \<Rightarrow> bool \<Rightarrow> 'h transfer \<Rightarrow> 's session \<Rightarrow> (unit, 's) phase" where
  "session_counts env m resume_active tr st =
     (if resume_active then
        (case complete (tr_state tr) of
           None \<Rightarrow> (Inl Undefined, st)
         | Some c \<Rightarrow>
             if \<not> c then reject env st ProtocolViolation ''transfer ended with chunks still missing''
             else (Inr (), st))
      else if tr_bytes_received tr \<noteq> file_size m
      then reject env st ProtocolViolation
             (''byte count mismatch (expected '' @ dec_string (unat (file_size m)) @ '', got '' @
              dec_string (unat (tr_bytes_received tr)) @ '')'')
      else if tr_chunks_received tr \<noteq> chunk_count m
      then reject env st ProtocolViolation ''chunk count mismatch''
      else (Inr (), st))"

definition session_root_hash ::
    "('s, 'h) session_env \<Rightarrow> 'h transfer \<Rightarrow> 's session \<Rightarrow> (Hash, 's) phase" where
  "session_root_hash env tr st =
     (if tr_all_in_order tr then (Inr (Blake3Hasher_finalize (e_b3 env) (tr_hasher tr)), st)
      else let (ok, sink, w) = FileSink_flush (ss_world st) (ss_sink st);
               st = st\<lparr>ss_world := w, ss_sink := sink\<rparr>
           in if \<not> ok then reject env st InternalError (sk_last_error sink)
              else let (fb, w) = is_open_read (ss_world st) (sk_partial_path sink);
                       st = st\<lparr>ss_world := w\<rparr>
                   in if \<not> is_open fb
                      then reject env st InternalError ''cannot reopen .partial for verification''
                      else let (h, w) = read_back (e_b3 env) (ss_world st) fb (Blake3Hasher_new (e_b3 env))
                           in (Inr (Blake3Hasher_finalize (e_b3 env) h), st\<lparr>ss_world := w\<rparr>))"

definition session_compare ::
    "('s, 'h) session_env \<Rightarrow> ManifestMsg \<Rightarrow> 'h transfer \<Rightarrow> Hash \<Rightarrow> 's session \<Rightarrow> (unit, 's) phase" where
  "session_compare env m tr actual st =
     (if actual \<noteq> root_hash m then reject env st HashMismatch ''root hash mismatch (manifest)''
      else if actual \<noteq> tr_client_final_root_hash tr
      then reject env st HashMismatch ''root hash mismatch (COMPLETE)''
      else (Inr (), st))"

text \<open>\<^verbatim>\<open>if (!sink.flush() || !sink.finalize())\<close>, the wiping of the state and the ACK.\<close>

definition session_finish ::
    "('s, 'h) session_env \<Rightarrow> ManifestMsg \<Rightarrow> string \<Rightarrow> 's session \<Rightarrow> (unit, 's) phase" where
  "session_finish env m dest st =
     (let (ok, sink, w) = FileSink_flush (ss_world st) (ss_sink st);
          (ok, sink, w) = (if ok then FileSink_finalize (e_ec_message env) w sink else (False, sink, w));
          st = st\<lparr>ss_world := w, ss_sink := sink\<rparr>
      in if \<not> ok then reject env st InternalError (sk_last_error sink)
         else let st = st\<lparr>ss_world := remove (ss_world st) (state_path dest)\<rparr>;
                  last = (if chunk_count m = 0 then 0 else chunk_count m - 1)
              in session_send env st Ack (encode_ack \<lparr>last_index = last\<rparr>))"

subsection \<open>The session\<close>

definition and_then :: "('a, 's) phase \<Rightarrow> ('a \<Rightarrow> 's session \<Rightarrow> ('b, 's) phase option) \<Rightarrow> ('b, 's) phase option" where
  "and_then r f = (case r of (Inl e, st) \<Rightarrow> Some (Inl e, st) | (Inr a, st) \<Rightarrow> f a st)"

definition session_verify ::
    "('s, 'h) session_env \<Rightarrow> ManifestMsg \<Rightarrow> string \<Rightarrow> bool \<Rightarrow> 'h transfer \<Rightarrow> 's session \<Rightarrow> (unit, 's) phase option" where
  "session_verify env m dest resume_active tr st =
     and_then (session_counts env m resume_active tr st) (\<lambda>_ st.
     and_then (session_root_hash env tr st) (\<lambda>actual st.
     and_then (session_compare env m tr actual st) (\<lambda>_ st.
     Some (session_finish env m dest st))))"

definition session_transfer ::
    "('s, 'h) session_env \<Rightarrow> ManifestMsg \<Rightarrow> string \<Rightarrow> ResumeState \<Rightarrow> bool \<Rightarrow> 's session \<Rightarrow> (unit, 's) phase option" where
  "session_transfer env m dest rs resume_active st =
     (case chunk_loop env m dest (new_transfer (e_b3 env) rs resume_active) st of
        None \<Rightarrow> None
      | Some (Failed e, _, st) \<Rightarrow> Some (Inl e, st)
      | Some (_, tr, st) \<Rightarrow> session_verify env m dest resume_active tr st)"

definition session_receive ::
    "('s, 'h) session_env \<Rightarrow> ManifestMsg \<Rightarrow> string \<Rightarrow> 's session \<Rightarrow> (unit, 's) phase option" where
  "session_receive env m dest st =
     and_then (session_state env m dest st) (\<lambda>(rs, resume_active) st.
     and_then (session_request env m dest rs resume_active st) (\<lambda>_ st.
     session_transfer env m dest rs resume_active st))"

definition session_body :: "('s, 'h) session_env \<Rightarrow> 's session \<Rightarrow> (unit, 's) phase option" where
  "session_body env st =
     and_then (session_hello env st) (\<lambda>_ st.
     and_then (session_manifest env st) (\<lambda>(m, dest) st.
     session_receive env m dest st))"

datatype verdict = Returned bool | UndefinedBehaviour

fun verdict_of :: "failure + unit \<Rightarrow> verdict" where
  "verdict_of (Inl ReturnFalse) = Returned False"
| "verdict_of (Inl Undefined) = UndefinedBehaviour"
| "verdict_of (Inr _) = Returned True"

definition end_session ::
    "('s, 'h) session_env \<Rightarrow> (unit, 's) phase \<Rightarrow> verdict \<times> 's \<times> world" where
  "end_session env r =
     (let (v, st) = r;
          (_, w) = FileSink_close (ss_world st) (ss_sink st);
          c = Connection_close (e_ops env) (ss_conn st)
      in (verdict_of v, cn_stream c, w))"

definition handle_session :: "('s, 'h) session_env \<Rightarrow> 's \<Rightarrow> world \<Rightarrow> (verdict \<times> 's \<times> world) option" where
  "handle_session env socket w =
     (let c = (case e_ssl_ctx env of
                 Some ctx \<Rightarrow> Connection_tls (e_ops env) socket ctx
               | None \<Rightarrow> Connection_plain socket);
          (ok, c) = (if e_ssl_ctx env \<noteq> None then tls_server_handshake (e_ops env) c else (True, c));
          st = \<lparr>ss_conn = c, ss_world = w, ss_sink = new_FileSink ''''\<rparr>
      in map_option (end_session env)
           (if \<not> ok then Some (Inl ReturnFalse, st) else session_body env st))"

text \<open>\<^verbatim>\<open>run_one\<close>: accept one connection and serve it; a failed accept returns false.\<close>

definition run_one :: "('s, 'h) session_env \<Rightarrow> string + 's \<Rightarrow> world \<Rightarrow> (verdict \<times> world) option" where
  "run_one env accepted w =
     (case accepted of
        Inl ec \<Rightarrow> Some (Returned False, w)
      | Inr socket \<Rightarrow> map_option (\<lambda>(v, _, w). (v, w)) (handle_session env socket w))"

subsection \<open>The connection leaves the world alone\<close>

lemma send_error_simps [simp]:
  "ss_world (send_error env st ec msg) = ss_world st" "ss_sink (send_error env st ec msg) = ss_sink st"
  by (simp_all add: send_error_def)

lemma session_recv_simps [simp]:
  "ss_world (snd (session_recv env st)) = ss_world st" "ss_sink (snd (session_recv env st)) = ss_sink st"
  by (simp_all add: session_recv_def split: prod.splits)

lemma session_send_simps [simp]:
  "ss_world (snd (session_send env st t p)) = ss_world st" "ss_sink (snd (session_send env st t p)) = ss_sink st"
  "fst (session_send env st t p) \<noteq> Inl Undefined"
  by (auto simp: session_send_def Let_def split: prod.splits)

lemma reject_simps [simp]:
  "ss_world (snd (reject env st ec msg)) = ss_world st" "ss_sink (snd (reject env st ec msg)) = ss_sink st"
  "fst (reject env st ec msg) = Inl ReturnFalse"
  by (simp_all add: reject_def)

lemma session_recv_bound:
  "session_recv env st = (Some f, st') \<Longrightarrow> length (payload f) \<le> kDefaultMaxPayload"
  by (auto simp: session_recv_def split: prod.splits dest: channel.recv_payload)

lemma session_hello_keeps:
  "ss_world (snd (session_hello env st)) = ss_world st" "ss_sink (snd (session_hello env st)) = ss_sink st"
  "fst (session_hello env st) \<noteq> Inl Undefined"
proof -
  obtain f st1 where f: "session_recv env st = (f, st1)" by fastforce
  have "ss_world st1 = ss_world st" "ss_sink st1 = ss_sink st"
    using session_recv_simps [of env st] unfolding f by simp_all
  then show "ss_world (snd (session_hello env st)) = ss_world st"
    "ss_sink (snd (session_hello env st)) = ss_sink st" "fst (session_hello env st) \<noteq> Inl Undefined"
    by (simp_all add: session_hello_def f split: option.splits)
qed

lemma session_manifest_keeps:
  "ss_world (snd (session_manifest env st)) = ss_world st" "ss_sink (snd (session_manifest env st)) = ss_sink st"
  "fst (session_manifest env st) \<noteq> Inl Undefined"
proof -
  obtain f st1 where f: "session_recv env st = (f, st1)" by fastforce
  have "ss_world st1 = ss_world st" "ss_sink st1 = ss_sink st"
    using session_recv_simps [of env st] unfolding f by simp_all
  then show "ss_world (snd (session_manifest env st)) = ss_world st"
    "ss_sink (snd (session_manifest env st)) = ss_sink st" "fst (session_manifest env st) \<noteq> Inl Undefined"
    by (simp_all add: session_manifest_def f split: option.splits)
qed

definition small_manifest :: "ManifestMsg \<Rightarrow> bool" where
  "small_manifest m \<longleftrightarrow> valid_manifest m \<and> unat (chunk_count m) \<le> 2097151"

lemma session_manifest_Inr:
  assumes "session_manifest env st = (Inr (m, dest), st')"
  shows "small_manifest m" "resolve_dest (e_root env) (path m) = Some dest"
proof -
  obtain r c where c: "recv_frame (e_ops env) (ss_conn st) kDefaultMaxPayload = (r, c)" by fastforce
  obtain f where f: "r = Some f" "decode_manifest (payload f) = Some m"
    and d: "resolve_dest (e_root env) (path m) = Some dest"
    using assms by (auto simp: session_manifest_def session_recv_def c reject_def split: option.splits if_splits)
  show "small_manifest m"
    using channel.recv_manifest [OF c [unfolded f(1)] f(2)]
    by (simp add: small_manifest_def kDefaultMaxPayload_def)
  show "resolve_dest (e_root env) (path m) = Some dest" by (rule d)
qed

subsection \<open>The files of a session\<close>

abbreviation partial_path :: "string \<Rightarrow> string" where
  "partial_path dest \<equiv> with_partial_suffix dest"

definition session_files :: "string \<Rightarrow> string set" where
  "session_files dest =
     {dest, partial_path dest, state_path dest, state_tmp (state_path dest)}"

lemma session_files_distinct [simp]:
  "dest \<noteq> partial_path dest" "partial_path dest \<noteq> dest" "partial_path dest \<noteq> state_path dest"
  "state_path dest \<noteq> partial_path dest" "partial_path dest \<noteq> state_tmp (state_path dest)"
  "state_tmp (state_path dest) \<noteq> partial_path dest" "dest \<noteq> state_path dest" "state_path dest \<noteq> dest"
  "dest \<noteq> state_tmp (state_path dest)" "state_tmp (state_path dest) \<noteq> dest"
  by (auto simp: with_partial_suffix_def state_path_def state_tmp_def)

definition dirs_of :: "string \<Rightarrow> string set" where
  "dirs_of dest = set (dir_prefixes (path_parent dest))"

definition sink_on :: "string \<Rightarrow> FileSink \<Rightarrow> bool" where
  "sink_on dest k \<longleftrightarrow>
     sk_final_path k = dest \<and> sk_partial_path k = partial_path dest \<and>
     (os_open (sk_stream k) \<longrightarrow> os_path (sk_stream k) = partial_path dest)"

lemma sink_on_same: "sink_on dest k \<Longrightarrow> same_sink k k' \<Longrightarrow> sink_on dest k'"
  by (simp add: sink_on_def same_sink_def)

lemma sink_step_frame:
  assumes "sink_on dest k" "os_open (sk_stream k) \<Longrightarrow> unchanged_outside {os_path (sk_stream k)} w w'"
    and "\<not> os_open (sk_stream k) \<Longrightarrow> w' = w"
  shows "unchanged_outside {partial_path dest} w w'"
  using assms by (cases "os_open (sk_stream k)") (auto simp: sink_on_def)

lemma write_at_sink_on:
  assumes "sink_on dest k" "FileSink_write_at w k off d = (ok, k', w')"
  shows "unchanged_outside {partial_path dest} w w'" "sink_on dest k'"
proof -
  show "sink_on dest k'" by (rule sink_on_same [OF assms(1) write_at_frame(2) [OF assms(2)]])
  show "unchanged_outside {partial_path dest} w w'"
    using write_at_frame(1) [OF assms(2)] assms
    by (intro sink_step_frame [OF assms(1)]) (auto simp: FileSink_write_at_def)
qed

lemma flush_sink_on:
  assumes "sink_on dest k" "FileSink_flush w k = (ok, k', w')"
  shows "unchanged_outside {partial_path dest} w w'" "sink_on dest k'"
proof -
  show "sink_on dest k'" by (rule sink_on_same [OF assms(1) flush_frame(2) [OF assms(2)]])
  show "unchanged_outside {partial_path dest} w w'"
    using flush_frame(1) [OF assms(2)] assms
    by (intro sink_step_frame [OF assms(1)]) (auto simp: FileSink_flush_def)
qed

lemma close_sink_on:
  assumes "sink_on dest k" "FileSink_close w k = (k', w')"
  shows "unchanged_outside {partial_path dest} w w'"
  using close_frame [OF assms(2)] by (intro sink_step_frame [OF assms(1)])

lemma open_sink_on:
  assumes "FileSink_open w (new_FileSink dest) n resume = (ok, k', w')"
  shows "only_dirs (dirs_of dest) {partial_path dest} w w'" "sink_on dest k'"
  using open_frame [OF assms]
  by (auto simp: dirs_of_def new_FileSink_def sink_on_def closed_ofstream_def)

subsection \<open>Resume state and request\<close>

lemma small_manifest_count: "small_manifest m \<Longrightarrow> unat (chunk_count m) + 7 < 2 ^ 32"
  by (simp add: small_manifest_def)

lemma remove_files: "files (remove w p) = files w \<or> files (remove w p) = (files w)(p := None)"
  using fs_remove_result [of w p] by (cases "fs_remove w p") (auto simp: remove_def)

lemma session_state_result:
  assumes "small_manifest m" "session_state env m dest st = (r, st')"
  obtains rs resume where "r = Inr (rs, resume)" "wf_state rs" "rs_chunk_count rs = chunk_count m"
    "rs_manifest_id rs = manifest_id env m"
    "unchanged_outside {state_path dest} (ss_world st) (ss_world st')" "ss_sink st' = ss_sink st"
    "resume \<Longrightarrow> \<exists>c. files (ss_world st) (state_path dest) = Some (Regular c) \<and> parse_state c = Some rs"
    "\<not> resume \<Longrightarrow> received rs = {}"
proof -
  let ?sp = "state_path dest" and ?new = "new_ResumeState (manifest_id env m) (chunk_count m)"
  obtain loaded w where l: "load (ss_world st) ?sp = (loaded, w)" by fastforce
  have w: "files w = files (ss_world st)" using load_files [of "ss_world st" ?sp] l by simp
  have new: "wf_state ?new" "rs_chunk_count ?new = chunk_count m" "received ?new = {}"
    "rs_manifest_id ?new = manifest_id env m"
    using small_manifest_count [OF assms(1)] new_ResumeState_wf new_ResumeState_received
    by (simp_all add: manifest_id_def new_ResumeState_def)
  have rem: "unchanged_outside {?sp} (ss_world st) (remove w ?sp)"
    using remove_files [of w ?sp] w by (auto simp: unchanged_outside_def)
  show thesis
  proof (cases "\<exists>s. loaded = Some s \<and> rs_manifest_id s = manifest_id env m \<and> rs_chunk_count s = chunk_count m")
    case True
    then obtain s where s: "loaded = Some s" "rs_manifest_id s = manifest_id env m"
      "rs_chunk_count s = chunk_count m" by blast
    obtain c where c: "files (ss_world st) ?sp = Some (Regular c)" "parse_state c = Some s"
      using load_sound l s(1) by blast
    have wf: "wf_state s"
      using parse_state_shape [OF c(2)] s(3) small_manifest_count [OF assms(1)] by (simp add: wf_state_def)
    show thesis
      using assms(2) l s wf c w resume.absent [OF wf]
      by (intro that [of s True]) (auto simp: session_state_def Let_def unchanged_outside_def)
  next
    case False
    then have "r = Inr (?new, False)" "st' = st\<lparr>ss_world := remove w ?sp\<rparr>"
      using assms(2) l by (auto simp: session_state_def Let_def split: option.splits if_splits)
    then show thesis using new rem by (intro that [of ?new False]) simp_all
  qed
qed

lemma session_request_result:
  assumes "wf_state rs" "session_request env m dest rs resume st = (r, st')"
  shows "only_dirs (dirs_of dest) {partial_path dest} (ss_world st) (ss_world st')"
    "sink_on dest (ss_sink st')" "r \<noteq> Inl Undefined"
    "r = Inr u \<Longrightarrow> FileSink_open (ss_world st) (new_FileSink dest) (file_size m) resume =
       (True, ss_sink st', ss_world st')"
proof -
  obtain ok k w where o: "FileSink_open (ss_world st) (new_FileSink dest) (file_size m) resume = (ok, k, w)"
    by (metis surj_pair)
  note k = open_sink_on [OF o]
  obtain req where req: "missing rs = Some req" using resume.absent [OF assms(1)] by blast
  have w': "ss_world st' = w" "ss_sink st' = k" "r \<noteq> Inl Undefined" "\<not> ok \<Longrightarrow> r = Inl ReturnFalse"
    using arg_cong [OF assms(2), of fst] arg_cong [OF assms(2), of snd] o req
    by (auto simp: session_request_def Let_def split: if_splits)
  show "only_dirs (dirs_of dest) {partial_path dest} (ss_world st) (ss_world st')"
    "sink_on dest (ss_sink st')" "r \<noteq> Inl Undefined"
    "r = Inr u \<Longrightarrow> FileSink_open (ss_world st) (new_FileSink dest) (file_size m) resume =
       (True, ss_sink st', ss_world st')"
    using k w' o by auto
qed

subsection \<open>The chunk loop\<close>

definition chunk_offset :: "ManifestMsg \<Rightarrow> ChunkMsg \<Rightarrow> u64" where
  "chunk_offset m ck = ucast (index ck) * ucast (chunk_size m)"

lemma unat_chunk_offset: "unat (chunk_offset m ck) = unat (index ck) * unat (chunk_size m)"
proof -
  have "unat (index ck) \<le> 2 ^ 32 - 1" "unat (chunk_size m) \<le> 2 ^ 32 - 1"
    using unat_less_u32 [of "index ck"] unat_less_u32 [of "chunk_size m"] by simp_all
  then have "unat (index ck) * unat (chunk_size m) \<le> (2 ^ 32 - 1) * (2 ^ 32 - 1)" by (rule mult_le_mono)
  then show ?thesis
    by (simp add: chunk_offset_def unat_word_ariths)
qed

lemma chunk_end_bound:
  assumes "length (data ck) \<le> kDefaultMaxPayload"
  shows "unat (chunk_offset m ck) + length (data ck) < 2 ^ 64"
proof -
  have "unat (index ck) \<le> 2 ^ 32 - 1" "unat (chunk_size m) \<le> 2 ^ 32 - 1"
    using unat_less_u32 [of "index ck"] unat_less_u32 [of "chunk_size m"] by simp_all
  then have "unat (index ck) * unat (chunk_size m) \<le> (2 ^ 32 - 1) * (2 ^ 32 - 1)" by (rule mult_le_mono)
  then show ?thesis using assms by (simp add: unat_chunk_offset kDefaultMaxPayload_def)
qed

text \<open>What holds after the chunks \<open>cks\<close> have been stored in this order.\<close>

definition transferred ::
    "('s, 'h) session_env \<Rightarrow> ManifestMsg \<Rightarrow> ResumeState \<Rightarrow> bool \<Rightarrow> FileSink \<Rightarrow> world \<Rightarrow> ChunkMsg list \<Rightarrow>
     'h transfer \<Rightarrow> 's session \<Rightarrow> bool" where
  "transferred env m rs resume k1 w1 cks tr st \<longleftrightarrow>
     (\<forall>ck\<in>set cks. index ck < chunk_count m \<and>
        blake3 (e_b3 env) (data ck) = chunk_hashes m ! unat (index ck)) \<and>
     sink.writes w1 k1 (map (\<lambda>ck. (chunk_offset m ck, data ck)) cks) (ss_world st) (ss_sink st) \<and>
     wf_state (tr_state tr) \<and> rs_chunk_count (tr_state tr) = chunk_count m \<and>
     received (tr_state tr) = received rs \<union> (\<lambda>ck. unat (index ck)) ` set cks \<and>
     tr_bytes_received tr = word_of_nat (sum_list (map (\<lambda>ck. length (data ck)) cks)) \<and>
     tr_chunks_received tr = word_of_nat (length cks) \<and>
     (tr_all_in_order tr \<longrightarrow>
        \<not> resume \<and> length cks \<le> unat (chunk_count m) \<and>
        map (\<lambda>ck. unat (index ck)) cks = [0..<length cks] \<and>
        tr_next_expected tr = word_of_nat (length cks) \<and>
        tr_hasher tr = foldl (Blake3Hasher_update (e_b3 env)) (Blake3Hasher_new (e_b3 env)) (map data cks)) \<and>
     (resume \<longrightarrow> \<not> tr_all_in_order tr)"


definition advance_order :: "('s, 'h) session_env \<Rightarrow> ChunkMsg \<Rightarrow> 'h transfer \<Rightarrow> 'h transfer" where
  "advance_order env ck tr =
     (if tr_all_in_order tr \<and> index ck = tr_next_expected tr
      then tr\<lparr>tr_hasher := Blake3Hasher_update (e_b3 env) (tr_hasher tr) (data ck),
              tr_next_expected := tr_next_expected tr + 1\<rparr>
      else tr\<lparr>tr_all_in_order := False\<rparr>)"

lemma advance_order_simps [simp]:
  "tr_state (advance_order env ck tr) = tr_state tr"
  "tr_bytes_received (advance_order env ck tr) = tr_bytes_received tr"
  "tr_chunks_received (advance_order env ck tr) = tr_chunks_received tr"
  "tr_client_final_root_hash (advance_order env ck tr) = tr_client_final_root_hash tr"
  by (simp_all add: advance_order_def)

lemma advance_order_in_order:
  assumes "transferred env m rs resume k1 w1 cks tr st" "index ck < chunk_count m"
    and "tr_all_in_order (advance_order env ck tr)"
  shows "\<not> resume" "length (cks @ [ck]) \<le> unat (chunk_count m)"
    "map (\<lambda>ck. unat (index ck)) (cks @ [ck]) = [0..<length (cks @ [ck])]"
    "tr_next_expected (advance_order env ck tr) = word_of_nat (length (cks @ [ck]))"
    "tr_hasher (advance_order env ck tr) =
       foldl (Blake3Hasher_update (e_b3 env)) (Blake3Hasher_new (e_b3 env)) (map data (cks @ [ck]))"
proof -
  have o: "tr_all_in_order tr" "index ck = tr_next_expected tr"
    using assms(3) by (auto simp: advance_order_def split: if_splits)
  have t: "\<not> resume" "length cks \<le> unat (chunk_count m)" "map (\<lambda>ck. unat (index ck)) cks = [0..<length cks]"
    "tr_next_expected tr = word_of_nat (length cks)"
    "tr_hasher tr = foldl (Blake3Hasher_update (e_b3 env)) (Blake3Hasher_new (e_b3 env)) (map data cks)"
    using assms(1) o(1) by (auto simp: transferred_def)
  have "length cks < 2 ^ 32" using t(2) unat_less_u32 [of "chunk_count m"] by simp
  then have idx: "unat (index ck) = length cks" using o(2) t(4) by simp
  then have "length cks < unat (chunk_count m)" using assms(2) by (simp add: word_less_nat_alt)
  then show "\<not> resume" "length (cks @ [ck]) \<le> unat (chunk_count m)"
    "map (\<lambda>ck. unat (index ck)) (cks @ [ck]) = [0..<length (cks @ [ck])]"
    "tr_next_expected (advance_order env ck tr) = word_of_nat (length (cks @ [ck]))"
    "tr_hasher (advance_order env ck tr) =
       foldl (Blake3Hasher_update (e_b3 env)) (Blake3Hasher_new (e_b3 env)) (map data (cks @ [ck]))"
    using t idx o by (simp_all add: advance_order_def add.commute)
qed

abbreviation loop_files :: "string \<Rightarrow> string set" where
  "loop_files dest \<equiv> {partial_path dest, state_path dest, state_tmp (state_path dest)}"

lemma store_chunk_result:
  assumes t: "transferred env m rs resume k1 w1 cks tr st" and k: "sink_on dest (ss_sink st)"
    "sk_partial_path k1 = partial_path dest"
    and ck: "index ck < chunk_count m" "blake3 (e_b3 env) (data ck) = chunk_hashes m ! unat (index ck)"
      "length (data ck) \<le> kDefaultMaxPayload"
    and r: "store_chunk env m dest ck tr st = (stt, tr', st')"
  shows "unchanged_outside (loop_files dest) (ss_world st) (ss_world st')" "sink_on dest (ss_sink st')"
    "stt = Running \<and> transferred env m rs resume k1 w1 (cks @ [ck]) tr' st' \<or> stt = Failed ReturnFalse"
proof -
  let ?tr = "advance_order env ck tr"
  obtain ok sk w2 where wr: "FileSink_write_at (ss_world st) (ss_sink st) (chunk_offset m ck) (data ck) = (ok, sk, w2)"
    by (metis surj_pair)
  note f = write_at_sink_on [OF k(1) wr]
  have u2: "unchanged_outside (loop_files dest) (ss_world st) w2" by (rule unchanged_mono [OF f(1)]) simp
  have "wf_state (tr_state tr)" using t by (simp add: transferred_def)
  then obtain s where s: "mark_received (tr_state tr) (index ck) = Some s" "wf_state s"
    "rs_chunk_count s = rs_chunk_count (tr_state tr)"
    "received s = (if index ck < rs_chunk_count (tr_state tr)
       then insert (unat (index ck)) (received (tr_state tr)) else received (tr_state tr))"
    by (rule mark_received_wf)
  obtain x w3 where sv: "save w2 s (state_path dest) = (x, w3)" by fastforce
  have u3: "unchanged_outside {state_path dest, state_tmp (state_path dest)} w2 w3" by (rule save_result(1) [OF sv])
  have res: "(stt, tr', st') =
      (if \<not> ok then loop_reject env ?tr (st\<lparr>ss_world := w2, ss_sink := sk\<rparr>) InternalError (sk_last_error sk)
       else (Running, ?tr\<lparr>tr_state := s,
               tr_bytes_received := tr_bytes_received ?tr + word_of_nat (length (data ck)),
               tr_chunks_received := tr_chunks_received ?tr + 1\<rparr>,
             st\<lparr>ss_world := w3, ss_sink := sk\<rparr>))"
    using r wr s(1) sv unfolding store_chunk_def Let_def chunk_offset_def [symmetric]
      advance_order_def [symmetric] by (cases ok) auto
  show "unchanged_outside (loop_files dest) (ss_world st) (ss_world st')" "sink_on dest (ss_sink st')"
    using res u2 unchanged_trans [OF u2 unchanged_mono [OF u3]] f(2)
    by (auto simp: loop_reject_def split: if_splits)
  show "stt = Running \<and> transferred env m rs resume k1 w1 (cks @ [ck]) tr' st' \<or> stt = Failed ReturnFalse"
  proof (cases ok)
    case False
    then show ?thesis using res by (simp add: loop_reject_def)
  next
    case True
    have "sink.writes w1 k1 (map (\<lambda>ck. (chunk_offset m ck, data ck)) cks) (ss_world st) (ss_sink st)"
      using t by (simp add: transferred_def)
    then have "sink.writes w1 k1 (map (\<lambda>ck. (chunk_offset m ck, data ck)) cks @ [(chunk_offset m ck, data ck)]) w2 sk"
      by (rule sink.written) (use wr True chunk_end_bound [OF ck(3)] in simp_all)
    moreover have "files w3 (sk_partial_path sk) = files w2 (sk_partial_path sk)"
      using u3 f(2) by (simp add: unchanged_outside_def sink_on_def)
    ultimately have "sink.writes w1 k1 (map (\<lambda>ck. (chunk_offset m ck, data ck)) (cks @ [ck])) w3 sk"
      using sink.other by fastforce
    then show ?thesis
      using res True t s ck advance_order_in_order [OF t ck(1)]
      by (auto simp: transferred_def ac_simps)
  qed
qed


text \<open>
  The invariant of the loop. The sink was opened as \<open>k1\<close> in the world \<open>w1\<close>; since the world \<open>w0\<close> only
  the files of the loop have changed.
\<close>

definition loop_inv ::
    "('s, 'h) session_env \<Rightarrow> ManifestMsg \<Rightarrow> string \<Rightarrow> ResumeState \<Rightarrow> bool \<Rightarrow> FileSink \<Rightarrow> world \<Rightarrow> world \<Rightarrow>
     ('s, 'h) loop \<Rightarrow> bool" where
  "loop_inv env m dest rs resume k1 w1 w0 l \<longleftrightarrow>
     (case l of (stt, tr, st) \<Rightarrow>
        unchanged_outside (loop_files dest) w0 (ss_world st) \<and> sink_on dest (ss_sink st) \<and>
        (stt = Failed ReturnFalse \<or>
         (stt = Running \<or> stt = Finished) \<and> (\<exists>cks. transferred env m rs resume k1 w1 cks tr st)))"

lemma transferred_cong:
  "transferred env m rs resume k1 w1 cks tr st \<Longrightarrow> ss_world st' = ss_world st \<Longrightarrow> ss_sink st' = ss_sink st \<Longrightarrow>
   transferred env m rs resume k1 w1 cks (tr\<lparr>tr_client_final_root_hash := h\<rparr>) st'"
  "transferred env m rs resume k1 w1 cks tr st \<Longrightarrow> ss_world st' = ss_world st \<Longrightarrow> ss_sink st' = ss_sink st \<Longrightarrow>
   transferred env m rs resume k1 w1 cks tr st'"
  by (simp_all add: transferred_def)

lemma valid_manifest_hash: "valid_manifest m \<Longrightarrow> i < chunk_count m \<Longrightarrow>
    vec_at (chunk_hashes m) (unat i) = Some (chunk_hashes m ! unat i)"
  by (simp add: valid_manifest_def vec_at_def word_less_nat_alt)

lemma loop_inv_reject:
  assumes "unchanged_outside (loop_files dest) w0 (ss_world st)" "sink_on dest (ss_sink st)"
  shows "loop_inv env m dest rs resume k1 w1 w0 (loop_reject env tr st ec msg)"
    "loop_inv env m dest rs resume k1 w1 w0 (Failed ReturnFalse, tr, st)"
  using assms by (simp_all add: loop_inv_def loop_reject_def)

lemma check_chunk_inv:
  assumes m: "valid_manifest m" and k1: "sk_partial_path k1 = partial_path dest"
    and t: "transferred env m rs resume k1 w1 cks tr st" and u: "unchanged_outside (loop_files dest) w0 (ss_world st)"
    and k: "sink_on dest (ss_sink st)" and len: "length (data ck) \<le> kDefaultMaxPayload"
  shows "loop_inv env m dest rs resume k1 w1 w0 (check_chunk env m dest ck tr st)"
proof (cases "index ck < chunk_count m \<and> blake3 (e_b3 env) (data ck) = hash ck \<and>
    chunk_hashes m ! unat (index ck) = hash ck")
  case True
  obtain stt tr' st' where r: "store_chunk env m dest ck tr st = (stt, tr', st')" by (metis surj_pair)
  have "check_chunk env m dest ck tr st = (stt, tr', st')"
    using True r valid_manifest_hash [OF m] by (auto simp: check_chunk_def)
  moreover have "loop_inv env m dest rs resume k1 w1 w0 (stt, tr', st')"
    using store_chunk_result [OF t k k1 _ _ len r] True u by (auto simp: loop_inv_def intro: unchanged_trans)
  ultimately show ?thesis by simp
next
  case False
  then show ?thesis
    using loop_inv_reject [OF u k] valid_manifest_hash [OF m, of "index ck"] by (auto simp: check_chunk_def not_le)
qed

lemma chunk_step_inv:
  assumes m: "valid_manifest m" and k1: "sk_partial_path k1 = partial_path dest"
    and inv: "loop_inv env m dest rs resume k1 w1 w0 l" and run: "fst l = Running"
  shows "loop_inv env m dest rs resume k1 w1 w0 (chunk_step env m dest l)"
proof -
  obtain tr st where l: "l = (Running, tr, st)" using run by (cases l) auto
  obtain cks where t: "transferred env m rs resume k1 w1 cks tr st"
    and u: "unchanged_outside (loop_files dest) w0 (ss_world st)" and k: "sink_on dest (ss_sink st)"
    using inv by (auto simp: loop_inv_def l)
  obtain f st1 where f: "session_recv env st = (f, st1)" by fastforce
  have st1: "ss_world st1 = ss_world st" "ss_sink st1 = ss_sink st"
    using session_recv_simps [of env st] unfolding f by simp_all
  note t1 = transferred_cong [OF t st1]
  have u1: "unchanged_outside (loop_files dest) w0 (ss_world st1)" "sink_on dest (ss_sink st1)" using u k st1 by simp_all
  note fail = loop_inv_reject [OF u1] and store = check_chunk_inv [OF m k1 t1(2) u1]
  show ?thesis
  proof (cases f)
    case None
    then show ?thesis using fail by (simp add: chunk_step_def l f)
  next
    case (Some fr)
    have fin: "loop_inv env m dest rs resume k1 w1 w0 (Finished, tr\<lparr>tr_client_final_root_hash := h\<rparr>, st1)" for h
      using t1(1) u k st1 by (auto simp: loop_inv_def)
    have "length (data ck) \<le> kDefaultMaxPayload" if "decode_chunk (payload fr) = Some ck" for ck
    proof -
      have "payload fr = encode_chunk ck" using that chunk.dec_iff by blast
      then show ?thesis
        using session_recv_bound [of env st fr st1] f Some by (simp add: codec_simps)
    qed
    then show ?thesis
      using fail fin store Some by (auto simp: chunk_step_def l f split: option.splits)
  qed
qed

lemma chunk_loop_inv:
  assumes "valid_manifest m" "sk_partial_path k1 = partial_path dest"
    and "loop_inv env m dest rs resume k1 w1 w0 (Running, tr, st)" "chunk_loop env m dest tr st = Some l"
  shows "loop_inv env m dest rs resume k1 w1 w0 l" "fst l \<noteq> Running"
proof -
  show "loop_inv env m dest rs resume k1 w1 w0 l"
    using assms(4) unfolding chunk_loop_def
    by (rule while_option_rule [rotated]) (use assms(1-3) chunk_step_inv in blast)+
  show "fst l \<noteq> Running" using while_option_stop [OF assms(4) [unfolded chunk_loop_def]] by simp
qed

lemma loop_inv_start:
  assumes "wf_state rs" "rs_chunk_count rs = chunk_count m" "sink_on dest (ss_sink st)"
    "resume \<or> received rs = {}"
  shows "loop_inv env m dest rs resume (ss_sink st) (ss_world st) (ss_world st)
    (Running, new_transfer (e_b3 env) rs resume, st)"
proof -
  have "transferred env m rs resume (ss_sink st) (ss_world st) [] (new_transfer (e_b3 env) rs resume) st"
    using assms sink.none by (auto simp: transferred_def new_transfer_def)
  then show ?thesis using assms(3) by (auto simp: loop_inv_def)
qed


subsection \<open>Reading the file back\<close>

lemma is_read_prefix:
  assumes "is_read w fb n = (got, fb', w')" "is_good fb"
  shows "\<exists>k. got = take k (take n (drop (is_pos fb) (content w (is_path fb))))"
    "is_good fb' \<Longrightarrow> got = take n (drop (is_pos fb) (content w (is_path fb))) \<and> length got = n"
    "faults w = [] \<Longrightarrow> got = take n (drop (is_pos fb) (content w (is_path fb))) \<and> faults w' = [] \<and>
      (is_good fb' \<or> length got < n)"
    "is_pos fb' = is_pos fb + length got" "is_path fb' = is_path fb" "files w' = files w"
proof -
  obtain e w0 where e: "next_fault w = (e, w0)" by fastforce
  note c = next_fault_content [OF e] and f = next_fault_files [OF e]
  let ?got = "take n (drop (is_pos fb) (content w (is_path fb)))"
  consider (ok) "e = NoFault" "got = ?got" "fb' = fb\<lparr>is_pos := is_pos fb + length got,
      is_good := (length got = n), is_eof := (length got \<noteq> n)\<rparr>" "w' = w0"
    | (bad) k where "e = Fault k" "got = take k ?got" "fb' = fb\<lparr>is_pos := is_pos fb + length got, is_good := False\<rparr>" "w' = w0"
    using assms e c by (cases e) (auto simp: is_read_def Let_def)
  note res = this
  show "\<exists>k. got = take k ?got" by (cases rule: res) (auto intro: exI [of _ n])
  show "got = ?got \<and> length got = n" if "is_good fb'" by (cases rule: res) (use that in auto)
  show "got = ?got \<and> faults w' = [] \<and> (is_good fb' \<or> length got < n)" if "faults w = []"
    by (cases rule: res) (use that e in \<open>auto simp: fs_simps\<close>)
  show "is_pos fb' = is_pos fb + length got" "is_path fb' = is_path fb" "files w' = files w"
    using f by (cases rule: res; simp)+
qed

text \<open>The read-back loop hashes a prefix of the file, all of it when no read fails.\<close>

definition hashes_rest :: "'h blake3_lib \<Rightarrow> world \<Rightarrow> ifstream \<Rightarrow> 'h \<Rightarrow> 'h \<Rightarrow> bool" where
  "hashes_rest lib w fb h h' \<longleftrightarrow>
     (\<exists>ds n. h' = foldl (Blake3Hasher_update lib) h ds \<and>
        concat ds = take n (drop (is_pos fb) (content w (is_path fb))) \<and>
        (faults w = [] \<longrightarrow> is_good fb \<longrightarrow> length (content w (is_path fb)) \<le> is_pos fb + n))"

lemma hashes_rest_none: "\<not> is_good fb \<Longrightarrow> hashes_rest lib w fb h h"
  unfolding hashes_rest_def by (intro exI [of _ "[]"] exI [of _ 0]) simp

lemma hashes_rest_more:
  assumes r: "is_read w fb kReadBack = (got, fb1, w1)" "is_good fb" "is_good fb1"
    and h: "hashes_rest lib w1 fb1 (Blake3Hasher_update lib h got) h'"
  shows "hashes_rest lib w fb h h'"
proof -
  note p = is_read_prefix [OF r(1,2)]
  let ?c = "content w (is_path fb)" and ?x = "drop (is_pos fb) (content w (is_path fb))"
  have c1: "content w1 (is_path fb1) = ?c" using p(5,6) by (simp add: content_def)
  obtain ds n where ds: "h' = foldl (Blake3Hasher_update lib) h (got # ds)" "concat ds = take n (drop (is_pos fb1) ?c)"
    "faults w1 = [] \<longrightarrow> length ?c \<le> is_pos fb1 + n" using h r(3) c1 by (auto simp: hashes_rest_def)
  have g: "got = take kReadBack ?x" "length got = kReadBack" using p(2) [OF r(3)] by blast+
  have "drop (is_pos fb1) ?c = drop kReadBack ?x" using p(4) g(2) by (simp add: add.commute)
  then have "concat (got # ds) = take (length got + n) ?x" using ds(2) g by (simp add: take_add)
  moreover have "faults w = [] \<longrightarrow> length ?c \<le> is_pos fb + (length got + n)"
    using ds(3) p(3) unfolding p(4) add.assoc by blast
  ultimately show ?thesis using ds(1) unfolding hashes_rest_def by blast
qed

lemma hashes_rest_last:
  assumes r: "is_read w fb kReadBack = (got, fb1, w1)" "is_good fb" "\<not> is_good fb1"
  shows "hashes_rest lib w fb h (Blake3Hasher_update lib h got)"
proof -
  note p = is_read_prefix [OF r(1,2)]
  let ?c = "content w (is_path fb)"
  obtain k where k: "got = take k (take kReadBack (drop (is_pos fb) ?c))" using p(1) by blast
  have "length ?c \<le> is_pos fb + min k kReadBack" if quiet: "faults w = []"
  proof -
    have "length got < kReadBack" "length got = min kReadBack (length ?c - is_pos fb)"
      using p(3) [OF quiet] r(3) by (blast, simp)
    moreover have "length got \<le> min k kReadBack" unfolding k length_take by linarith
    ultimately show ?thesis by linarith
  qed
  moreover have "concat [got] = take (min k kReadBack) (drop (is_pos fb) ?c)" using k by simp
  moreover have "Blake3Hasher_update lib h got = foldl (Blake3Hasher_update lib) h [got]" by simp
  ultimately show ?thesis unfolding hashes_rest_def by blast
qed

lemma read_back_result:
  assumes "read_back lib w fb h = (h', w')"
  shows "hashes_rest lib w fb h h' \<and> files w' = files w \<and> (faults w = [] \<longrightarrow> faults w' = [])"
  using assms
proof (induction lib w fb h rule: read_back.induct)
  case (1 lib w fb h)
  show ?case
  proof (cases "is_good fb")
    case False
    then show ?thesis using "1.prems" hashes_rest_none by (simp add: read_back.simps)
  next
    case True
    obtain got fb1 w1 where r: "is_read w fb kReadBack = (got, fb1, w1)" by (metis surj_pair)
    note p = is_read_prefix [OF r True]
    have upd: "(if got \<noteq> [] then Blake3Hasher_update lib h got else h) = Blake3Hasher_update lib h got"
      by (simp add: Blake3Hasher_update_def)
    have rb: "read_back lib w1 fb1 (Blake3Hasher_update lib h got) = (h', w')"
      using "1.prems" True r by (subst (asm) read_back.simps) (simp only: if_False not_True_eq_False Let_def prod.case upd)
    have IH: "hashes_rest lib w1 fb1 (Blake3Hasher_update lib h got) h' \<and> files w' = files w1 \<and> (faults w1 = [] \<longrightarrow> faults w' = [])"
      using "1.IH" [OF _ r [symmetric] refl refl, unfolded upd, OF _ rb] True by simp
    moreover have "hashes_rest lib w fb h h'"
    proof (cases "is_good fb1")
      case good: True
      show ?thesis by (rule hashes_rest_more [OF r True good conjunct1 [OF IH]])
    next
      case False
      then have "h' = Blake3Hasher_update lib h got" using rb by (simp add: read_back.simps)
      then show ?thesis using hashes_rest_last [OF r True False] by simp
    qed
    ultimately show ?thesis using p(3,6) by auto
  qed
qed

text \<open>Reading back a file from its beginning.\<close>

lemma read_back_file:
  assumes o: "is_open_read w p = (fb, w1)" "is_open fb" and r: "read_back lib w1 fb h = (h', w')"
  obtains ds n where "h' = foldl (Blake3Hasher_update lib) h ds" "concat ds = take n (content w p)"
    "files w' = files w" "faults w = [] \<Longrightarrow> length (content w p) \<le> n \<and> faults w' = []"
proof -
  have fb: "fb = \<lparr>is_open = True, is_path = p, is_pos = 0, is_good = True, is_eof = False\<rparr>"
    using o by (auto simp: is_open_read_def closed_ifstream_def split: prod.splits if_splits option.splits node.splits)
  have w1: "files w1 = files w" "content w1 p = content w p" "faults w = [] \<Longrightarrow> faults w1 = []"
    using o(1) queries_unchanged(4) [of w p]
    by (auto simp: content_def is_open_read_def fs_simps split: option.splits node.splits)
  show thesis using read_back_result [OF r] w1 fb that by (auto simp: hashes_rest_def)
qed

end
