(* ===== verification/Ftx_Session.thy ===== *)
theory Ftx_Session
  imports Ftx_Server
begin

text \<open>
  Theorems about a whole receiving session: what it may touch, that it never indexes out of range,
  and what it guarantees of the file it puts in place, for every peer, network and schedule of
  file-system faults.
\<close>

subsection \<open>Verification and completion\<close>

lemma session_root_hash_result:
  assumes "sink_on dest (ss_sink st)" "sink_ready (ss_world st) (ss_sink st)"
    and "session_root_hash env tr st = (r, st')"
  shows "unchanged_outside {partial_path dest} (ss_world st) (ss_world st')" "sink_on dest (ss_sink st')"
    "r \<noteq> Inl Undefined"
    "r = Inr h \<Longrightarrow> sink_ready (ss_world st') (ss_sink st') \<and>
       sink_view (ss_world st') (ss_sink st') = sink_view (ss_world st) (ss_sink st) \<and>
       (if tr_all_in_order tr then h = Blake3Hasher_finalize (e_b3 env) (tr_hasher tr)
        else \<exists>ds n. h = Blake3Hasher_finalize (e_b3 env)
               (foldl (Blake3Hasher_update (e_b3 env)) (Blake3Hasher_new (e_b3 env)) ds) \<and>
             concat ds = take n (sink_view (ss_world st) (ss_sink st)))"
proof -
  let ?lib = "e_b3 env" and ?w = "ss_world st" and ?k = "ss_sink st"
  obtain ok k1 w1 where fl: "FileSink_flush ?w ?k = (ok, k1, w1)" by (metis surj_pair)
  obtain fb w2 where fb: "is_open_read w1 (sk_partial_path k1) = (fb, w2)" by fastforce
  obtain h' w3 where rb: "read_back ?lib w2 fb (Blake3Hasher_new ?lib) = (h', w3)" by fastforce
  note k1 = flush_sink_on [OF assms(1) fl]
  have f2: "files w2 = files w1" using queries_unchanged(4) [of w1 "sk_partial_path k1"] fb by simp
  have f3: "files w3 = files w1" using read_back_result [OF rb] f2 by simp
  have u: "unchanged_outside {partial_path dest} ?w v" if "files v = files w1" for v
    using k1(1) that by (simp add: unchanged_outside_def)
  let ?st2 = "st\<lparr>ss_world := w1, ss_sink := k1, ss_world := w2\<rparr>"
  have res: "tr_all_in_order tr \<and> (r, st') = (Inr (Blake3Hasher_finalize ?lib (tr_hasher tr)), st) \<or>
      \<not> tr_all_in_order tr \<and> (r = Inl ReturnFalse \<and> ss_sink st' = k1 \<and> (ss_world st' = w1 \<or> ss_world st' = w2) \<or>
        ok \<and> is_open fb \<and> r = Inr (Blake3Hasher_finalize ?lib h') \<and> ss_sink st' = k1 \<and> ss_world st' = w3)"
    using assms(3) fl fb rb by (auto simp: session_root_hash_def reject_def Let_def split: if_splits)
  show "unchanged_outside {partial_path dest} ?w (ss_world st')" "sink_on dest (ss_sink st')"
    "r \<noteq> Inl Undefined"
    using res u [of w1] u [OF f2] u [OF f3] k1 assms(1) by auto
  show "sink_ready (ss_world st') (ss_sink st') \<and> sink_view (ss_world st') (ss_sink st') = sink_view ?w ?k \<and>
       (if tr_all_in_order tr then h = Blake3Hasher_finalize ?lib (tr_hasher tr)
        else \<exists>ds n. h = Blake3Hasher_finalize ?lib
               (foldl (Blake3Hasher_update ?lib) (Blake3Hasher_new ?lib) ds) \<and>
             concat ds = take n (sink_view ?w ?k))" if r: "r = Inr h"
  proof (cases "tr_all_in_order tr")
    case True
    then show ?thesis using res r assms by auto
  next
    case False
    then have d: "ok" "is_open fb" "h = Blake3Hasher_finalize ?lib h'" "ss_sink st' = k1" "ss_world st' = w3"
      using res r by auto
    note ok = flush_ok [OF assms(2) fl [unfolded eqTrueI [OF d(1)]]]
    have "content w1 (sk_partial_path k1) = sink_view ?w ?k" using ok(3,4) by (simp add: same_sink_def)
    then obtain ds n where "h' = foldl (Blake3Hasher_update ?lib) (Blake3Hasher_new ?lib) ds"
      "concat ds = take n (sink_view ?w ?k)" using read_back_file [OF fb d(2) rb] by metis
    moreover have "sink_ready w3 k1 \<and> sink_view w3 k1 = sink_view w1 k1"
      using sink.undisturbed [OF ok(1)] f3 by metis
    ultimately show ?thesis using False d ok(2) by auto
  qed
qed

lemma session_finish_result:
  assumes "sink_on dest (ss_sink st)" "sink_ready (ss_world st) (ss_sink st)"
    and "session_finish env m dest st = (r, st')"
  shows "unchanged_outside (session_files dest) (ss_world st) (ss_world st')" "sink_on dest (ss_sink st')"
    "r \<noteq> Inl Undefined"
    "files (ss_world st') dest = files (ss_world st) dest \<or> files (ss_world st') dest = None \<or>
     files (ss_world st') dest = Some (Regular (sink_view (ss_world st) (ss_sink st)))"
    "r = Inr u \<Longrightarrow> files (ss_world st') dest = Some (Regular (sink_view (ss_world st) (ss_sink st))) \<and>
       files (ss_world st') (partial_path dest) = None"
proof -
  let ?w = "ss_world st" and ?k = "ss_sink st"
  obtain ok k1 w1 where fl: "FileSink_flush ?w ?k = (ok, k1, w1)" by (metis surj_pair)
  obtain ok2 k2 w2 where fi: "FileSink_finalize (e_ec_message env) w1 k1 = (ok2, k2, w2)" by (metis surj_pair)
  note k1 = flush_sink_on [OF assms(1) fl]
  have dest1: "files w1 dest = files ?w dest" using k1(1) by (simp add: unchanged_outside_def)
  let ?good = "\<lambda>w' k'. unchanged_outside (session_files dest) ?w w' \<and> sink_on dest k' \<and>
    (files w' dest = files ?w dest \<or> files w' dest = None \<or> files w' dest = Some (Regular (sink_view ?w ?k)))"
  have g1: "?good w1 k1" using k1 dest1 by (auto simp: session_files_def intro: unchanged_mono)
  have g2: "?good w2 k2 \<and> (ok2 \<longrightarrow> files w2 dest = Some (Regular (sink_view ?w ?k)) \<and> files w2 (partial_path dest) = None)"
    if ok
  proof -
    note fo = flush_ok [OF assms(2) fl [unfolded eqTrueI [OF that]]]
    have paths: "sk_partial_path k1 = partial_path dest" "sk_final_path k1 = dest"
      using k1(2) by (simp_all add: sink_on_def)
    note fr = finalize_result [OF fi, unfolded paths, OF session_files_distinct(2) fo(5)]
    obtain c where c: "files w1 (partial_path dest) = Some (Regular c)" using fo(1) paths by (auto simp: sink_ready_def)
    have "c = sink_view ?w ?k" using fo(3) c assms(1) by (simp add: content_def sink_on_def)
    moreover have "sk_partial_path k2 = partial_path dest" "sk_final_path k2 = dest"
      using fi paths by (auto simp: FileSink_finalize_def Let_def split: prod.splits if_splits)
    ultimately show ?thesis
      using fr c dest1 k1(1)
      by (cases ok2) (auto simp: sink_on_def unchanged_outside_def session_files_def)
  qed
  have rm: "?good (remove w2 (state_path dest)) k2 \<and>
      files (remove w2 (state_path dest)) dest = Some (Regular (sink_view ?w ?k)) \<and>
      files (remove w2 (state_path dest)) (partial_path dest) = None" if ok ok2
    using g2 that remove_files [of w2 "state_path dest"]
    by (auto simp: unchanged_outside_def session_files_def)
  have res: "\<not> (ok \<and> ok2) \<and> r = Inl ReturnFalse \<and>
        (\<not> ok \<and> ss_world st' = w1 \<and> ss_sink st' = k1 \<or> ok \<and> ss_world st' = w2 \<and> ss_sink st' = k2) \<or>
      ok \<and> ok2 \<and> r \<noteq> Inl Undefined \<and> ss_world st' = remove w2 (state_path dest) \<and> ss_sink st' = k2"
    using arg_cong [OF assms(3), of fst] arg_cong [OF assms(3), of snd] fl fi
    by (auto simp: session_finish_def Let_def split: if_splits)
  show "unchanged_outside (session_files dest) ?w (ss_world st')" "sink_on dest (ss_sink st')"
    "r \<noteq> Inl Undefined"
    "files (ss_world st') dest = files ?w dest \<or> files (ss_world st') dest = None \<or>
     files (ss_world st') dest = Some (Regular (sink_view ?w ?k))"
    "r = Inr u \<Longrightarrow> files (ss_world st') dest = Some (Regular (sink_view ?w ?k)) \<and>
       files (ss_world st') (partial_path dest) = None"
    using res g1 g2 rm by auto
qed


subsection \<open>What an accepted file is\<close>

text \<open>The incremental hash of a sequence of pieces.\<close>

definition digest :: "'h blake3_lib \<Rightarrow> bytes list \<Rightarrow> bytes" where
  "digest lib ds =
     Blake3Hasher_finalize lib (foldl (Blake3Hasher_update lib) (Blake3Hasher_new lib) ds)"

lemma digest_blake3: "streaming lib \<Longrightarrow> digest lib ds = blake3 lib (concat ds)"
  by (simp add: digest_def update_concat finalize_update_new)

text \<open>
  A session that started from the content \<open>v0\<close> may put \<open>c\<close> in place: \<open>c\<close> is \<open>v0\<close> with chunks written at
  their offsets, each of which has the hash the manifest declares for its index and lies within the
  file; and either a prefix of \<open>c\<close> read back from disk has the root hash, or the session is a fresh
  one that took every chunk once and in order, as many bytes as declared, and the chunks together
  have the root hash.
\<close>

definition accepted ::
    "('s, 'h) session_env \<Rightarrow> ManifestMsg \<Rightarrow> bool \<Rightarrow> bytes \<Rightarrow> bytes \<Rightarrow> bool" where
  "accepted env m resume v0 c \<longleftrightarrow>
     (\<exists>cks. (\<forall>ck\<in>set cks. index ck < chunk_count m \<and>
           blake3 (e_b3 env) (data ck) = chunk_hashes m ! unat (index ck) \<and>
           unat (chunk_offset m ck) + length (data ck) \<le> unat (file_size m)) \<and>
        c = foldl place v0 (map (\<lambda>ck. (chunk_offset m ck, data ck)) cks) \<and>
        ((\<exists>n ds. concat ds = take n c \<and> digest (e_b3 env) ds = root_hash m) \<or>
         \<not> resume \<and> map (\<lambda>ck. unat (index ck)) cks = [0..<unat (chunk_count m)] \<and>
         word_of_nat (sum_list (map (\<lambda>ck. length (data ck)) cks)) = file_size m \<and>
         digest (e_b3 env) (map data cks) = root_hash m))"

text \<open>
  The destination after a step: as before, absent, a directory created on the way to the
  destination, or an accepted file.
\<close>

definition dest_safe ::
    "('s, 'h) session_env \<Rightarrow> ManifestMsg \<Rightarrow> bool \<Rightarrow> bytes \<Rightarrow> string \<Rightarrow> world \<Rightarrow> world \<Rightarrow> bool" where
  "dest_safe env m resume v0 dest w w' \<longleftrightarrow>
     files w' dest = files w dest \<or> files w' dest = None \<or>
     files w dest = None \<and> files w' dest = Some Directory \<or>
     (\<exists>c. files w' dest = Some (Regular c) \<and> accepted env m resume v0 c)"

lemma session_counts_result:
  assumes "session_counts env m resume tr st = (r, st')" "wf_state (tr_state tr)"
  shows "ss_world st' = ss_world st" "ss_sink st' = ss_sink st" "r \<noteq> Inl Undefined"
    "r = Inr u \<Longrightarrow> \<not> resume \<Longrightarrow>
       tr_bytes_received tr = file_size m \<and> tr_chunks_received tr = chunk_count m"
    "r = Inr u \<Longrightarrow> resume \<Longrightarrow> complete (tr_state tr) = Some True"
  using arg_cong [OF assms(1), of fst] arg_cong [OF assms(1), of snd] complete_wf [OF assms(2)]
  by (auto simp: session_counts_def split: if_splits)

lemma session_compare_result:
  assumes "session_compare env m tr h st = (r, st')"
  shows "ss_world st' = ss_world st" "ss_sink st' = ss_sink st" "r \<noteq> Inl Undefined"
    "r = Inr u \<Longrightarrow> h = root_hash m \<and> h = tr_client_final_root_hash tr"
  using arg_cong [OF assms(1), of fst] arg_cong [OF assms(1), of snd]
  by (auto simp: session_compare_def split: if_splits)

lemma accepted_view:
  assumes t: "transferred env m rs resume k1 w1 cks tr st" and ready: "sink_ready w1 k1"
    and size: "sk_total_size k1 = file_size m"
    and h: "h = root_hash m"
      "if tr_all_in_order tr then h = Blake3Hasher_finalize (e_b3 env) (tr_hasher tr) \<and>
          tr_chunks_received tr = chunk_count m \<and> tr_bytes_received tr = file_size m
       else \<exists>ds n. h = Blake3Hasher_finalize (e_b3 env)
              (foldl (Blake3Hasher_update (e_b3 env)) (Blake3Hasher_new (e_b3 env)) ds) \<and>
            concat ds = take n (sink_view (ss_world st) (ss_sink st))"
  shows "accepted env m resume (sink_view w1 k1) (sink_view (ss_world st) (ss_sink st))"
proof -
  have wr: "sink.writes w1 k1 (map (\<lambda>ck. (chunk_offset m ck, data ck)) cks) (ss_world st) (ss_sink st)"
    and cks: "\<forall>ck\<in>set cks. index ck < chunk_count m \<and>
        blake3 (e_b3 env) (data ck) = chunk_hashes m ! unat (index ck)"
    and n: "tr_chunks_received tr = word_of_nat (length cks)"
      "tr_bytes_received tr = word_of_nat (sum_list (map (\<lambda>ck. length (data ck)) cks))"
    and ord: "tr_all_in_order tr \<Longrightarrow> \<not> resume \<and> length cks \<le> unat (chunk_count m) \<and>
        map (\<lambda>ck. unat (index ck)) cks = [0..<length cks] \<and>
        tr_hasher tr = foldl (Blake3Hasher_update (e_b3 env)) (Blake3Hasher_new (e_b3 env)) (map data cks)"
    using t by (auto simp: transferred_def)
  note v = sink.writes_view [OF wr ready]
  have bounded: "\<forall>ck\<in>set cks. unat (chunk_offset m ck) + length (data ck) \<le> unat (file_size m)"
    using v size by simp
  let ?c = "sink_view (ss_world st) (ss_sink st)"
  have "(\<exists>n ds. concat ds = take n ?c \<and> digest (e_b3 env) ds = root_hash m) \<or>
      \<not> resume \<and> map (\<lambda>ck. unat (index ck)) cks = [0..<unat (chunk_count m)] \<and>
      word_of_nat (sum_list (map (\<lambda>ck. length (data ck)) cks)) = file_size m \<and>
      digest (e_b3 env) (map data cks) = root_hash m"
  proof (cases "tr_all_in_order tr")
    case True
    then have o: "length cks \<le> unat (chunk_count m)" "chunk_count m = word_of_nat (length cks)"
      using ord n h(2) by auto
    then have "length cks < 2 ^ 32" using unat_less_u32 [of "chunk_count m"] by simp
    then have "unat (chunk_count m) = length cks" unfolding o(2) by (rule unat_of_nat_u32)
    then show ?thesis using ord True h n by (auto simp: digest_def)
  next
    case False
    then show ?thesis using h unfolding digest_def by metis
  qed
  then show ?thesis using v cks bounded unfolding accepted_def by blast
qed

text \<open>The checks before the file is put in place.\<close>

definition session_check ::
    "('s, 'h) session_env \<Rightarrow> ManifestMsg \<Rightarrow> bool \<Rightarrow> 'h transfer \<Rightarrow> 's session \<Rightarrow> (unit, 's) phase" where
  "session_check env m resume tr st =
     (case session_counts env m resume tr st of
        (Inl e, st) \<Rightarrow> (Inl e, st)
      | (Inr _, st) \<Rightarrow>
          (case session_root_hash env tr st of
             (Inl e, st) \<Rightarrow> (Inl e, st)
           | (Inr actual, st) \<Rightarrow> session_compare env m tr actual st))"

lemma session_verify_check:
  "session_verify env m dest resume tr st =
     and_then (session_check env m resume tr st) (\<lambda>_ st. Some (session_finish env m dest st))"
  by (auto simp: session_verify_def session_check_def and_then_def split: prod.splits sum.splits)

lemma session_check_result:
  assumes t: "transferred env m rs resume k1 w1 cks tr st" and k: "sink_on dest (ss_sink st)"
    and ready: "sink_ready w1 k1" and size: "sk_total_size k1 = file_size m"
    and r: "session_check env m resume tr st = (r, st')"
  shows "unchanged_outside {partial_path dest} (ss_world st) (ss_world st')" "sink_on dest (ss_sink st')"
    "r \<noteq> Inl Undefined"
    "r = Inr u \<Longrightarrow> sink_ready (ss_world st') (ss_sink st') \<and>
       accepted env m resume (sink_view w1 k1) (sink_view (ss_world st') (ss_sink st'))"
proof -
  let ?w = "ss_world st" and ?k = "ss_sink st"
  have wf: "wf_state (tr_state tr)" and rdy: "sink_ready ?w ?k"
    using t sink.writes_view [OF _ ready] by (auto simp: transferred_def)
  obtain r1 st1 where c: "session_counts env m resume tr st = (r1, st1)" by fastforce
  note c1 = session_counts_result [OF c wf]
  obtain r2 st2 where h: "session_root_hash env tr st1 = (r2, st2)" by fastforce
  note h2 = session_root_hash_result [OF _ _ h, of dest, unfolded c1(1,2), OF k rdy]
  consider (counts) e where "r1 = Inl e" "(r, st') = (Inl e, st1)"
    | (root) e where "r1 = Inr ()" "r2 = Inl e" "(r, st') = (Inl e, st2)"
    | (compare) hv where "r1 = Inr ()" "r2 = Inr hv" "session_compare env m tr hv st2 = (r, st')"
    using r c h by (cases r1; cases r2) (auto simp: session_check_def)
  then have "unchanged_outside {partial_path dest} ?w (ss_world st') \<and> sink_on dest (ss_sink st') \<and> r \<noteq> Inl Undefined \<and>
    (\<forall>u. r = Inr u \<longrightarrow> sink_ready (ss_world st') (ss_sink st') \<and>
       accepted env m resume (sink_view w1 k1) (sink_view (ss_world st') (ss_sink st')))"
  proof cases
    case counts
    then show ?thesis using c1(1-3) k by auto
  next
    case root
    then show ?thesis using h2(1-3) by auto
  next
    case compare
    note c3 = session_compare_result [OF compare(3)] and hr = h2(4) [OF compare(2)]
    have "accepted env m resume (sink_view w1 k1) (sink_view ?w ?k)" if "r = Inr u" for u
    proof -
      have "hv = root_hash m" using c3(4) [OF that] by simp
      moreover have "if tr_all_in_order tr
          then hv = Blake3Hasher_finalize (e_b3 env) (tr_hasher tr) \<and>
            tr_chunks_received tr = chunk_count m \<and> tr_bytes_received tr = file_size m
          else \<exists>ds n. hv = Blake3Hasher_finalize (e_b3 env)
            (foldl (Blake3Hasher_update (e_b3 env)) (Blake3Hasher_new (e_b3 env)) ds) \<and>
          concat ds = take n (sink_view ?w ?k)"
        using hr c1(4) [OF compare(1)] t by (auto simp: transferred_def split: if_splits)
      ultimately show ?thesis by (rule accepted_view [OF t ready size])
    qed
    then show ?thesis using h2(1,2) c3(1-3) hr by simp
  qed
  then show "unchanged_outside {partial_path dest} ?w (ss_world st')" "sink_on dest (ss_sink st')"
    "r \<noteq> Inl Undefined"
    "r = Inr u \<Longrightarrow> sink_ready (ss_world st') (ss_sink st') \<and>
       accepted env m resume (sink_view w1 k1) (sink_view (ss_world st') (ss_sink st'))" by blast+
qed

lemma session_verify_result:
  assumes t: "transferred env m rs resume k1 w1 cks tr st" and k: "sink_on dest (ss_sink st)"
    and ready: "sink_ready w1 k1" and size: "sk_total_size k1 = file_size m"
    and r: "session_verify env m dest resume tr st = Some (r, st')"
  shows "unchanged_outside (session_files dest) (ss_world st) (ss_world st')" "sink_on dest (ss_sink st')"
    "r \<noteq> Inl Undefined" "dest_safe env m resume (sink_view w1 k1) dest (ss_world st) (ss_world st')"
    "r = Inr u \<Longrightarrow> \<exists>c. files (ss_world st') dest = Some (Regular c) \<and>
       accepted env m resume (sink_view w1 k1) c \<and> files (ss_world st') (partial_path dest) = None"
proof -
  let ?w = "ss_world st"
  obtain r1 st1 where c: "session_check env m resume tr st = (r1, st1)" by fastforce
  note c1 = session_check_result [OF t k ready size c]
  have u1: "unchanged_outside (session_files dest) ?w (ss_world st1)" "files (ss_world st1) dest = files ?w dest"
    using c1(1) by (auto simp: session_files_def unchanged_outside_def)
  have "unchanged_outside (session_files dest) ?w (ss_world st') \<and> sink_on dest (ss_sink st') \<and>
    r \<noteq> Inl Undefined \<and> dest_safe env m resume (sink_view w1 k1) dest ?w (ss_world st') \<and>
    (\<forall>u. r = Inr u \<longrightarrow> (\<exists>c. files (ss_world st') dest = Some (Regular c) \<and>
       accepted env m resume (sink_view w1 k1) c \<and> files (ss_world st') (partial_path dest) = None))"
  proof (cases r1)
    case (Inl e)
    then have "(r, st') = (Inl e, st1)" using r c by (simp add: session_verify_check and_then_def)
    then show ?thesis using c1(2,3) u1 Inl by (cases e) (auto simp: dest_safe_def)
  next
    case (Inr x)
    have fin: "session_finish env m dest st1 = (r, st')"
      using r c Inr by (simp add: session_verify_check and_then_def)
    note acc = c1(4) [OF Inr]
    note f = session_finish_result [OF c1(2) conjunct1 [OF acc] fin]
    show ?thesis using f u1 acc unfolding dest_safe_def by (metis unchanged_trans)
  qed
  then show "unchanged_outside (session_files dest) ?w (ss_world st')" "sink_on dest (ss_sink st')"
    "r \<noteq> Inl Undefined" "dest_safe env m resume (sink_view w1 k1) dest ?w (ss_world st')"
    "r = Inr u \<Longrightarrow> \<exists>c. files (ss_world st') dest = Some (Regular c) \<and>
       accepted env m resume (sink_view w1 k1) c \<and> files (ss_world st') (partial_path dest) = None" by blast+
qed


lemma session_transfer_result:
  assumes m: "valid_manifest m" and rs: "wf_state rs" "rs_chunk_count rs = chunk_count m"
    and k: "sink_on dest (ss_sink st)" "sink_ready (ss_world st) (ss_sink st)"
      "sk_total_size (ss_sink st) = file_size m"
    and fresh: "resume \<or> received rs = {}"
    and r: "session_transfer env m dest rs resume st = Some (r, st')"
  shows "unchanged_outside (session_files dest) (ss_world st) (ss_world st')" "sink_on dest (ss_sink st')"
    "r \<noteq> Inl Undefined"
    "dest_safe env m resume (sink_view (ss_world st) (ss_sink st)) dest (ss_world st) (ss_world st')"
    "r = Inr u \<Longrightarrow> \<exists>c. files (ss_world st') dest = Some (Regular c) \<and>
       accepted env m resume (sink_view (ss_world st) (ss_sink st)) c \<and> files (ss_world st') (partial_path dest) = None"
proof -
  let ?w = "ss_world st" and ?k = "ss_sink st"
  obtain l where l: "chunk_loop env m dest (new_transfer (e_b3 env) rs resume) st = Some l"
    using r by (auto simp: session_transfer_def split: option.splits)
  obtain stt tr st1 where l3: "l = (stt, tr, st1)" by (cases l) auto
  have k1: "sk_partial_path ?k = partial_path dest" using k(1) by (simp add: sink_on_def)
  note inv = chunk_loop_inv [OF m k1 loop_inv_start [OF rs k(1) fresh] l, unfolded l3]
  have u: "unchanged_outside (loop_files dest) ?w (ss_world st1)" and k2: "sink_on dest (ss_sink st1)"
    using inv(1) by (simp_all add: loop_inv_def)
  then have u1: "unchanged_outside (session_files dest) ?w (ss_world st1)" "files (ss_world st1) dest = files ?w dest"
    by (auto simp: session_files_def unchanged_outside_def)
  consider "stt = Failed ReturnFalse" | cks where "stt = Finished" "transferred env m rs resume ?k ?w cks tr st1"
    using inv by (auto simp: loop_inv_def)
  then have "unchanged_outside (session_files dest) ?w (ss_world st') \<and> sink_on dest (ss_sink st') \<and>
      r \<noteq> Inl Undefined \<and> dest_safe env m resume (sink_view ?w ?k) dest ?w (ss_world st') \<and>
      (\<forall>u. r = Inr u \<longrightarrow> (\<exists>c. files (ss_world st') dest = Some (Regular c) \<and>
        accepted env m resume (sink_view ?w ?k) c \<and> files (ss_world st') (partial_path dest) = None))"
  proof cases
    case 1
    then have "(r, st') = (Inl ReturnFalse, st1)" using r l l3 by (simp add: session_transfer_def)
    then show ?thesis using u1 k2 by (simp add: dest_safe_def)
  next
    case 2
    then have v: "session_verify env m dest resume tr st1 = Some (r, st')"
      using r l l3 by (simp add: session_transfer_def)
    note ver = session_verify_result [OF 2(2) k2 k(2,3) v]
    have "dest_safe env m resume (sink_view ?w ?k) dest ?w (ss_world st')"
      using ver(4) u1(2) by (simp add: dest_safe_def)
    then show ?thesis using ver u1(1) by (metis unchanged_trans)
  qed
  then show "unchanged_outside (session_files dest) ?w (ss_world st')" "sink_on dest (ss_sink st')"
    "r \<noteq> Inl Undefined" "dest_safe env m resume (sink_view ?w ?k) dest ?w (ss_world st')"
    "r = Inr u \<Longrightarrow> \<exists>c. files (ss_world st') dest = Some (Regular c) \<and>
       accepted env m resume (sink_view ?w ?k) c \<and> files (ss_world st') (partial_path dest) = None" by blast+
qed

subsection \<open>Whole sessions\<close>

text \<open>Where a session starts writing: zeros, or the partial file of an earlier session.\<close>

definition initial_view :: "ManifestMsg \<Rightarrow> string \<Rightarrow> world \<Rightarrow> bool \<Rightarrow> bytes \<Rightarrow> bool" where
  "initial_view m dest w resume v0 \<longleftrightarrow>
     v0 = replicate (unat (file_size m)) 0 \<or>
     resume \<and> files w (partial_path dest) = Some (Regular v0) \<and> file_size m \<le> word_of_nat (length v0)"

text \<open>What a session with a manifest \<open>m\<close> for the destination \<open>dest\<close> has done to the world.\<close>

definition received_into ::
    "('s, 'h) session_env \<Rightarrow> ManifestMsg \<Rightarrow> string \<Rightarrow> world \<Rightarrow> bool \<Rightarrow> world \<Rightarrow> bool" where
  "received_into env m dest w ok w' \<longleftrightarrow>
     only_dirs (dirs_of dest) (session_files dest) w w' \<and>
     (\<exists>resume v0. initial_view m dest w resume v0 \<and> dest_safe env m resume v0 dest w w' \<and>
        (ok \<longrightarrow> (\<exists>c. files w' dest = Some (Regular c) \<and> accepted env m resume v0 c)))"

lemma session_receive_result:
  assumes m: "small_manifest m" and r: "session_receive env m dest st = Some (r, st')"
  shows "r \<noteq> Inl Undefined" "sink_on dest (ss_sink st')"
    "received_into env m dest (ss_world st) (r = Inr ()) (ss_world st')"
proof -
  let ?w = "ss_world st"
  obtain r3 st3 where 3: "session_state env m dest st = (r3, st3)" by fastforce
  obtain rs resume where s: "r3 = Inr (rs, resume)" "wf_state rs" "rs_chunk_count rs = chunk_count m"
    "unchanged_outside {state_path dest} ?w (ss_world st3)" "\<not> resume \<Longrightarrow> received rs = {}"
    using session_state_result [OF m 3] by metis
  obtain r4 st4 where 4: "session_request env m dest rs resume st3 = (r4, st4)" by fastforce
  note q = session_request_result [OF s(2) 4]
  have f3: "files (ss_world st3) (partial_path dest) = files ?w (partial_path dest)"
    "files (ss_world st3) dest = files ?w dest" using s(4) by (simp_all add: unchanged_outside_def)
  have d4: "only_dirs (dirs_of dest) (session_files dest) ?w (ss_world st4)"
    using q(1) s(4) by (auto simp: only_dirs_def unchanged_outside_def session_files_def)
  have e4: "files (ss_world st4) dest = files ?w dest \<or> files ?w dest = None \<and> files (ss_world st4) dest = Some Directory"
    using q(1) unfolding only_dirs_def f3(2) [symmetric] by (metis session_files_distinct(1) singletonD)
  have "r \<noteq> Inl Undefined \<and> sink_on dest (ss_sink st') \<and> received_into env m dest ?w (r = Inr ()) (ss_world st')"
  proof (cases r4)
    case (Inl e)
    then have "(r, st') = (Inl e, st4)"
      using r 3 s(1) 4 by (simp add: session_receive_def and_then_def)
    moreover have "initial_view m dest ?w False (replicate (unat (file_size m)) 0)" by (simp add: initial_view_def)
    moreover have "dest_safe env m False (replicate (unat (file_size m)) 0) dest ?w (ss_world st4)"
      using e4 by (auto simp: dest_safe_def)
    ultimately show ?thesis using q(2,3) d4 Inl unfolding received_into_def by blast
  next
    case (Inr x)
    have tr: "session_transfer env m dest rs resume st4 = Some (r, st')"
      using r 3 s(1) 4 Inr by (simp add: session_receive_def and_then_def)
    let ?v0 = "sink_view (ss_world st4) (ss_sink st4)"
    note o = open_frame(5) [OF q(4) [OF Inr] TrueI]
    have v0: "initial_view m dest ?w resume ?v0" using o f3(1) by (auto simp: initial_view_def new_FileSink_def)
    have vm: "valid_manifest m" using m by (simp add: small_manifest_def)
    have fr: "resume \<or> received rs = {}" using s(5) by blast
    note t = session_transfer_result [OF vm s(2,3) q(2) conjunct1 [OF o] conjunct1 [OF conjunct2 [OF o]] fr tr]
    have "only_dirs (dirs_of dest) (session_files dest) ?w (ss_world st')"
      by (rule only_dirs_then_unchanged [OF d4 t(1)]) simp
    moreover have "dest_safe env m resume ?v0 dest ?w (ss_world st')"
      using t(4) e4 unfolding dest_safe_def by metis
    ultimately show ?thesis using v0 t(2,3,5) unfolding received_into_def by blast
  qed
  then show "r \<noteq> Inl Undefined" "sink_on dest (ss_sink st')"
    "received_into env m dest ?w (r = Inr ()) (ss_world st')" by blast+
qed

lemma session_body_result:
  assumes "session_body env st = Some (r, st')" "\<not> os_open (sk_stream (ss_sink st))"
  obtains (stopped) "r = Inl ReturnFalse" "ss_world st' = ss_world st" "\<not> os_open (sk_stream (ss_sink st'))"
  | (received) m dest where "r \<noteq> Inl Undefined" "small_manifest m" "resolve_dest (e_root env) (path m) = Some dest"
      "sink_on dest (ss_sink st')" "received_into env m dest (ss_world st) (r = Inr ()) (ss_world st')"
proof -
  obtain r1 st1 where 1: "session_hello env st = (r1, st1)" by fastforce
  have k1: "ss_world st1 = ss_world st" "ss_sink st1 = ss_sink st" "r1 \<noteq> Inl Undefined"
    using session_hello_keeps [of env st] unfolding 1 by simp_all
  obtain r2 st2 where 2: "session_manifest env st1 = (r2, st2)" by fastforce
  have k2: "ss_world st2 = ss_world st" "ss_sink st2 = ss_sink st" "r2 \<noteq> Inl Undefined"
    using session_manifest_keeps [of env st1] k1 unfolding 2 by simp_all
  consider (hello) e where "r1 = Inl e" | (manifest) e where "r1 = Inr ()" "r2 = Inl e"
    | (receive) m dest where "r1 = Inr ()" "r2 = Inr (m, dest)"
    by (cases r1; cases r2) auto
  then show thesis
  proof cases
    case hello
    then have "(r, st') = (Inl e, st1)" using assms(1) 1 by (simp add: session_body_def and_then_def)
    then show thesis using k1 assms(2) hello stopped by (cases e) auto
  next
    case manifest
    then have "(r, st') = (Inl e, st2)" using assms(1) 1 2 by (simp add: session_body_def and_then_def)
    then show thesis using k2 assms(2) manifest stopped by (cases e) auto
  next
    case receive
    have m: "small_manifest m" "resolve_dest (e_root env) (path m) = Some dest"
      using session_manifest_Inr 2 receive by metis+
    have "session_receive env m dest st2 = Some (r, st')"
      using assms(1) 1 2 receive by (simp add: session_body_def and_then_def)
    from session_receive_result [OF m(1) this] show thesis using m k2(1) received by simp
  qed
qed

lemma received_into_cong:
  assumes "received_into env m dest w ok w1" "unchanged_outside {partial_path dest} w1 w2"
  shows "received_into env m dest w ok w2"
proof -
  have "files w2 dest = files w1 dest" using assms(2) by (simp add: unchanged_outside_def)
  moreover have "only_dirs (dirs_of dest) (session_files dest) w w1" using assms(1) by (simp add: received_into_def)
  then have "only_dirs (dirs_of dest) (session_files dest) w w2"
    by (rule only_dirs_then_unchanged [OF _ assms(2)]) (simp add: session_files_def)
  ultimately show ?thesis using assms(1) by (simp add: received_into_def dest_safe_def)
qed

lemma handle_session_result:
  assumes "handle_session env socket w = Some (v, s', w')"
  obtains (stopped) "v = Returned False" "w' = w"
  | (received) ok m dest where "v = Returned ok" "small_manifest m" "resolve_dest (e_root env) (path m) = Some dest"
      "received_into env m dest w ok w'"
proof -
  obtain ok c where c: "(if e_ssl_ctx env \<noteq> None
      then tls_server_handshake (e_ops env) (case e_ssl_ctx env of
           Some ctx \<Rightarrow> Connection_tls (e_ops env) socket ctx | None \<Rightarrow> Connection_plain socket)
      else (True, case e_ssl_ctx env of
           Some ctx \<Rightarrow> Connection_tls (e_ops env) socket ctx | None \<Rightarrow> Connection_plain socket)) = (ok, c)" by fastforce
  let ?st = "\<lparr>ss_conn = c, ss_world = w, ss_sink = new_FileSink ''''\<rparr>"
  have closed: "\<not> os_open (sk_stream (ss_sink ?st))" by (simp add: new_FileSink_def closed_ofstream_def)
  obtain r st' where r: "(if \<not> ok then Some (Inl ReturnFalse, ?st) else session_body env ?st) = Some (r, st')"
    and e: "end_session env (r, st') = (v, s', w')"
    using assms unfolding handle_session_def Let_def c by (auto simp del: not_None_eq)
  obtain k2 w2 where cl: "FileSink_close (ss_world st') (ss_sink st') = (k2, w2)" by fastforce
  have v: "v = verdict_of r" "w' = w2" using e cl by (simp_all add: end_session_def)
  have stop: thesis if "r = Inl ReturnFalse" "ss_world st' = w" "\<not> os_open (sk_stream (ss_sink st'))"
    using that v close_frame(2) [OF cl] stopped by simp
  show thesis
  proof (cases ok)
    case False
    then show thesis using r closed by (intro stop) auto
  next
    case True
    then have body: "session_body env ?st = Some (r, st')" using r by simp
    show thesis
    proof (cases rule: session_body_result [OF body closed])
      case 1
      then show thesis using stop by simp
    next
      case received: (2 m dest)
      have "received_into env m dest w (r = Inr ()) w'"
        using received_into_cong [OF received(5)] close_sink_on [OF received(4) cl] v(2) by simp
      moreover have "v = Returned (r = Inr ())"
        using v(1) received(1) by (cases r; cases "projl r") auto
      ultimately show thesis using received(2,3) that(2) by blast
    qed
  qed
qed


subsection \<open>Properties\<close>

text \<open>
  C9. No undefined behaviour: whatever the peer sends and whatever calls into the operating system
  fail, a session that ends returns true or false; it never indexes the bitmap or the hashes of the
  manifest out of range.
\<close>

theorem session_defined: "handle_session env socket w \<noteq> Some (UndefinedBehaviour, s', w')"
proof
  assume "handle_session env socket w = Some (UndefinedBehaviour, s', w')"
  then show False by (cases rule: handle_session_result) simp_all
qed

text \<open>
  C8. Confinement: a session changes nothing, or it has accepted a manifest whose destination is the
  root with the path's names appended, and then it changes only the destination, its .partial file,
  its resume state and the temporary file of that, and creates missing directories on the way.
\<close>

theorem session_confined:
  assumes "handle_session env socket w = Some (Returned ok, s', w')"
  shows "w' = w \<and> \<not> ok \<or>
    (\<exists>(m :: ManifestMsg) dest. resolve_dest (e_root env) (path m) = Some dest \<and>
      normal_names dest = normal_names (e_root env) @ filter (\<lambda>n. n \<noteq> ''.'') (path_names (path m)) \<and>
      (\<forall>p. files w' p \<noteq> files w p \<longrightarrow>
        p \<in> {dest, dest @ ''.partial'', dest @ ''.ftxstate'', dest @ ''.ftxstate.tmp''} \<or>
        p \<in> set (dir_prefixes (path_parent dest)) \<and> files w p = None \<and> files w' p = Some Directory))"
  using assms
proof (cases rule: handle_session_result)
  case (received ok' m dest)
  have f: "session_files dest = {dest, dest @ ''.partial'', dest @ ''.ftxstate'', dest @ ''.ftxstate.tmp''}"
    by (simp add: session_files_def with_partial_suffix_def state_path_def state_tmp_def)
  have "\<forall>p. files w' p \<noteq> files w p \<longrightarrow> p \<in> session_files dest \<or>
      p \<in> dirs_of dest \<and> files w p = None \<and> files w' p = Some Directory"
    using received(4) by (auto simp: received_into_def only_dirs_def)
  with received(3) conjunct1 [OF resolve_dest_names [OF received(3)]] show ?thesis
    unfolding f dirs_of_def by blast
qed simp


text \<open>
  C14. The gate of the chunk loop: a step that touches the world, the sink or the resume state, or
  after which the loop goes on, has received a CHUNK frame whose data has the hash it carries, which
  is the hash the manifest declares for its index, and the index is one of the manifest's.
\<close>

theorem only_verified_chunks_stored:
  assumes "chunk_step env m dest (stt, tr, st) = (stt', tr', st')"
  shows "ss_world st' = ss_world st \<and> ss_sink st' = ss_sink st \<and> tr_state tr' = tr_state tr \<and> stt' \<noteq> Running \<or>
    (\<exists>f ck. fst (session_recv env st) = Some f \<and> ftype (header f) = Chunk \<and> decode_chunk (payload f) = Some ck \<and>
       index ck < chunk_count m \<and> blake3 (e_b3 env) (data ck) = hash ck \<and>
       vec_at (chunk_hashes m) (unat (index ck)) = Some (hash ck))"
proof -
  obtain f st1 where f: "session_recv env st = (f, st1)" by fastforce
  have keep: "ss_world st1 = ss_world st" "ss_sink st1 = ss_sink st" using session_recv_simps [of env st] f by simp_all
  have gate: "ss_world st' = ss_world st \<and> ss_sink st' = ss_sink st \<and> tr_state tr' = tr_state tr \<and> stt' \<noteq> Running \<or>
      index ck < chunk_count m \<and> blake3 (e_b3 env) (data ck) = hash ck \<and>
      vec_at (chunk_hashes m) (unat (index ck)) = Some (hash ck)"
    if "check_chunk env m dest ck tr st1 = (stt', tr', st')" for ck
    using that keep by (auto simp: check_chunk_def loop_reject_def not_le split: if_splits option.splits)
  show ?thesis
  proof (cases f)
    case None
    then show ?thesis using assms f keep by (auto simp: chunk_step_def)
  next
    case (Some fr)
    show ?thesis
    proof (cases "ftype (header fr) = Chunk")
      case True
      then show ?thesis
        using assms f keep Some gate
        by (cases "decode_chunk (payload fr)") (auto simp: chunk_step_def loop_reject_def)
    next
      case False
      then show ?thesis
        using assms f keep Some by (auto simp: chunk_step_def loop_reject_def split: option.splits if_splits)
    qed
  qed
qed

end
