(* ===== verification/Ftx_Delivery.thy ===== *)
theory Ftx_Delivery
  imports Ftx_Session Ftx_File_Source
begin

text \<open>
  What a completed session means for the file at the destination: it is made of the chunks the
  manifest commits to, and when the manifest describes a file \<open>T\<close> it is \<open>T\<close>.
\<close>

subsection \<open>Pieces that cover a file\<close>

lemma place_agrees:
  assumes "\<forall>p\<in>set ps. unat (fst p) + length (snd p) \<le> length T \<and>
      snd p = take (length (snd p)) (drop (unat (fst p)) T)"
    and "length v = length T"
    and "\<forall>j<length T. v ! j = T ! j \<or>
      (\<exists>p\<in>set ps. unat (fst p) \<le> j \<and> j < unat (fst p) + length (snd p))"
  shows "foldl place v ps = T"
  using assms
proof (induction ps arbitrary: v)
  case Nil
  then show ?case by (simp add: nth_equalityI)
next
  case (Cons p ps)
  let ?o = "unat (fst p)" and ?d = "snd p"
  have p: "?o + length ?d \<le> length T" "?d = take (length ?d) (drop ?o T)" using Cons.prems(1) by simp_all
  have len: "length (place v p) = length T"
    using p(1) Cons.prems(2) by (simp add: place_def length_overwrite_inside)
  have at: "place v p ! j = (if ?o \<le> j \<and> j < ?o + length ?d then T ! j else v ! j)" if "j < length T" for j
  proof -
    have "?d ! (j - ?o) = T ! j" if "?o \<le> j" "j < ?o + length ?d"
    proof -
      have "?d ! (j - ?o) = take (length ?d) (drop ?o T) ! (j - ?o)" using arg_cong [OF p(2)] .
      also have "\<dots> = T ! j" using that p(1) by simp
      finally show ?thesis .
    qed
    then show ?thesis using that p(1) Cons.prems(2) by (simp add: place_def nth_overwrite_inside)
  qed
  have "foldl place (place v p) ps = T"
    using Cons.prems len at by (intro Cons.IH) auto
  then show ?case by simp
qed

lemma drop_concat_nominal:
  "\<forall>i<length ds - 1. length (ds ! i) = n \<Longrightarrow> i < length ds \<Longrightarrow> drop (i * n) (concat ds) = concat (drop i ds)"
proof (induction i)
  case (Suc i)
  have "drop i ds = ds ! i # drop (Suc i) ds" using Suc.prems(2) by (intro Cons_nth_drop_Suc [symmetric]) simp
  then have "drop (i * n) (concat ds) = ds ! i @ concat (drop (Suc i) ds)" using Suc by simp
  moreover have "length (ds ! i) = n" using Suc.prems by simp
  moreover have "drop (Suc i * n) (concat ds) = drop n (drop (i * n) (concat ds))" by (simp add: add.commute)
  ultimately show ?case by simp
qed simp

lemma length_concat_nominal:
  assumes "\<forall>i<length ds - 1. length (ds ! i) = n" "ds \<noteq> []"
  shows "length (concat ds) = (length ds - 1) * n + length (last ds)"
proof -
  have "drop ((length ds - 1) * n) (concat ds) = concat (drop (length ds - 1) ds)"
    using drop_concat_nominal [OF assms(1), of "length ds - 1"] assms(2) by simp
  also have "drop (length ds - 1) ds = [last ds]"
    using assms(2) by (cases ds rule: rev_cases) simp_all
  finally have "length (concat ds) - (length ds - 1) * n = length (last ds)" by (metis append_Nil2 concat.simps length_drop)
  moreover have "(length ds - 1) * n \<le> length (concat ds)"
  proof -
    have "map length (butlast ds) = replicate (length ds - 1) n"
      using assms(1) by (intro nth_equalityI) (simp_all add: nth_butlast)
    then have "length (concat (butlast ds)) = (length ds - 1) * n"
      by (simp add: length_concat sum_list_replicate)
    moreover have "concat ds = concat (butlast ds) @ last ds"
      using assms(2) by (cases ds rule: rev_cases) simp_all
    ultimately show ?thesis by simp
  qed
  ultimately show ?thesis by linarith
qed

lemma piece_of_concat:
  assumes "\<forall>i<length ds - 1. length (ds ! i) = n" "i < length ds"
  shows "ds ! i = take (length (ds ! i)) (drop (i * n) (concat ds))"
    "i * n + length (ds ! i) \<le> length (concat ds)"
proof -
  have "drop i ds = ds ! i # drop (Suc i) ds" using assms(2) by (rule Cons_nth_drop_Suc [symmetric])
  then have d: "drop (i * n) (concat ds) = ds ! i @ concat (drop (Suc i) ds)"
    using drop_concat_nominal [OF assms] by simp
  then show "ds ! i = take (length (ds ! i)) (drop (i * n) (concat ds))" by simp
  show "i * n + length (ds ! i) \<le> length (concat ds)"
  proof (cases "ds ! i = []")
    case False
    then show ?thesis using arg_cong [OF d, of length] by (cases "ds ! i") auto
  next
    case True
    have "i * n \<le> (length ds - 1) * n" using assms(2) by (intro mult_right_mono) simp_all
    also have "\<dots> \<le> length (concat ds)" using length_concat_nominal [OF assms(1)] assms(2) by fastforce
    finally show ?thesis using True by simp
  qed
qed

lemma concat_covered:
  assumes "\<forall>i<length ds - 1. length (ds ! i) = n" "j < length (concat ds)"
  shows "\<exists>i<length ds. i * n \<le> j \<and> j < i * n + length (ds ! i)"
proof -
  have ne: "ds \<noteq> []" using assms(2) by auto
  let ?k = "length ds - 1"
  show ?thesis
  proof (cases "j < ?k * n")
    case True
    then have n: "0 < n" by (cases n) simp_all
    have i: "j div n < ?k" using True by (simp add: div_less_iff_less_mult n)
    then have "length (ds ! (j div n)) = n" "j div n < length ds" using assms(1) by simp_all
    moreover have "j div n * n \<le> j" "j < j div n * n + n"
      using n mod_less_divisor [OF n, of j] div_mult_mod_eq [of j n] by linarith+
    ultimately show ?thesis by auto
  next
    case False
    then show ?thesis
      using assms(2) length_concat_nominal [OF assms(1) ne] ne
      by (intro exI [of _ ?k]) (simp add: last_conv_nth)
  qed
qed

lemma place_nominal:
  assumes "\<forall>i<length ds - 1. length (ds ! i) = n" "length v = length (concat ds)"
    and "ps = map (\<lambda>i. (off i, ds ! i)) [0..<length ds]" "\<And>i. i < length ds \<Longrightarrow> unat (off i) = i * n"
  shows "foldl place v ps = concat ds"
proof (rule place_agrees [OF _ assms(2)])
  show "\<forall>p\<in>set ps. unat (fst p) + length (snd p) \<le> length (concat ds) \<and>
      snd p = take (length (snd p)) (drop (unat (fst p)) (concat ds))"
    using piece_of_concat [OF assms(1)] assms(4) by (auto simp: assms(3))
  show "\<forall>j<length (concat ds). v ! j = concat ds ! j \<or>
      (\<exists>p\<in>set ps. unat (fst p) \<le> j \<and> j < unat (fst p) + length (snd p))"
    using concat_covered [OF assms(1)] assms(4) by (fastforce simp: assms(3))
qed

end
