(* ===== verification/Ftx_Accept.thy ===== *)
theory Ftx_Accept
  imports Ftx_Delivery
begin

text \<open>
  Sessions that succeed: over a reliable stream and without file-system faults a session ends with
  an ACK and the file in place, for every sequence of chunks with right hashes that fills the
  inventory and has the root hash, in a fresh transfer and in one that resumes from the state an
  earlier session has left.
\<close>

text \<open>A chunk the server takes: right hashes, inside the file, small enough for a frame.\<close>

definition sendable :: "'h blake3_lib \<Rightarrow> ManifestMsg \<Rightarrow> ChunkMsg \<Rightarrow> bool" where
  "sendable lib m ck \<longleftrightarrow>
     index ck < chunk_count m \<and> hash ck = blake3 lib (data ck) \<and>
     vec_at (chunk_hashes m) (unat (index ck)) = Some (hash ck) \<and>
     unat (chunk_offset m ck) + length (data ck) \<le> unat (file_size m) \<and>
     unat (chunk_offset m ck) < 2 ^ 63 \<and> length (data ck) + 36 \<le> kDefaultMaxPayload"

lemma sendable_hash: "sendable lib m ck \<Longrightarrow> blake3 lib (data ck) = chunk_hashes m ! unat (index ck)"
  by (auto simp: sendable_def vec_at_def split: if_splits)

abbreviation ack_wire :: "ManifestMsg \<Rightarrow> bytes" where
  "ack_wire m \<equiv>
     wire (frame_of Ack (encode_ack \<lparr>last_index = if chunk_count m = 0 then 0 else chunk_count m - 1\<rparr>))"

abbreviation complete_wire :: "ManifestMsg \<Rightarrow> bytes" where
  "complete_wire m \<equiv>
     wire (frame_of Complete (encode_complete \<lparr>final_root_hash = root_hash m, status = 0\<rparr>))"

abbreviation hello_wire :: bytes where
  "hello_wire \<equiv> wire (frame_of Hello (encode_hello default_hello))"

abbreviation manifest_wire :: "ManifestMsg \<Rightarrow> bytes" where
  "manifest_wire m \<equiv> wire (frame_of Manifest (encode_manifest m))"

abbreviation req_wire :: "u32 list \<Rightarrow> bytes" where
  "req_wire is \<equiv> wire (frame_of ReqChunks (encode_req_chunks \<lparr>indices = is\<rparr>))"

abbreviation data_wire :: "ChunkMsg \<Rightarrow> bytes" where
  "data_wire ck \<equiv> wire (frame_of Chunk (encode_chunk ck))"

text \<open>The paths a session of a fault-free world can write to.\<close>

definition writable :: "string \<Rightarrow> world \<Rightarrow> bool" where
  "writable dest w \<longleftrightarrow>
     faults w = [] \<and> (\<forall>p\<in>session_files dest. files w p \<noteq> Some Directory)"

lemma session_recv_reliable:
  assumes "reliable (e_ops env) inb outb" "inb (cn_stream (ss_conn st)) = wire (frame_of t p) @ bs"
    and "length p \<le> kDefaultMaxPayload"
  obtains st' where "session_recv env st = (Some (frame_of t p), st')" "inb (cn_stream (ss_conn st')) = bs"
    "outb (cn_stream (ss_conn st')) = outb (cn_stream (ss_conn st))" "cn_kind (ss_conn st') = cn_kind (ss_conn st)"
    "ss_world st' = ss_world st" "ss_sink st' = ss_sink st"
proof -
  have wf: "wf_frame kDefaultMaxPayload (frame_of t p)"
    using assms(3) by (rule wf_frame_of) (simp add: kDefaultMaxPayload_def)
  obtain c' where "recv_frame (e_ops env) (ss_conn st) kDefaultMaxPayload = (Some (frame_of t p), c')"
    "inb (cn_stream c') = bs" "outb (cn_stream c') = outb (cn_stream (ss_conn st))" "cn_kind c' = cn_kind (ss_conn st)"
    by (rule recv_frame_reliable [OF assms(1,2) wf])
  then show thesis by (intro that [of "st\<lparr>ss_conn := c'\<rparr>"]) (simp_all add: session_recv_def)
qed

lemma session_send_reliable:
  assumes "reliable (e_ops env) inb outb" "length p \<le> kDefaultMaxPayload"
  obtains st' where "session_send env st t p = (Inr (), st')"
    "inb (cn_stream (ss_conn st')) = inb (cn_stream (ss_conn st))"
    "outb (cn_stream (ss_conn st')) = outb (cn_stream (ss_conn st)) @ wire (frame_of t p)"
    "cn_kind (ss_conn st') = cn_kind (ss_conn st)" "ss_world st' = ss_world st" "ss_sink st' = ss_sink st"
proof -
  obtain c' where "send_frame (e_ops env) (ss_conn st) t p = (True, c')"
    "inb (cn_stream c') = inb (cn_stream (ss_conn st))" "cn_kind c' = cn_kind (ss_conn st)"
    "outb (cn_stream c') = outb (cn_stream (ss_conn st)) @ wire (frame_of t p)"
    by (rule send_frame_reliable [OF assms])
  then show thesis by (intro that [of "st\<lparr>ss_conn := c'\<rparr>"]) (simp_all add: session_send_def)
qed

subsection \<open>The chunk loop takes the chunks of the file\<close>

lemma store_chunk_quiet:
  assumes ck: "sendable (e_b3 env) m ck"
    and t: "transferred env m rs resume k1 w1 cks tr st" and ready: "sink_ready w1 k1" "sk_total_size k1 = file_size m"
    and k: "sink_on dest (ss_sink st)" and w: "writable dest (ss_world st)"
  obtains tr' st' where "store_chunk env m dest ck tr st = (Running, tr', st')"
    "writable dest (ss_world st')" "ss_conn st' = ss_conn st" "files (ss_world st') dest = files (ss_world st) dest"
    "tr_all_in_order tr' \<longleftrightarrow> tr_all_in_order tr \<and> index ck = tr_next_expected tr"
    "files (ss_world st') (state_path dest) = Some (Regular (state_bytes (tr_state tr')))"
    "rs_manifest_id (tr_state tr') = rs_manifest_id (tr_state tr)"
    "files (ss_world st') (partial_path dest) = Some (Regular (sink_view (ss_world st) (ss_sink st)))"
proof -
  let ?tr = "advance_order env ck tr"
  have c: "unat (chunk_offset m ck) + length (data ck) \<le> unat (file_size m)" "unat (chunk_offset m ck) < 2 ^ 63"
    using ck by (simp_all add: sendable_def)
  have v: "sink_ready (ss_world st) (ss_sink st)" "unat (sk_total_size (ss_sink st)) = unat (file_size m)"
    using t sink.writes_view [OF _ ready(1)] ready(2) by (auto simp: transferred_def)
  obtain k2 w2 where wr: "FileSink_write_at (ss_world st) (ss_sink st) (chunk_offset m ck) (data ck) = (True, k2, w2)"
    "faults w2 = []"
    using write_at_quiet [OF v(1) _ _ c(2)] w c(1) v(2) by (metis writable_def)
  have u2: "unchanged_outside {partial_path dest} (ss_world st) w2" by (rule write_at_sink_on(1) [OF k wr(1)])
  have disk: "files w2 (partial_path dest) = Some (Regular (sink_view (ss_world st) (ss_sink st)))"
    using write_at_ok(5) [OF v(1) wr(1)] c(1) unat_less_u64 [of "file_size m"] k by (simp add: sink_on_def)
  then have w2: "writable dest w2" using w u2 wr(2) by (auto simp: writable_def session_files_def unchanged_outside_def)
  have "wf_state (tr_state tr)" using t by (simp add: transferred_def)
  then obtain s where s: "mark_received (tr_state tr) (index ck) = Some s" "rs_manifest_id s = rs_manifest_id (tr_state tr)"
    by (rule mark_received_wf)
  obtain w3 where w3: "save w2 s (state_path dest) = (True, w3)" "faults w3 = []"
    "files w3 = (files w2)(state_tmp (state_path dest) := None, state_path dest \<mapsto> Regular (state_bytes s))"
    using w2 save_quiet [of w2 "state_path dest" s] by (auto simp: writable_def session_files_def)
  let ?tr' = "?tr\<lparr>tr_state := s, tr_bytes_received := tr_bytes_received ?tr + word_of_nat (length (data ck)),
    tr_chunks_received := tr_chunks_received ?tr + 1\<rparr>"
  have "store_chunk env m dest ck tr st = (Running, ?tr', st\<lparr>ss_world := w3, ss_sink := k2\<rparr>)"
    using wr(1) s(1) w3(1) unfolding store_chunk_def Let_def chunk_offset_def [symmetric] advance_order_def [symmetric]
    by auto
  moreover have "writable dest w3" using w2 w3 by (auto simp: writable_def session_files_def)
  moreover have "files w3 dest = files (ss_world st) dest" using w3(3) u2 by (simp add: unchanged_outside_def)
  ultimately show thesis by (intro that [of ?tr' "st\<lparr>ss_world := w3, ss_sink := k2\<rparr>"])
    (use w3(3) s(2) disk in \<open>simp_all add: advance_order_def\<close>)
qed


lemma chunk_loop_unfold:
  "chunk_loop env m dest tr st = (case chunk_step env m dest (Running, tr, st) of
     (Running, tr, st) \<Rightarrow> chunk_loop env m dest tr st | l \<Rightarrow> Some l)"
proof (cases "chunk_step env m dest (Running, tr, st)")
  case (fields stt tr' st')
  then show ?thesis unfolding chunk_loop_def
    by (subst while_option_unfold) (cases stt; simp add: while_option_unfold [of _ _ "(Finished, tr', st')"]
        while_option_unfold [of _ _ "(Failed e, tr', st')" for e])
qed

text \<open>A state of the loop in which the chunks \<open>cks\<close> of a fault-free session have been stored.\<close>

definition in_order :: "ChunkMsg list \<Rightarrow> bool" where
  "in_order cks \<longleftrightarrow> map (\<lambda>ck. unat (index ck)) cks = [0..<length cks]"

text \<open>The state file of a session that has stored \<open>cks\<close>.\<close>

definition state_saved ::
    "('s, 'h) session_env \<Rightarrow> ManifestMsg \<Rightarrow> string \<Rightarrow> bool \<Rightarrow> ChunkMsg list \<Rightarrow> ResumeState \<Rightarrow> world \<Rightarrow> bool" where
  "state_saved env m dest resume cks rs w \<longleftrightarrow>
     rs_manifest_id rs = manifest_id env m \<and>
     files w (state_path dest) = (if \<not> resume \<and> cks = [] then None else Some (Regular (state_bytes rs)))"

definition loop_state ::
    "('s, 'h) session_env \<Rightarrow> ManifestMsg \<Rightarrow> string \<Rightarrow> ResumeState \<Rightarrow> bool \<Rightarrow> FileSink \<Rightarrow> world \<Rightarrow> ChunkMsg list \<Rightarrow>
     'h transfer \<Rightarrow> 's session \<Rightarrow> bool" where
  "loop_state env m dest rs resume k1 w1 cks tr st \<longleftrightarrow>
     transferred env m rs resume k1 w1 cks tr st \<and> sink_on dest (ss_sink st) \<and> writable dest (ss_world st) \<and>
     (\<not> resume \<and> in_order cks \<longrightarrow> tr_all_in_order tr) \<and>
     state_saved env m dest resume cks (tr_state tr) (ss_world st)"

lemma chunk_step_accepts:
  assumes rel: "reliable (e_ops env) inb outb" and ck: "sendable (e_b3 env) m ck"
    and k1: "sink_ready w1 k1" "sk_total_size k1 = file_size m" "sk_partial_path k1 = partial_path dest"
    and l: "loop_state env m dest rs resume k1 w1 cks tr st"
    and inb: "inb (cn_stream (ss_conn st)) = data_wire ck @ bs"
  obtains tr' st' where "chunk_step env m dest (Running, tr, st) = (Running, tr', st')"
    "loop_state env m dest rs resume k1 w1 (cks @ [ck]) tr' st'"
    "inb (cn_stream (ss_conn st')) = bs" "outb (cn_stream (ss_conn st')) = outb (cn_stream (ss_conn st))"
    "cn_kind (ss_conn st') = cn_kind (ss_conn st)" "files (ss_world st') dest = files (ss_world st) dest"
    "files (ss_world st') (partial_path dest) = Some (Regular (sink_view (ss_world st) (ss_sink st)))"
proof -
  have hash: "length (hash ck) = 32" using ck by (simp add: sendable_def)
  have len: "length (data ck) \<le> kDefaultMaxPayload" "length (encode_chunk ck) \<le> kDefaultMaxPayload"
    using ck hash by (simp_all add: codec_simps sendable_def)
  obtain st1 where 1: "session_recv env st = (Some (frame_of Chunk (encode_chunk ck)), st1)"
    "inb (cn_stream (ss_conn st1)) = bs" "outb (cn_stream (ss_conn st1)) = outb (cn_stream (ss_conn st))"
    "cn_kind (ss_conn st1) = cn_kind (ss_conn st)" "ss_world st1 = ss_world st" "ss_sink st1 = ss_sink st"
    by (rule session_recv_reliable [OF rel inb len(2)])
  have t: "transferred env m rs resume k1 w1 cks tr st1" and k: "sink_on dest (ss_sink st1)"
    and w: "writable dest (ss_world st1)"
    using l transferred_cong(2) [of env m rs resume k1 w1 cks tr st st1] 1(5,6) by (auto simp: loop_state_def)
  obtain tr' st' where 2: "store_chunk env m dest ck tr st1 = (Running, tr', st')" "writable dest (ss_world st')"
    "ss_conn st' = ss_conn st1" "files (ss_world st') dest = files (ss_world st1) dest"
    "tr_all_in_order tr' \<longleftrightarrow> tr_all_in_order tr \<and> index ck = tr_next_expected tr"
    "files (ss_world st') (state_path dest) = Some (Regular (state_bytes (tr_state tr')))"
    "rs_manifest_id (tr_state tr') = rs_manifest_id (tr_state tr)"
    "files (ss_world st') (partial_path dest) = Some (Regular (sink_view (ss_world st1) (ss_sink st1)))"
    by (rule store_chunk_quiet [OF ck t k1(1,2) k w])
  have "decode_chunk (encode_chunk ck) = Some ck"
    using hash by (intro chunk.dec_enc) (simp add: valid_chunk_def kHashSize_def)
  moreover have "check_chunk env m dest ck tr st1 = store_chunk env m dest ck tr st1"
    using ck by (auto simp: check_chunk_def sendable_def word_less_nat_alt word_le_nat_alt)
  ultimately have "chunk_step env m dest (Running, tr, st) = (Running, tr', st')"
    using 1(1) 2(1) by (simp add: chunk_step_def)
  moreover have "sink_on dest (ss_sink st')" "transferred env m rs resume k1 w1 (cks @ [ck]) tr' st'"
    using store_chunk_result [OF t k k1(3) _ sendable_hash [OF ck] len(1) 2(1)] ck by (simp_all add: sendable_def)
  moreover have "tr_all_in_order tr'" if "\<not> resume" "in_order (cks @ [ck])"
  proof -
    have o: "in_order cks" "unat (index ck) = length cks" using that(2) by (simp_all add: in_order_def)
    then have "tr_all_in_order tr" using l that(1) by (simp add: loop_state_def)
    moreover from this have "tr_next_expected tr = word_of_nat (length cks)" using t by (simp add: transferred_def)
    then have "index ck = tr_next_expected tr" using o(2) [symmetric] by simp
    ultimately show ?thesis using 2(5) by simp
  qed
  moreover have "state_saved env m dest resume (cks @ [ck]) (tr_state tr') (ss_world st')"
    using 2(6,7) l by (simp add: state_saved_def loop_state_def)
  ultimately show thesis using 1 2 by (intro that [of tr' st']) (simp_all add: loop_state_def)
qed

text \<open>The loop runs over the chunks at the front of the stream.\<close>

lemma chunk_loop_takes:
  assumes rel: "reliable (e_ops env) inb outb" and new: "\<forall>ck\<in>set new. sendable (e_b3 env) m ck"
    and k1: "sink_ready w1 k1" "sk_total_size k1 = file_size m" "sk_partial_path k1 = partial_path dest"
    and l: "loop_state env m dest rs resume k1 w1 cks tr st"
    and inb: "inb (cn_stream (ss_conn st)) = concat (map data_wire new) @ bs"
  obtains tr' st' where "chunk_loop env m dest tr st = chunk_loop env m dest tr' st'"
    "loop_state env m dest rs resume k1 w1 (cks @ new) tr' st'" "inb (cn_stream (ss_conn st')) = bs"
    "outb (cn_stream (ss_conn st')) = outb (cn_stream (ss_conn st))" "cn_kind (ss_conn st') = cn_kind (ss_conn st)"
    "files (ss_world st') dest = files (ss_world st) dest"
  using new l inb
proof (induction new arbitrary: cks tr st thesis)
  case Nil
  then show ?case by simp
next
  case (Cons ck new)
  have ck: "sendable (e_b3 env) m ck" and rest: "\<forall>ck\<in>set new. sendable (e_b3 env) m ck" using Cons.prems(2) by simp_all
  have inb: "inb (cn_stream (ss_conn st)) = data_wire ck @ concat (map data_wire new) @ bs"
    using Cons.prems(4) by simp
  obtain tr1 st1 where 1: "chunk_step env m dest (Running, tr, st) = (Running, tr1, st1)"
    "loop_state env m dest rs resume k1 w1 (cks @ [ck]) tr1 st1"
    "inb (cn_stream (ss_conn st1)) = concat (map data_wire new) @ bs"
    "outb (cn_stream (ss_conn st1)) = outb (cn_stream (ss_conn st))" "cn_kind (ss_conn st1) = cn_kind (ss_conn st)"
    "files (ss_world st1) dest = files (ss_world st) dest"
    by (rule chunk_step_accepts [OF rel ck k1 Cons.prems(3) inb])
  have "chunk_loop env m dest tr st = chunk_loop env m dest tr1 st1"
    using 1(1) by (subst chunk_loop_unfold) simp
  moreover obtain tr' st' where "chunk_loop env m dest tr1 st1 = chunk_loop env m dest tr' st'"
    "loop_state env m dest rs resume k1 w1 ((cks @ [ck]) @ new) tr' st'" "inb (cn_stream (ss_conn st')) = bs"
    "outb (cn_stream (ss_conn st')) = outb (cn_stream (ss_conn st1))" "cn_kind (ss_conn st') = cn_kind (ss_conn st1)"
    "files (ss_world st') dest = files (ss_world st1) dest"
    by (rule Cons.IH [OF _ rest 1(2,3)])
  ultimately show ?case using 1(4-6) by (intro Cons.prems(1) [of tr' st']) simp_all
qed

lemma chunk_loop_accepts:
  assumes rel: "reliable (e_ops env) inb outb" and new: "\<forall>ck\<in>set new. sendable (e_b3 env) m ck"
    and root: "length (root_hash m) = kHashSize"
    and k1: "sink_ready w1 k1" "sk_total_size k1 = file_size m" "sk_partial_path k1 = partial_path dest"
    and l: "loop_state env m dest rs resume k1 w1 cks tr st"
    and inb: "inb (cn_stream (ss_conn st)) = concat (map data_wire new) @ complete_wire m"
  obtains tr' st' where "chunk_loop env m dest tr st = Some (Finished, tr', st')"
    "loop_state env m dest rs resume k1 w1 (cks @ new) tr' st'" "tr_client_final_root_hash tr' = root_hash m"
    "outb (cn_stream (ss_conn st')) = outb (cn_stream (ss_conn st))" "files (ss_world st') dest = files (ss_world st) dest"
proof -
  obtain tr1 st1 where 1: "chunk_loop env m dest tr st = chunk_loop env m dest tr1 st1"
    "loop_state env m dest rs resume k1 w1 (cks @ new) tr1 st1" "inb (cn_stream (ss_conn st1)) = complete_wire m @ []"
    "outb (cn_stream (ss_conn st1)) = outb (cn_stream (ss_conn st))" "files (ss_world st1) dest = files (ss_world st) dest"
    by (rule chunk_loop_takes [OF rel new k1 l inb]) simp
  let ?c = "\<lparr>final_root_hash = root_hash m, status = 0\<rparr>"
  have len: "length (encode_complete ?c) \<le> kDefaultMaxPayload"
    using root by (simp add: codec_simps kHashSize_def kDefaultMaxPayload_def)
  obtain st2 where 2: "session_recv env st1 = (Some (frame_of Complete (encode_complete ?c)), st2)"
    "outb (cn_stream (ss_conn st2)) = outb (cn_stream (ss_conn st1))"
    "ss_world st2 = ss_world st1" "ss_sink st2 = ss_sink st1"
    by (rule session_recv_reliable [OF rel 1(3) len])
  let ?tr = "tr1\<lparr>tr_client_final_root_hash := root_hash m\<rparr>"
  have "decode_complete (encode_complete ?c) = Some ?c"
    using root by (intro complete.dec_enc) (simp add: valid_complete_def)
  then have "chunk_step env m dest (Running, tr1, st1) = (Finished, ?tr, st2)"
    using 2(1) by (simp add: chunk_step_def)
  then have "chunk_loop env m dest tr st = Some (Finished, ?tr, st2)"
    unfolding 1(1) by (subst chunk_loop_unfold) simp
  moreover have "loop_state env m dest rs resume k1 w1 (cks @ new) ?tr st2"
    using 1(2) 2(3,4) transferred_cong(1) [of env m rs resume k1 w1 "cks @ new" tr1 st1 st2] by (auto simp: loop_state_def)
  ultimately show thesis using that 1(4,5) 2(2,3) by simp
qed

subsection \<open>Verification succeeds\<close>

lemma session_root_hash_quiet:
  assumes k: "sink_on dest (ss_sink st)" "sink_ready (ss_world st) (ss_sink st)" and q: "faults (ss_world st) = []"
    and view: "sink_view (ss_world st) (ss_sink st) = T" and str: "streaming (e_b3 env)"
    and h: "if tr_all_in_order tr then Blake3Hasher_finalize (e_b3 env) (tr_hasher tr) = h else blake3 (e_b3 env) T = h"
  obtains st' where "session_root_hash env tr st = (Inr h, st')" "faults (ss_world st') = []"
    "ss_conn st' = ss_conn st" "unchanged_outside {partial_path dest} (ss_world st) (ss_world st')"
    "sink_on dest (ss_sink st')" "sink_ready (ss_world st') (ss_sink st')" "sink_view (ss_world st') (ss_sink st') = T"
proof (cases "tr_all_in_order tr")
  case True
  then show thesis using that [of st] h k q view by (simp add: session_root_hash_def)
next
  case False
  let ?lib = "e_b3 env"
  obtain k1 w1 where fl: "FileSink_flush (ss_world st) (ss_sink st) = (True, k1, w1)" "faults w1 = []"
    by (rule flush_quiet [OF k(2) q])
  note f = flush_ok [OF k(2) fl(1)] and on = flush_sink_on [OF k(1) fl(1)]
  obtain c where c: "files w1 (sk_partial_path k1) = Some (Regular c)" using f(1) by (auto simp: sink_ready_def)
  let ?fb = "\<lparr>is_open = True, is_path = sk_partial_path k1, is_pos = 0, is_good = True, is_eof = False\<rparr>"
  have op: "is_open_read w1 (sk_partial_path k1) = (?fb, w1)" using c fl(2) by (simp add: is_open_read_def fs_simps)
  have ct: "content w1 (sk_partial_path k1) = T" using f(3,4) view by (simp add: same_sink_def)
  obtain h' w2 where rb: "read_back ?lib w1 ?fb (Blake3Hasher_new ?lib) = (h', w2)" by fastforce
  obtain ds n where ds: "h' = foldl (Blake3Hasher_update ?lib) (Blake3Hasher_new ?lib) ds" "concat ds = take n T"
    "length T \<le> n" "files w2 = files w1" "faults w2 = []"
    by (rule read_back_file [OF op _ rb]) (use ct fl(2) in auto)
  have hf: "Blake3Hasher_finalize ?lib h' = h"
    using digest_blake3 [OF str, of ds] ds(1,2,3) h False by (simp add: digest_def)
  have v: "sink_ready w2 k1 \<and> sink_view w2 k1 = sink_view w1 k1"
    using sink.undisturbed [OF f(1)] ds(4) by metis
  have u: "unchanged_outside {partial_path dest} (ss_world st) w2"
    using on(1) ds(4) by (simp add: unchanged_outside_def)
  have "session_root_hash env tr st = (Inr h, st\<lparr>ss_world := w2, ss_sink := k1\<rparr>)"
    using False fl(1) op rb hf by (simp add: session_root_hash_def Let_def)
  then show thesis
    using that [of "st\<lparr>ss_world := w2, ss_sink := k1\<rparr>"] ds(5) u on(2) v f(2) view by simp
qed

lemma session_finish_quiet:
  assumes rel: "reliable (e_ops env) inb outb"
    and k: "sink_on dest (ss_sink st)" "sink_ready (ss_world st) (ss_sink st)" and w: "writable dest (ss_world st)"
    and view: "sink_view (ss_world st) (ss_sink st) = T"
  obtains st' where "session_finish env m dest st = (Inr (), st')" "sink_on dest (ss_sink st')"
    "files (ss_world st') dest = Some (Regular T)" "files (ss_world st') (partial_path dest) = None"
    "files (ss_world st') (state_path dest) = None" "faults (ss_world st') = []"
    "outb (cn_stream (ss_conn st')) = outb (cn_stream (ss_conn st)) @
       ack_wire m"
    "cn_kind (ss_conn st') = cn_kind (ss_conn st)"
proof -
  have q: "faults (ss_world st) = []" using w by (simp add: writable_def)
  obtain k1 w1 where fl: "FileSink_flush (ss_world st) (ss_sink st) = (True, k1, w1)" "faults w1 = []"
    by (rule flush_quiet [OF k(2) q])
  note f = flush_ok [OF k(2) fl(1)] and on = flush_sink_on [OF k(1) fl(1)]
  have "files w1 (sk_final_path k1) \<noteq> Some Directory"
    using w on by (auto simp: sink_on_def writable_def session_files_def unchanged_outside_def)
  then obtain k2 w2 where fi: "FileSink_finalize (e_ec_message env) w1 k1 = (True, k2, w2)" "faults w2 = []"
    by (rule finalize_quiet [OF f(1) fl(2) f(5)])
  define w3 where "w3 = remove w2 (state_path dest)"
  have w3: "files w3 (state_path dest) = None" "faults w3 = []"
    using fi(2) by (simp_all add: w3_def remove_def fs_remove_def fs_simps)
  let ?a = "encode_ack \<lparr>last_index = if chunk_count m = 0 then 0 else chunk_count m - 1\<rparr>"
  have "length ?a \<le> kDefaultMaxPayload" by (simp add: codec_simps kDefaultMaxPayload_def)
  then obtain st' where st': "session_send env (st\<lparr>ss_sink := k2, ss_world := w3\<rparr>) Ack ?a = (Inr (), st')"
    "outb (cn_stream (ss_conn st')) = outb (cn_stream (ss_conn st)) @ wire (frame_of Ack ?a)"
    "cn_kind (ss_conn st') = cn_kind (ss_conn st)" "ss_world st' = w3" "ss_sink st' = k2"
    using session_send_reliable [OF rel, where st = "st\<lparr>ss_sink := k2, ss_world := w3\<rparr>" and t = Ack] by auto
  have res: "session_finish env m dest st = (Inr (), st')"
    using fl(1) fi(1) st'(1) by (cases "chunk_count m = 0") (simp_all add: session_finish_def Let_def w3_def)
  note fr = session_finish_result [OF k res]
  show thesis using that [OF res fr(2)] fr(5) view st' w3 by simp
qed




text \<open>
  A sequence of chunks that a session starting from the content \<open>v\<close> and the resume state \<open>rs\<close> takes
  and turns into the file \<open>c\<close>.
\<close>

definition good_run ::
    "('s, 'h) session_env \<Rightarrow> ManifestMsg \<Rightarrow> bool \<Rightarrow> ResumeState \<Rightarrow> bytes \<Rightarrow> ChunkMsg list \<Rightarrow> bytes \<Rightarrow> bool" where
  "good_run env m resume rs v cks c \<longleftrightarrow>
     (\<forall>ck\<in>set cks. sendable (e_b3 env) m ck) \<and>
     c = foldl place v (map (\<lambda>ck. (chunk_offset m ck, data ck)) cks) \<and>
     received rs \<union> (\<lambda>ck. unat (index ck)) ` set cks = {0..<unat (chunk_count m)} \<and>
     (\<not> resume \<longrightarrow> sum_list (map (\<lambda>ck. length (data ck)) cks) = unat (file_size m) \<and>
        length cks = unat (chunk_count m)) \<and>
     blake3 (e_b3 env) (if \<not> resume \<and> in_order cks then concat (map data cks) else c) = root_hash m"

lemma session_counts_pass:
  assumes "transferred env m rs resume k1 w1 cks tr st"
    and "received rs \<union> (\<lambda>ck. unat (index ck)) ` set cks = {0..<unat (chunk_count m)}"
    and "\<not> resume \<Longrightarrow> sum_list (map (\<lambda>ck. length (data ck)) cks) = unat (file_size m) \<and> length cks = unat (chunk_count m)"
  shows "session_counts env m resume tr st = (Inr (), st)"
proof (cases resume)
  case True
  have "complete (tr_state tr) = Some True"
    using assms(1,2) complete_wf [of "tr_state tr"] by (simp add: transferred_def)
  then show ?thesis using True by (simp add: session_counts_def)
next
  case False
  then have "tr_bytes_received tr = file_size m" "tr_chunks_received tr = chunk_count m"
    using assms(1,3) by (simp_all add: transferred_def)
  then show ?thesis using False by (simp add: session_counts_def)
qed

lemma good_run_hash:
  assumes str: "streaming (e_b3 env)" and t: "transferred env m rs resume k1 w1 cks tr st"
    and flag: "\<not> resume \<and> in_order cks \<Longrightarrow> tr_all_in_order tr" and run: "good_run env m resume rs v cks c"
  shows "if tr_all_in_order tr then Blake3Hasher_finalize (e_b3 env) (tr_hasher tr) = root_hash m
    else blake3 (e_b3 env) c = root_hash m"
proof (cases "tr_all_in_order tr")
  case True
  then have "\<not> resume \<and> in_order cks"
    "tr_hasher tr = foldl (Blake3Hasher_update (e_b3 env)) (Blake3Hasher_new (e_b3 env)) (map data cks)"
    using t by (auto simp: transferred_def in_order_def)
  then show ?thesis
    using True run digest_blake3 [OF str, of "map data cks"] by (simp add: good_run_def digest_def)
next
  case False
  then have "\<not> (\<not> resume \<and> in_order cks)" using flag by blast
  moreover have "blake3 (e_b3 env) (if \<not> resume \<and> in_order cks then concat (map data cks) else c) = root_hash m"
    using run unfolding good_run_def by blast
  ultimately show ?thesis using False by (simp only: if_False)
qed

lemma session_verify_accepts:
  assumes rel: "reliable (e_ops env) inb outb" and str: "streaming (e_b3 env)"
    and l: "loop_state env m dest rs resume k1 w1 cks tr st" and k1: "sink_ready w1 k1"
    and run: "good_run env m resume rs (sink_view w1 k1) cks c"
    and fin: "tr_client_final_root_hash tr = root_hash m"
  obtains st' where "session_verify env m dest resume tr st = Some (Inr (), st')" "sink_on dest (ss_sink st')"
    "files (ss_world st') dest = Some (Regular c)" "files (ss_world st') (partial_path dest) = None"
    "files (ss_world st') (state_path dest) = None" "faults (ss_world st') = []"
    "outb (cn_stream (ss_conn st')) = outb (cn_stream (ss_conn st)) @ ack_wire m"
    "cn_kind (ss_conn st') = cn_kind (ss_conn st)"
proof -
  have t: "transferred env m rs resume k1 w1 cks tr st" and k: "sink_on dest (ss_sink st)"
    and w: "writable dest (ss_world st)" and flag: "\<not> resume \<and> in_order cks \<Longrightarrow> tr_all_in_order tr"
    using l by (simp_all add: loop_state_def)
  have sv: "sink_ready (ss_world st) (ss_sink st)" "sink_view (ss_world st) (ss_sink st) = c"
    using sink.writes_view [OF _ k1] t run by (auto simp: transferred_def good_run_def)
  have counts: "session_counts env m resume tr st = (Inr (), st)"
    using run by (intro session_counts_pass [OF t]) (simp_all add: good_run_def)
  note h = good_run_hash [OF str t flag run]
  have q: "faults (ss_world st) = []" using w by (simp add: writable_def)
  obtain st1 where 1: "session_root_hash env tr st = (Inr (root_hash m), st1)" "faults (ss_world st1) = []"
    "ss_conn st1 = ss_conn st" "unchanged_outside {partial_path dest} (ss_world st) (ss_world st1)"
    "sink_on dest (ss_sink st1)" "sink_ready (ss_world st1) (ss_sink st1)" "sink_view (ss_world st1) (ss_sink st1) = c"
    by (rule session_root_hash_quiet [OF k sv(1) q sv(2) str h])
  have cmp: "session_compare env m tr (root_hash m) st1 = (Inr (), st1)"
    using fin by (simp add: session_compare_def)
  have "files (ss_world st1) (partial_path dest) \<noteq> Some Directory" using 1(5,6) by (auto simp: sink_ready_def sink_on_def)
  then have w1: "writable dest (ss_world st1)"
    using w 1(2,4) by (auto simp: writable_def session_files_def unchanged_outside_def)
  obtain st' where f: "session_finish env m dest st1 = (Inr (), st')" "sink_on dest (ss_sink st')"
    "files (ss_world st') dest = Some (Regular c)" "files (ss_world st') (partial_path dest) = None"
    "files (ss_world st') (state_path dest) = None" "faults (ss_world st') = []"
    "outb (cn_stream (ss_conn st')) = outb (cn_stream (ss_conn st1)) @ ack_wire m"
    "cn_kind (ss_conn st') = cn_kind (ss_conn st1)"
    by (rule session_finish_quiet [OF rel 1(5,6) w1 1(7)])
  have "session_verify env m dest resume tr st = Some (Inr (), st')"
    using counts 1(1) cmp f(1) by (simp add: session_verify_def and_then_def)
  then show thesis using that f 1(3) by simp
qed

subsection \<open>A session from the manifest on\<close>

text \<open>
  Where a session starts: no state file and zeros, or the state file and the partial file \<open>v\<close> an
  earlier session of the same manifest has left.
\<close>

definition start_state ::
    "('s, 'h) session_env \<Rightarrow> ManifestMsg \<Rightarrow> string \<Rightarrow> bytes \<Rightarrow> world \<Rightarrow> bool \<Rightarrow> ResumeState \<Rightarrow> bool" where
  "start_state env m dest v w resume rs \<longleftrightarrow>
     (if resume
      then wf_state rs \<and> rs_manifest_id rs = manifest_id env m \<and> rs_chunk_count rs = chunk_count m \<and>
        files w (state_path dest) = Some (Regular (state_bytes rs)) \<and>
        files w (partial_path dest) = Some (Regular v) \<and> length v = unat (file_size m)
      else rs = new_ResumeState (manifest_id env m) (chunk_count m) \<and> files w (state_path dest) = None \<and>
        v = replicate (unat (file_size m)) 0)"

lemma start_state_wf:
  assumes "small_manifest m" "start_state env m dest v w resume rs"
  shows "wf_state rs" "rs_chunk_count rs = chunk_count m" "\<not> resume \<Longrightarrow> received rs = {}"
proof -
  let ?new = "new_ResumeState (manifest_id env m) (chunk_count m)"
  have "wf_state ?new" "rs_chunk_count ?new = chunk_count m" "received ?new = {}"
    using small_manifest_count [OF assms(1)] new_ResumeState_wf new_ResumeState_received
    by (simp_all add: manifest_id_def new_ResumeState_def)
  then show "wf_state rs" "rs_chunk_count rs = chunk_count m" "\<not> resume \<Longrightarrow> received rs = {}"
    using assms(2) by (auto simp: start_state_def split: if_splits)
qed

lemma session_state_honest:
  assumes m: "small_manifest m" and s: "start_state env m dest v (ss_world st) resume rs"
    and q: "faults (ss_world st) = []"
  obtains st' where "session_state env m dest st = (Inr (rs, resume), st')" "ss_conn st' = ss_conn st"
    "files (ss_world st') = files (ss_world st)" "faults (ss_world st') = []" "ss_sink st' = ss_sink st"
proof (cases resume)
  case True
  then have rs: "wf_state rs" "rs_manifest_id rs = manifest_id env m" "rs_chunk_count rs = chunk_count m"
    "files (ss_world st) (state_path dest) = Some (Regular (state_bytes rs))"
    using s by (simp_all add: start_state_def)
  have "load (ss_world st) (state_path dest) = (Some rs, ss_world st)"
    using load_quiet [OF q] rs(4) parse_state_bytes [OF rs(1), of "[]"] by simp
  moreover obtain l where "missing rs = Some l" using resume.absent [OF rs(1)] by blast
  ultimately show thesis using that [of st] True rs q by (simp add: session_state_def)
next
  case False
  then have rs: "rs = new_ResumeState (manifest_id env m) (chunk_count m)"
    "files (ss_world st) (state_path dest) = None" using s by (simp_all add: start_state_def)
  have "load (ss_world st) (state_path dest) = (None, ss_world st)"
    using rs(2) q by (simp add: load_def is_open_read_def closed_ifstream_def fs_simps)
  moreover have "files (remove (ss_world st) (state_path dest)) = files (ss_world st)"
    "faults (remove (ss_world st) (state_path dest)) = []"
    using rs(2) q by (simp_all add: remove_def fs_remove_def fs_simps fun_upd_idem)
  ultimately show thesis
    using that [of "st\<lparr>ss_world := remove (ss_world st) (state_path dest)\<rparr>"] False rs(1)
    by (simp add: session_state_def)
qed

lemma session_files_not_dirs:
  assumes "path_names dest \<noteq> []" "p \<in> session_files dest"
  shows "p \<notin> dirs_of dest"
proof
  assume "p \<in> dirs_of dest"
  then have "length p < length dest"
    using dir_prefixes_length length_path_parent [OF assms(1)] unfolding dirs_of_def by (metis le_less_trans)
  then show False
    using assms(2) by (auto simp: session_files_def with_partial_suffix_def state_path_def state_tmp_def)
qed

lemma open_succeeds:
  assumes size: "unat (file_size m) < 2 ^ 63" and s: "start_state env m dest v w resume rs"
    and w: "writable dest w" and names: "path_names dest \<noteq> []"
  obtains k1 w1 where "FileSink_open w (new_FileSink dest) (file_size m) resume = (True, k1, w1)" "faults w1 = []"
    "sink_view w1 k1 = v"
proof -
  let ?k = "(new_FileSink dest)\<lparr>sk_total_size := file_size m\<rparr>"
  let ?w0 = "fs_create_directories w (path_parent dest)"
  have paths: "sk_partial_path ?k = partial_path dest" "sk_final_path ?k = dest" by (simp_all add: new_FileSink_def)
  have w0: "files ?w0 p = files w p" if "p \<in> session_files dest" for p
    using create_directories_not_dir [of w p "path_parent dest"] session_files_not_dirs [OF names that] that w
    by (auto simp: dirs_of_def writable_def)
  have q0: "faults ?w0 = []" using w by (simp add: writable_def fs_simps)
  show thesis
  proof (cases resume)
    case True
    have v: "files w (partial_path dest) = Some (Regular v)" "length v = unat (file_size m)"
      using s True by (auto simp: start_state_def)
    then have f: "files ?w0 (partial_path dest) = Some (Regular v)" using w0 by (simp add: session_files_def)
    have "word_of_nat (length v) = file_size m" using v(2) by simp
    then have "FileSink_open w (new_FileSink dest) (file_size m) resume =
        (True, ?k\<lparr>sk_stream := opened_ofstream (partial_path dest)\<rparr>, ?w0)"
      using True f q0 by (simp add: FileSink_open_def Let_def new_FileSink_def fs_exists_def fs_file_size_def
          os_open_inout_def opened_ofstream_def fs_simps)
    then show thesis
      using that q0 f by (simp add: sink_view_def opened_ofstream_def new_FileSink_def content_def)
  next
    case False
    have "files ?w0 (sk_partial_path ?k) \<noteq> Some Directory"
      using w0 w by (auto simp: paths writable_def session_files_def)
    moreover have "unat (file_size m) \<le> 2 ^ 63" using size by simp
    ultimately obtain k1 w1 where f: "FileSink_open_fresh ?w0 ?k (file_size m) = (True, k1, w1)" "faults w1 = []"
      using open_fresh_quiet [OF q0] by blast
    have "FileSink_open w (new_FileSink dest) (file_size m) resume = (True, k1, w1)"
      using False f(1) by (simp add: FileSink_open_def Let_def new_FileSink_def)
    moreover have "sink_view w1 k1 = v"
      using open_fresh_ok(2) [OF f(1)] s False by (simp add: start_state_def)
    ultimately show thesis using that f(2) by blast
  qed
qed

lemma open_quiet:
  assumes size: "unat (file_size m) < 2 ^ 63" and s: "start_state env m dest v w resume rs"
    and w: "writable dest w" and names: "path_names dest \<noteq> []"
  obtains k1 w1 where "FileSink_open w (new_FileSink dest) (file_size m) resume = (True, k1, w1)"
    "writable dest w1" "sink_view w1 k1 = v" "files w1 dest = files w dest"
    "files w1 (state_path dest) = files w (state_path dest)"
proof -
  obtain k1 w1 where o: "FileSink_open w (new_FileSink dest) (file_size m) resume = (True, k1, w1)" "faults w1 = []"
    "sink_view w1 k1 = v" by (rule open_succeeds [OF assms])
  have keep: "files w1 p = files w p \<or> p = partial_path dest" if "p \<in> session_files dest" for p
    using open_sink_on(1) [OF o(1)] session_files_not_dirs [OF names that] by (auto simp: only_dirs_def)
  have "files w1 (partial_path dest) \<noteq> Some Directory"
    using open_frame(4,5) [OF o(1)] by (auto simp: sink_ready_def new_FileSink_def)
  with keep have "\<forall>p\<in>session_files dest. files w1 p \<noteq> Some Directory" using w unfolding writable_def by metis
  then have "writable dest w1" using o(2) by (simp add: writable_def)
  moreover have "files w1 dest = files w dest" "files w1 (state_path dest) = files w (state_path dest)"
    using keep [of dest] keep [of "state_path dest"] by (simp_all add: session_files_def)
  ultimately show thesis using that o by blast
qed

lemma length_concat_map: "length (concat (map (f :: 'a \<Rightarrow> 'b list) xs)) = (\<Sum>x\<leftarrow>xs. length (f x))"
  by (induction xs) simp_all

lemma missing_facts:
  assumes "wf_state rs" "missing rs = Some is"
  shows "\<forall>i\<in>set is. i < rs_chunk_count rs" "{0..<unat (rs_chunk_count rs)} - received rs \<subseteq> unat ` set is"
    "received rs = {} \<Longrightarrow> is = upto_u32 (rs_chunk_count rs)" "length is \<le> unat (rs_chunk_count rs)"
proof -
  have "is": "is = filter (\<lambda>i. unat i \<notin> received rs) (upto_u32 (rs_chunk_count rs))"
    using resume.absent [OF assms(1)] assms(2) by (simp add: upto_u32_def)
  show "\<forall>i\<in>set is. i < rs_chunk_count rs" using upto_u32_bound by (auto simp: "is")
  show "is = upto_u32 (rs_chunk_count rs)" if "received rs = {}" using that by (simp add: "is")
  have n: "length (upto_u32 (rs_chunk_count rs)) = unat (rs_chunk_count rs)" by (simp add: upto_u32_def)
  show "length is \<le> unat (rs_chunk_count rs)"
    unfolding "is" using length_filter_le [of _ "upto_u32 (rs_chunk_count rs)"] n by metis
  have "unat ` set (upto_u32 (rs_chunk_count rs)) = {0..<unat (rs_chunk_count rs)}"
    using arg_cong [OF unat_upto_u32 [of "rs_chunk_count rs"], of set] by simp
  then show "{0..<unat (rs_chunk_count rs)} - received rs \<subseteq> unat ` set is" unfolding "is" by auto
qed

lemma request_fits:
  assumes "small_manifest m" "length is \<le> unat (chunk_count m)"
  shows "length (encode_req_chunks \<lparr>indices = is\<rparr>) \<le> kDefaultMaxPayload"
proof -
  have "length (encode_req_chunks \<lparr>indices = is\<rparr>) = 4 + 4 * length is"
    by (simp add: codec_simps length_concat_map sum_list_triv)
  then show ?thesis using assms by (simp add: small_manifest_def kDefaultMaxPayload_def)
qed

text \<open>The session up to the chunk loop.\<close>

lemma session_enters:
  assumes rel: "reliable (e_ops env) inb outb" and m: "small_manifest m" "unat (file_size m) < 2 ^ 63"
    and dest: "path_names dest \<noteq> []" "writable dest (ss_world st)"
    and s: "start_state env m dest v (ss_world st) resume rs" "missing rs = Some is"
  obtains st1 st' where "session_state env m dest st = (Inr (rs, resume), st1)"
    "session_request env m dest rs resume st1 = (Inr (), st')"
    "loop_state env m dest rs resume (ss_sink st') (ss_world st') [] (new_transfer (e_b3 env) rs resume) st'"
    "sink_ready (ss_world st') (ss_sink st')" "sk_total_size (ss_sink st') = file_size m"
    "sk_partial_path (ss_sink st') = partial_path dest" "sink_view (ss_world st') (ss_sink st') = v"
    "inb (cn_stream (ss_conn st')) = inb (cn_stream (ss_conn st))" "files (ss_world st') dest = files (ss_world st) dest"
    "outb (cn_stream (ss_conn st')) = outb (cn_stream (ss_conn st)) @ req_wire is"
proof -
  note rs = start_state_wf [OF m(1) s(1)]
  note mf = missing_facts [OF rs(1) s(2), unfolded rs(2)]
  have q: "faults (ss_world st) = []" using dest(2) by (simp add: writable_def)
  obtain st1 where 1: "session_state env m dest st = (Inr (rs, resume), st1)" "ss_conn st1 = ss_conn st"
    "files (ss_world st1) = files (ss_world st)" "faults (ss_world st1) = []" "ss_sink st1 = ss_sink st"
    by (rule session_state_honest [OF m(1) s(1) q])
  have w1: "writable dest (ss_world st1)" "start_state env m dest v (ss_world st1) resume rs"
    using dest(2) s(1) 1(3,4) by (simp_all add: writable_def start_state_def)
  obtain k2 w2 where o: "FileSink_open (ss_world st1) (new_FileSink dest) (file_size m) resume = (True, k2, w2)"
    "writable dest w2" "sink_view w2 k2 = v" "files w2 dest = files (ss_world st1) dest"
    "files w2 (state_path dest) = files (ss_world st1) (state_path dest)"
    by (rule open_quiet [OF m(2) w1(2,1) dest(1)])
  let ?req = "encode_req_chunks \<lparr>indices = is\<rparr>"
  have "length ?req \<le> kDefaultMaxPayload" by (rule request_fits [OF m(1) mf(4)])
  then obtain st2 where 2: "session_send env (st1\<lparr>ss_world := w2, ss_sink := k2\<rparr>) ReqChunks ?req = (Inr (), st2)"
    "inb (cn_stream (ss_conn st2)) = inb (cn_stream (ss_conn st))"
    "outb (cn_stream (ss_conn st2)) = outb (cn_stream (ss_conn st)) @ req_wire is"
    "ss_world st2 = w2" "ss_sink st2 = k2"
    using session_send_reliable [OF rel, where st = "st1\<lparr>ss_world := w2, ss_sink := k2\<rparr>" and t = ReqChunks] 1(2)
    by auto
  have rq: "session_request env m dest rs resume st1 = (Inr (), st2)"
    using o(1) s(2) 2(1) by (simp add: session_request_def)
  have k2: "sink_ready w2 k2" "sk_total_size k2 = file_size m" "sk_partial_path k2 = partial_path dest" "sink_on dest k2"
    using open_frame(4,5) [OF o(1)] open_sink_on(2) [OF o(1)] by (simp_all add: new_FileSink_def)
  have "state_saved env m dest resume [] rs w2"
    using s(1) o(5) 1(3) by (auto simp: state_saved_def start_state_def new_ResumeState_def split: if_splits)
  then have "loop_state env m dest rs resume k2 w2 [] (new_transfer (e_b3 env) rs resume) st2"
    using rs k2(4) 2(4,5) o(2) sink.none
    by (auto simp: loop_state_def transferred_def new_transfer_def)
  then show thesis using that [OF 1(1) rq] k2 o(3,4) 1(3) 2 by simp
qed

subsection \<open>A whole session\<close>

lemma manifest_fits_small:
  assumes "valid_manifest m" "length (encode_manifest m) \<le> kDefaultMaxPayload"
  shows "small_manifest m"
proof -
  have "length (concat (chunk_hashes m)) = 32 * unat (chunk_count m)"
    using assms(1) length_concat_const [of "chunk_hashes m" kHashSize]
    by (simp add: valid_manifest_def kHashSize_def)
  then show ?thesis
    using assms by (simp add: small_manifest_def codec_simps valid_manifest_def kHashSize_def kDefaultMaxPayload_def)
qed

lemma hello_length [simp]: "length (encode_hello h) = 9"
  by (simp add: codec_simps)

lemma session_hello_honest:
  assumes rel: "reliable (e_ops env) inb outb" and inb: "inb (cn_stream (ss_conn st)) = hello_wire @ bs"
  obtains st' where "session_hello env st = (Inr (), st')" "inb (cn_stream (ss_conn st')) = bs"
    "outb (cn_stream (ss_conn st')) = outb (cn_stream (ss_conn st)) @ hello_wire"
    "ss_world st' = ss_world st" "ss_sink st' = ss_sink st"
proof -
  have len: "length (encode_hello default_hello) \<le> kDefaultMaxPayload" by (simp add: kDefaultMaxPayload_def)
  obtain st1 where 1: "session_recv env st = (Some (frame_of Hello (encode_hello default_hello)), st1)"
    "inb (cn_stream (ss_conn st1)) = bs" "outb (cn_stream (ss_conn st1)) = outb (cn_stream (ss_conn st))"
    "ss_world st1 = ss_world st" "ss_sink st1 = ss_sink st"
    by (rule session_recv_reliable [OF rel inb len])
  obtain st2 where 2: "session_send env st1 Hello (encode_hello default_hello) = (Inr (), st2)"
    "inb (cn_stream (ss_conn st2)) = inb (cn_stream (ss_conn st1))"
    "outb (cn_stream (ss_conn st2)) = outb (cn_stream (ss_conn st1)) @ hello_wire"
    "ss_world st2 = ss_world st1" "ss_sink st2 = ss_sink st1"
    by (rule session_send_reliable [OF rel len])
  have "session_hello env st = (Inr (), st2)"
    using 1(1) 2(1) hello.dec_enc [OF TrueI, of default_hello]
    by (simp add: session_hello_def) (simp add: default_hello_def)
  then show thesis using that 1 2 by simp
qed

lemma session_manifest_honest:
  assumes rel: "reliable (e_ops env) inb outb" and inb: "inb (cn_stream (ss_conn st)) = manifest_wire m @ bs"
    and m: "valid_manifest m" "length (encode_manifest m) \<le> kDefaultMaxPayload"
    and dest: "resolve_dest (e_root env) (path m) = Some dest"
  obtains st' where "session_manifest env st = (Inr (m, dest), st')" "inb (cn_stream (ss_conn st')) = bs"
    "outb (cn_stream (ss_conn st')) = outb (cn_stream (ss_conn st))"
    "ss_world st' = ss_world st" "ss_sink st' = ss_sink st"
proof -
  obtain st1 where 1: "session_recv env st = (Some (frame_of Manifest (encode_manifest m)), st1)"
    "inb (cn_stream (ss_conn st1)) = bs" "outb (cn_stream (ss_conn st1)) = outb (cn_stream (ss_conn st))"
    "ss_world st1 = ss_world st" "ss_sink st1 = ss_sink st"
    by (rule session_recv_reliable [OF rel inb m(2)])
  have "session_manifest env st = (Inr (m, dest), st1)"
    using 1(1) manifest.dec_enc [OF m(1)] dest by (simp add: session_manifest_def)
  then show thesis using that 1 by simp
qed

text \<open>The stream of a session: the accepted socket, or the TLS stream over it after the handshake.\<close>

definition session_stream :: "('s, 'h) session_env \<Rightarrow> 's \<Rightarrow> 's \<Rightarrow> bool" where
  "session_stream env socket s \<longleftrightarrow>
     (case e_ssl_ctx env of
        None \<Rightarrow> s = socket
      | Some ctx \<Rightarrow> st_server_handshake (e_ops env) (st_tls_wrap (e_ops env) socket ctx) = (None, s))"


text \<open>
  What a transfer needs of the manifest, the destination and the server's disk: the messages fit
  their frames, the destination names a file below the root that can be written, and the
  directories on the way to it are not regular files.
\<close>

definition placeable :: "('s, 'h) session_env \<Rightarrow> ManifestMsg \<Rightarrow> string \<Rightarrow> world \<Rightarrow> bool" where
  "placeable env m dest w \<longleftrightarrow>
     valid_manifest m \<and> length (encode_manifest m) \<le> kDefaultMaxPayload \<and> unat (file_size m) < 2 ^ 63 \<and>
     resolve_dest (e_root env) (path m) = Some dest \<and> path_names dest \<noteq> [] \<and> \<not> ends_in_slash dest \<and>
     (\<forall>p\<in>dirs_of dest. \<forall>c. files w p \<noteq> Some (Regular c)) \<and> writable dest w"

definition server_bytes :: "ManifestMsg \<Rightarrow> u32 list \<Rightarrow> bytes" where
  "server_bytes m is = hello_wire @ req_wire is @ ack_wire m"

lemma handle_session_start:
  assumes "session_stream env socket s"
  obtains c where "cn_stream c = s"
    "handle_session env socket w =
       map_option (end_session env) (session_body env \<lparr>ss_conn = c, ss_world = w, ss_sink = new_FileSink ''''\<rparr>)"
proof -
  let ?mk = "case e_ssl_ctx env of Some ctx \<Rightarrow> Connection_tls (e_ops env) socket ctx | None \<Rightarrow> Connection_plain socket"
  obtain c where c: "(if e_ssl_ctx env \<noteq> None then tls_server_handshake (e_ops env) ?mk else (True, ?mk)) = (True, c)"
    "cn_stream c = s"
    using assms by (cases "e_ssl_ctx env")
      (auto simp: session_stream_def Connection_plain_def Connection_tls_def tls_server_handshake_def)
  show thesis using that [OF c(2)] unfolding handle_session_def Let_def c(1) by simp
qed

text \<open>A session whose peer opens with HELLO and the manifest \<open>m\<close> comes to receive the chunks of \<open>m\<close>.\<close>

lemma handle_session_receive:
  assumes rel: "reliable (e_ops env) inb outb" and s: "session_stream env socket s"
    and inb: "inb s = hello_wire @ manifest_wire m @ bs"
    and m: "valid_manifest m" "length (encode_manifest m) \<le> kDefaultMaxPayload"
    and dest: "resolve_dest (e_root env) (path m) = Some dest"
  obtains st where "handle_session env socket w = map_option (end_session env) (session_receive env m dest st)"
    "ss_world st = w" "inb (cn_stream (ss_conn st)) = bs" "outb (cn_stream (ss_conn st)) = outb s @ hello_wire"
proof -
  obtain c0 where c: "cn_stream c0 = s" "handle_session env socket w =
      map_option (end_session env) (session_body env \<lparr>ss_conn = c0, ss_world = w, ss_sink = new_FileSink ''''\<rparr>)"
    by (rule handle_session_start [OF s])
  let ?st = "\<lparr>ss_conn = c0, ss_world = w, ss_sink = new_FileSink ''''\<rparr>"
  have i0: "inb (cn_stream (ss_conn ?st)) = hello_wire @ manifest_wire m @ bs" using inb c(1) by simp
  obtain st1 where 1: "session_hello env ?st = (Inr (), st1)" "inb (cn_stream (ss_conn st1)) = manifest_wire m @ bs"
    "outb (cn_stream (ss_conn st1)) = outb s @ hello_wire" "ss_world st1 = w"
    using session_hello_honest [OF rel i0] c(1) by auto
  obtain st2 where 2: "session_manifest env st1 = (Inr (m, dest), st2)" "inb (cn_stream (ss_conn st2)) = bs"
    "outb (cn_stream (ss_conn st2)) = outb (cn_stream (ss_conn st1))" "ss_world st2 = ss_world st1"
    by (rule session_manifest_honest [OF rel 1(2) m dest])
  have "session_body env ?st = session_receive env m dest st2"
    using 1(1) 2(1) by (simp add: session_body_def and_then_def)
  then show thesis using that c(2) 1 2 by simp
qed

text \<open>The session up to the chunk loop.\<close>

lemma handle_session_begins:
  assumes rel: "reliable (e_ops env) inb outb" and p: "placeable env m dest w"
    and v: "start_state env m dest v w resume rs" "missing rs = Some is" and s: "session_stream env socket s"
    and inb: "inb s = hello_wire @ manifest_wire m @ bs"
  obtains st where
    "handle_session env socket w = map_option (end_session env) (session_transfer env m dest rs resume st)"
    "loop_state env m dest rs resume (ss_sink st) (ss_world st) [] (new_transfer (e_b3 env) rs resume) st"
    "sink_ready (ss_world st) (ss_sink st)" "sk_total_size (ss_sink st) = file_size m"
    "sk_partial_path (ss_sink st) = partial_path dest" "sink_view (ss_world st) (ss_sink st) = v"
    "inb (cn_stream (ss_conn st)) = bs" "files (ss_world st) dest = files w dest"
    "outb (cn_stream (ss_conn st)) = outb s @ hello_wire @ req_wire is"
proof -
  have m: "valid_manifest m" "length (encode_manifest m) \<le> kDefaultMaxPayload" "unat (file_size m) < 2 ^ 63"
     "resolve_dest (e_root env) (path m) = Some dest" "path_names dest \<noteq> []" "writable dest w"
    using p by (simp_all add: placeable_def)
  obtain st1 where 1: "handle_session env socket w = map_option (end_session env) (session_receive env m dest st1)"
    "ss_world st1 = w" "inb (cn_stream (ss_conn st1)) = bs" "outb (cn_stream (ss_conn st1)) = outb s @ hello_wire"
    by (rule handle_session_receive [OF rel s inb m(1,2,4)])
  have w1: "writable dest (ss_world st1)" "start_state env m dest v (ss_world st1) resume rs" using 1(2) m(6) v by simp_all
  show thesis
    by (rule session_enters [OF rel manifest_fits_small [OF m(1,2)] m(3,5) w1 v(2)])
      (rule that, use 1 in \<open>simp_all add: session_receive_def and_then_def\<close>)
qed

lemma handle_session_accepts:
  assumes rel: "reliable (e_ops env) inb outb" and str: "streaming (e_b3 env)"
    and p: "placeable env m dest w" and st: "start_state env m dest v w resume rs" "missing rs = Some is"
    and run: "good_run env m resume rs v cks c"
    and s: "session_stream env socket s"
    and inb: "inb s = hello_wire @ manifest_wire m @ concat (map data_wire cks) @ complete_wire m"
  obtains s' w' where "handle_session env socket w = Some (Returned True, s', w')"
    "files w' dest = Some (Regular c)" "files w' (state_path dest) = None" "outb s' = outb s @ server_bytes m is"
proof -
  obtain st2 where 2: "handle_session env socket w = map_option (end_session env) (session_transfer env m dest rs resume st2)"
    "loop_state env m dest rs resume (ss_sink st2) (ss_world st2) [] (new_transfer (e_b3 env) rs resume) st2"
    "sink_ready (ss_world st2) (ss_sink st2)" "sk_total_size (ss_sink st2) = file_size m"
    "sk_partial_path (ss_sink st2) = partial_path dest" "sink_view (ss_world st2) (ss_sink st2) = v"
    "inb (cn_stream (ss_conn st2)) = concat (map data_wire cks) @ complete_wire m"
    "outb (cn_stream (ss_conn st2)) = outb s @ hello_wire @ req_wire is"
    by (rule handle_session_begins [OF rel p st s inb])
  have good: "\<forall>ck\<in>set cks. sendable (e_b3 env) m ck" "length (root_hash m) = kHashSize"
    using run p by (simp_all add: good_run_def placeable_def valid_manifest_def)
  obtain tr st3 where 3: "chunk_loop env m dest (new_transfer (e_b3 env) rs resume) st2 = Some (Finished, tr, st3)"
    "loop_state env m dest rs resume (ss_sink st2) (ss_world st2) cks tr st3"
    "tr_client_final_root_hash tr = root_hash m" "outb (cn_stream (ss_conn st3)) = outb (cn_stream (ss_conn st2))"
    by (rule chunk_loop_accepts [OF rel good 2(3-5,2,7)]) simp
  obtain st4 where 4: "session_verify env m dest resume tr st3 = Some (Inr (), st4)" "sink_on dest (ss_sink st4)"
    "files (ss_world st4) dest = Some (Regular c)" "files (ss_world st4) (state_path dest) = None"
    "outb (cn_stream (ss_conn st4)) = outb (cn_stream (ss_conn st3)) @ ack_wire m"
    by (rule session_verify_accepts [OF rel str 3(2) 2(3) run [folded 2(6)] 3(3)])
  obtain k w' where cl: "FileSink_close (ss_world st4) (ss_sink st4) = (k, w')" by fastforce
  have h: "handle_session env socket w =
      Some (Returned True, cn_stream (Connection_close (e_ops env) (ss_conn st4)), w')"
    using 2(1) 3(1) 4(1) cl by (simp add: session_transfer_def end_session_def)
  have "files w' dest = files (ss_world st4) dest" "files w' (state_path dest) = files (ss_world st4) (state_path dest)"
    using close_sink_on [OF 4(2) cl] by (simp_all add: unchanged_outside_def)
  moreover have "outb (cn_stream (Connection_close (e_ops env) (ss_conn st4))) = outb s @ server_bytes m is"
    using close_reliable [OF rel] 4(5) 3(4) 2(8) by (simp add: server_bytes_def)
  ultimately show thesis using that h 4(3,4) by simp
qed

end
