(* ===== verification/Ftx_Honest.thy ===== *)
theory Ftx_Honest
  imports Ftx_Accept
begin

text \<open>
  Sessions that succeed: over a reliable stream and without file-system faults a session whose peer
  sends the chunks of a file \<open>T\<close> that the manifest describes ends with \<open>T\<close> at the destination, both
  for a fresh transfer and for one that resumes from the state of an earlier session.
\<close>

definition describes :: "'h blake3_lib \<Rightarrow> ManifestMsg \<Rightarrow> bytes \<Rightarrow> bool" where
  "describes lib m T \<longleftrightarrow>
     length T < 2 ^ 63 \<and> file_size m = word_of_nat (length T) \<and> root_hash m = blake3 lib T \<and>
     length (chunk_hashes m) = unat (chunk_count m) \<and>
     (\<forall>i<unat (chunk_count m). chunk_hashes m ! i = blake3 lib (chunk_of T (unat (chunk_size m)) i) \<and>
        i * unat (chunk_size m) \<le> length T) \<and>
     length T \<le> unat (chunk_count m) * unat (chunk_size m)"

definition chunk_msg :: "'h blake3_lib \<Rightarrow> ManifestMsg \<Rightarrow> bytes \<Rightarrow> u32 \<Rightarrow> ChunkMsg" where
  "chunk_msg lib m T i =
     \<lparr>index = i, hash = blake3 lib (chunk_of T (unat (chunk_size m)) (unat i)),
      data = chunk_of T (unat (chunk_size m)) (unat i)\<rparr>"

lemma chunk_msg_simps [simp]:
  "index (chunk_msg lib m T i) = i"
  "data (chunk_msg lib m T i) = chunk_of T (unat (chunk_size m)) (unat i)"
  "hash (chunk_msg lib m T i) = blake3 lib (chunk_of T (unat (chunk_size m)) (unat i))"
  by (simp_all add: chunk_msg_def)

lemma length_chunk_of: "length (chunk_of T n i) = min n (length T - i * n)"
  by (simp add: chunk_of_def)

lemma describes_size: "describes lib m T \<Longrightarrow> unat (file_size m) = length T"
  by (simp add: describes_def)

lemma describes_chunk:
  assumes "describes lib m T" "i < chunk_count m"
  shows "blake3 lib (data (chunk_msg lib m T i)) = chunk_hashes m ! unat i"
    "unat (chunk_offset m (chunk_msg lib m T i)) + length (data (chunk_msg lib m T i)) \<le> unat (file_size m)"
    "unat (chunk_offset m (chunk_msg lib m T i)) < 2 ^ 63"
    "vec_at (chunk_hashes m) (unat i) = Some (hash (chunk_msg lib m T i))"
proof -
  have i: "unat i < unat (chunk_count m)" using assms(2) by (simp add: word_less_nat_alt)
  then have d: "chunk_hashes m ! unat i = blake3 lib (chunk_of T (unat (chunk_size m)) (unat i))"
    "unat i * unat (chunk_size m) \<le> length T" "length T < 2 ^ 63" "length (chunk_hashes m) = unat (chunk_count m)"
    using assms(1) by (simp_all add: describes_def)
  show "blake3 lib (data (chunk_msg lib m T i)) = chunk_hashes m ! unat i"
    "vec_at (chunk_hashes m) (unat i) = Some (hash (chunk_msg lib m T i))"
    using d i by (simp_all add: vec_at_def)
  show "unat (chunk_offset m (chunk_msg lib m T i)) + length (data (chunk_msg lib m T i)) \<le> unat (file_size m)"
    "unat (chunk_offset m (chunk_msg lib m T i)) < 2 ^ 63"
    using d describes_size [OF assms(1)] by (simp_all add: unat_chunk_offset length_chunk_of)
qed

lemma describes_sendable:
  assumes "describes lib m T" "unat (chunk_size m) + 36 \<le> kDefaultMaxPayload" "i < chunk_count m"
  shows "sendable lib m (chunk_msg lib m T i)"
  using describes_chunk [OF assms(1,3)] assms(2,3) by (simp add: sendable_def length_chunk_of)

abbreviation chunk_wire :: "'h blake3_lib \<Rightarrow> ManifestMsg \<Rightarrow> bytes \<Rightarrow> u32 \<Rightarrow> bytes" where
  "chunk_wire lib m T i \<equiv> wire (frame_of Chunk (encode_chunk (chunk_msg lib m T i)))"

subsection \<open>The stored chunks make up the file\<close>

text \<open>The content \<open>v\<close> has the file's bytes in the chunks of \<open>R\<close>.\<close>

definition agrees_on :: "ManifestMsg \<Rightarrow> bytes \<Rightarrow> nat set \<Rightarrow> bytes \<Rightarrow> bool" where
  "agrees_on m T R v \<longleftrightarrow>
     length v = length T \<and> (\<forall>j<length T. j div unat (chunk_size m) \<in> R \<longrightarrow> v ! j = T ! j)"

lemma chunk_index_bound:
  assumes "describes lib m T" "j < length T"
  shows "j div unat (chunk_size m) < unat (chunk_count m)" "0 < unat (chunk_size m)"
proof -
  have "length T \<le> unat (chunk_count m) * unat (chunk_size m)" using assms(1) by (simp add: describes_def)
  then have "j < unat (chunk_count m) * unat (chunk_size m)" using assms(2) by simp
  then show "j div unat (chunk_size m) < unat (chunk_count m)" "0 < unat (chunk_size m)"
    by (simp_all add: less_mult_imp_div_less) (cases "unat (chunk_size m)", simp_all)
qed

lemma chunks_make_file:
  assumes d: "describes lib m T" and v: "agrees_on m T R v"
    and "is": "\<forall>i\<in>set is. i < chunk_count m" "{0..<unat (chunk_count m)} - R \<subseteq> unat ` set is"
  shows "foldl place v (map (\<lambda>ck. (chunk_offset m ck, data ck)) (map (chunk_msg lib m T) is)) = T"
proof (rule place_agrees)
  let ?n = "unat (chunk_size m)"
  let ?ps = "map (\<lambda>ck. (chunk_offset m ck, data ck)) (map (chunk_msg lib m T) is)"
  show "length v = length T" using v by (simp add: agrees_on_def)
  show "\<forall>p\<in>set ?ps. unat (fst p) + length (snd p) \<le> length T \<and>
      snd p = take (length (snd p)) (drop (unat (fst p)) T)"
    using "is"(1) describes_chunk(2) [OF d] describes_size [OF d]
    by (auto simp: unat_chunk_offset chunk_of_def min_def)
  show "\<forall>j<length T. v ! j = T ! j \<or> (\<exists>p\<in>set ?ps. unat (fst p) \<le> j \<and> j < unat (fst p) + length (snd p))"
  proof (intro allI impI)
    fix j assume j: "j < length T"
    let ?q = "j div ?n"
    note b = chunk_index_bound [OF d j]
    show "v ! j = T ! j \<or> (\<exists>p\<in>set ?ps. unat (fst p) \<le> j \<and> j < unat (fst p) + length (snd p))"
    proof (cases "?q \<in> R")
      case True
      then show ?thesis using v j by (simp add: agrees_on_def)
    next
      case False
      then obtain i where i: "i \<in> set is" "unat i = ?q" using "is"(2) b(1) by force
      have "?q * ?n \<le> j" "j < ?q * ?n + ?n"
        using mod_less_divisor [OF b(2), of j] div_mult_mod_eq [of j ?n] by linarith+
      then show ?thesis using i j by (intro disjI2) (force simp: unat_chunk_offset length_chunk_of)
    qed
  qed
qed

lemma all_chunks_concat:
  assumes "describes lib m T"
  shows "concat (map data (map (chunk_msg lib m T) (upto_u32 (chunk_count m)))) = T"
proof -
  have "map data (map (chunk_msg lib m T) (upto_u32 (chunk_count m))) =
      map (chunk_of T (unat (chunk_size m))) (map unat (upto_u32 (chunk_count m)))" by simp
  then show ?thesis
    using assms concat_chunks [of T "unat (chunk_size m)" "unat (chunk_count m)"]
    by (simp add: unat_upto_u32 describes_def)
qed

subsection \<open>An honest session\<close>

text \<open>What a peer that holds the file \<open>T\<close> sends after the server has asked for the chunks \<open>is\<close>.\<close>

definition client_bytes :: "'h blake3_lib \<Rightarrow> ManifestMsg \<Rightarrow> bytes \<Rightarrow> u32 list \<Rightarrow> bytes" where
  "client_bytes lib m T is =
     hello_wire @ manifest_wire m @ concat (map (chunk_wire lib m T) is) @ complete_wire m"

text \<open>
  The server can take the file \<open>T\<close>: its chunks fit a frame, and a partial file an earlier session
  has left has the file's bytes in the chunks marked as received.
\<close>

definition transferable ::
    "('s, 'h) session_env \<Rightarrow> ManifestMsg \<Rightarrow> string \<Rightarrow> bytes \<Rightarrow> world \<Rightarrow> bool \<Rightarrow> ResumeState \<Rightarrow> bool" where
  "transferable env m dest T w resume rs \<longleftrightarrow>
     describes (e_b3 env) m T \<and> unat (chunk_size m) + 36 \<le> kDefaultMaxPayload \<and> placeable env m dest w \<and>
     (\<exists>v. start_state env m dest v w resume rs \<and> agrees_on m T (received rs) v)"

lemma honest_run:
  assumes d: "describes (e_b3 env) m T" and fit: "unat (chunk_size m) + 36 \<le> kDefaultMaxPayload"
    and rs: "wf_state rs" "rs_chunk_count rs = chunk_count m" "\<not> resume \<Longrightarrow> received rs = {}"
    and "is": "missing rs = Some is" and v: "agrees_on m T (received rs) v"
  shows "good_run env m resume rs v (map (chunk_msg (e_b3 env) m T) is) T"
proof -
  let ?cks = "map (chunk_msg (e_b3 env) m T) is"
  note mf = missing_facts [OF rs(1) "is", unfolded rs(2)]
  have send: "\<forall>ck\<in>set ?cks. sendable (e_b3 env) m ck" using describes_sendable [OF d fit] mf(1) by auto
  have "received rs \<subseteq> {0..<unat (chunk_count m)}" using received_bound [of rs] rs(2) by simp
  then have cov: "received rs \<union> (\<lambda>ck. unat (index ck)) ` set ?cks = {0..<unat (chunk_count m)}"
    using mf(1,2) by (auto simp: image_image word_less_nat_alt)
  have all: "is = upto_u32 (chunk_count m)" "concat (map data ?cks) = T" if "\<not> resume"
    using mf(3) [OF rs(3) [OF that]] all_chunks_concat [OF d] by simp_all
  have "sum_list (map (\<lambda>ck. length (data ck)) ?cks) = length (concat (map data ?cks))"
    by (simp add: length_concat comp_def)
  then have cnt: "sum_list (map (\<lambda>ck. length (data ck)) ?cks) = unat (file_size m) \<and>
      length ?cks = unat (chunk_count m)" if "\<not> resume"
    using all [OF that] describes_size [OF d] by (simp add: upto_u32_def)
  have "blake3 (e_b3 env) (if \<not> resume \<and> in_order ?cks then concat (map data ?cks) else T) = root_hash m"
    using d all(2) by (simp add: describes_def)
  then show ?thesis
    using send cov cnt chunks_make_file [OF d v mf(1,2), symmetric] unfolding good_run_def by blast
qed

lemma handle_session_honest:
  assumes rel: "reliable (e_ops env) inb outb" and str: "streaming (e_b3 env)"
    and t: "transferable env m dest T w resume rs" and "is": "missing rs = Some is"
    and s: "session_stream env socket s" and inb: "inb s = client_bytes (e_b3 env) m T is"
  obtains s' w' where "handle_session env socket w = Some (Returned True, s', w')"
    "files w' dest = Some (Regular T)" "files w' (state_path dest) = None"
    "outb s' = outb s @ server_bytes m is"
proof -
  obtain v where t': "describes (e_b3 env) m T" "unat (chunk_size m) + 36 \<le> kDefaultMaxPayload"
     "placeable env m dest w" "start_state env m dest v w resume rs" "agrees_on m T (received rs) v"
    using t by (auto simp: transferable_def)
  have "small_manifest m" using t'(3) manifest_fits_small by (simp add: placeable_def)
  from start_state_wf [OF this t'(4)]
  have run: "good_run env m resume rs v (map (chunk_msg (e_b3 env) m T) is) T"
    by (rule honest_run [OF t'(1,2) _ _ _ "is" t'(5)])
  have "inb s = hello_wire @ manifest_wire m @ concat (map data_wire (map (chunk_msg (e_b3 env) m T) is)) @ complete_wire m"
    using inb by (simp add: client_bytes_def comp_def)
  from handle_session_accepts [OF rel str t'(3,4) "is" run s this] that show thesis by blast
qed

end
