(* ===== verification/Ftx_Authentic.thy ===== *)
theory Ftx_Authentic
  imports Ftx_Honest
begin

text \<open>
  What a completed session guarantees of the file at the destination, whatever follows the manifest
  on the wire and whatever file-system calls fail; and that the transfer of a file succeeds.
\<close>

subsection \<open>Accepted content of a described file\<close>

text \<open>No other input has the hash of an input of the set: the idealised security of the hash.\<close>

definition second_preimage_free :: "'h blake3_lib \<Rightarrow> bytes set \<Rightarrow> bool" where
  "second_preimage_free lib X \<longleftrightarrow> (\<forall>x\<in>X. \<forall>y. blake3 lib y = blake3 lib x \<longrightarrow> y = x)"

definition committed_data :: "ManifestMsg \<Rightarrow> bytes \<Rightarrow> bytes set" where
  "committed_data m T = insert T (chunk_of T (unat (chunk_size m)) ` {0..<unat (chunk_count m)})"

lemma accepted_length: "accepted env m resume v0 c \<Longrightarrow> unat (file_size m) \<le> length v0 \<Longrightarrow> length c = length v0"
proof -
  assume a: "accepted env m resume v0 c" and v: "unat (file_size m) \<le> length v0"
  then obtain cks where "\<forall>ck\<in>set cks. unat (chunk_offset m ck) + length (data ck) \<le> unat (file_size m)"
    "c = foldl place v0 (map (\<lambda>ck. (chunk_offset m ck, data ck)) cks)" by (auto simp: accepted_def)
  then show ?thesis using v foldl_place_length [of "map (\<lambda>ck. (chunk_offset m ck, data ck)) cks" v0] by force
qed

lemma in_order_content:
  assumes d: "describes lib m T" and free: "second_preimage_free lib (committed_data m T)"
    and cks: "\<forall>ck\<in>set cks. index ck < chunk_count m \<and> blake3 lib (data ck) = chunk_hashes m ! unat (index ck)"
      "map (\<lambda>ck. unat (index ck)) cks = [0..<unat (chunk_count m)]"
    and v0: "length v0 = length T"
  shows "foldl place v0 (map (\<lambda>ck. (chunk_offset m ck, data ck)) cks) = T"
proof -
  have "data ck = chunk_of T (unat (chunk_size m)) (unat (index ck))" if "ck \<in> set cks" for ck
  proof -
    have i: "unat (index ck) < unat (chunk_count m)" using cks(1) that by (simp add: word_less_nat_alt)
    then have "blake3 lib (data ck) = blake3 lib (chunk_of T (unat (chunk_size m)) (unat (index ck)))"
      using cks(1) that d by (simp add: describes_def)
    then show ?thesis using free i by (auto simp: second_preimage_free_def committed_data_def)
  qed
  then have "map (\<lambda>ck. (chunk_offset m ck, data ck)) cks =
      map (\<lambda>ck. (chunk_offset m ck, data ck)) (map (chunk_msg lib m T) (map index cks))"
    by (simp add: chunk_offset_def)
  then have eq: "foldl place v0 (map (\<lambda>ck. (chunk_offset m ck, data ck)) cks) =
      foldl place v0 (map (\<lambda>ck. (chunk_offset m ck, data ck)) (map (chunk_msg lib m T) (map index cks)))"
    by (rule arg_cong)
  have "\<forall>i\<in>set (map index cks). i < chunk_count m" using cks(1) by auto
  moreover have "unat ` set (map index cks) = {0..<unat (chunk_count m)}"
    using arg_cong [OF cks(2), of set] by (simp add: image_image)
  moreover have "agrees_on m T {} v0" using v0 by (simp add: agrees_on_def)
  ultimately show ?thesis unfolding eq by (intro chunks_make_file [OF d]) simp_all
qed

lemma accepted_authentic:
  assumes a: "accepted env m resume v0 c" and str: "streaming (e_b3 env)" and d: "describes (e_b3 env) m T"
    and free: "second_preimage_free (e_b3 env) (committed_data m T)"
    and v0: "initial_view m dest w resume v0"
  shows "take (length T) c = T" "c = T \<or> (\<exists>v. files w (partial_path dest) = Some (Regular v) \<and> length T < length v)"
proof -
  have size: "unat (file_size m) = length T" by (rule describes_size [OF d])
  have v: "length v0 = length T \<or> resume \<and> files w (partial_path dest) = Some (Regular v0) \<and> length T \<le> length v0"
  proof -
    have "unat (word_of_nat (length v0) :: u64) \<le> length v0" by (simp add: unat_of_nat)
    then show ?thesis using v0 size by (auto simp: initial_view_def word_le_nat_alt)
  qed
  have len: "length c = length v0" using accepted_length [OF a] v size by auto
  obtain cks where cks: "\<forall>ck\<in>set cks. index ck < chunk_count m \<and>
           blake3 (e_b3 env) (data ck) = chunk_hashes m ! unat (index ck)"
      "c = foldl place v0 (map (\<lambda>ck. (chunk_offset m ck, data ck)) cks)"
      "(\<exists>n ds. concat ds = take n c \<and> digest (e_b3 env) ds = root_hash m) \<or>
         \<not> resume \<and> map (\<lambda>ck. unat (index ck)) cks = [0..<unat (chunk_count m)]"
    using a by (auto simp: accepted_def)
  show "take (length T) c = T"
    using cks(3)
  proof (elim disjE exE conjE)
    fix n ds assume ds: "concat ds = take n c" "digest (e_b3 env) ds = root_hash m"
    then have "blake3 (e_b3 env) (take n c) = blake3 (e_b3 env) T"
      using d digest_blake3 [OF str, of ds] by (simp add: describes_def)
    then have "take n c = T" using free by (simp add: second_preimage_free_def committed_data_def)
    then show ?thesis by (auto simp: min_def)
  next
    assume o: "\<not> resume" "map (\<lambda>ck. unat (index ck)) cks = [0..<unat (chunk_count m)]"
    then show ?thesis using in_order_content [OF d free cks(1) o(2)] cks(2) v by simp
  qed
  then show "c = T \<or> (\<exists>v. files w (partial_path dest) = Some (Regular v) \<and> length T < length v)"
    using v len by (cases "length T < length v0") auto
qed


subsection \<open>A concrete transfer\<close>

text \<open>A library whose digest is a length byte and the first bytes of the input.\<close>

definition tagged_lib :: "bytes blake3_lib" where
  "tagged_lib =
     \<lparr>b3_init = [], b3_update = (@),
      b3_finalize = (\<lambda>h n. take n (word_of_nat (min (length h) 255) # h))\<rparr>"

lemma streaming_tagged: "streaming tagged_lib"
  by (simp add: streaming_def tagged_lib_def)

lemma tagged_digest: "length x \<le> 31 \<Longrightarrow> blake3 tagged_lib x = word_of_nat (length x) # x @ replicate (31 - length x) 0"
  by (cases "x = []") (simp_all add: blake3_def tagged_lib_def kDigestSize_def fill_buffer_def Let_def)

lemma tagged_second_preimage_free: "\<forall>x\<in>X. length x \<le> 31 \<Longrightarrow> second_preimage_free tagged_lib X"
  unfolding second_preimage_free_def
proof (intro ballI allI impI)
  fix x y assume "\<forall>x\<in>X. length x \<le> 31" "x \<in> X" and e: "blake3 tagged_lib y = blake3 tagged_lib x"
  then have x: "length x \<le> 31" by blast
  have "hd (blake3 tagged_lib y) = word_of_nat (min (length y) 255)"
    by (cases "y = []") (simp_all add: blake3_def tagged_lib_def kDigestSize_def fill_buffer_def Let_def)
  then have "(word_of_nat (min (length y) 255) :: u8) = word_of_nat (length x)" using e tagged_digest [OF x] by simp
  then have "unat (word_of_nat (min (length y) 255) :: u8) = unat (word_of_nat (length x) :: u8)" by simp
  then have "length y = length x" using x by (simp add: unat_of_nat min_def split: if_splits)
  then show "y = x" using e tagged_digest [OF x] tagged_digest [of y] x by simp
qed

definition demo_env :: "(bytes \<times> bytes, bytes) session_env" where
  "demo_env =
     \<lparr>e_ops = pipe_ops, e_b3 = tagged_lib, e_ec_message = ''error'', e_root = ''/srv'', e_ssl_ctx = None\<rparr>"

definition demo_world :: world where
  "demo_world = \<lparr>files = [''/srv'' \<mapsto> Directory], faults = []\<rparr>"

definition demo_manifest :: ManifestMsg where
  "demo_manifest =
     \<lparr>file_size = 3, chunk_size = 2, chunk_count = 2, root_hash = blake3 tagged_lib [1, 2, 3],
      path = ''a/f'', chunk_hashes = [blake3 tagged_lib [1, 2], blake3 tagged_lib [3]]\<rparr>"

lemma demo_simps [simp]:
  "e_ops demo_env = pipe_ops" "e_b3 demo_env = tagged_lib" "e_root demo_env = ''/srv''" "e_ssl_ctx demo_env = None"
  "file_size demo_manifest = 3" "chunk_size demo_manifest = 2" "chunk_count demo_manifest = 2"
  "path demo_manifest = ''a/f''" "root_hash demo_manifest = blake3 tagged_lib [1, 2, 3]"
  "chunk_hashes demo_manifest = [blake3 tagged_lib [1, 2], blake3 tagged_lib [3]]"
  by (simp_all add: demo_env_def demo_manifest_def)

lemma demo_describes: "describes tagged_lib demo_manifest [1, 2, 3]"
  by (auto simp: describes_def chunk_of_def less_2_cases_iff)

lemma demo_valid:
  "valid_manifest demo_manifest" "length (encode_manifest demo_manifest) \<le> kDefaultMaxPayload"
  by (simp_all add: valid_manifest_def kHashSize_def codec_simps kDefaultMaxPayload_def)

lemma demo_dest: "resolve_dest ''/srv'' ''a/f'' = Some ''/srv/a/f''" "path_names ''/srv/a/f'' \<noteq> []"
  "ends_in_slash ''/srv/a/f'' = False" "dir_prefixes (path_parent ''/srv/a/f'') = [''/srv'', ''/srv/a'']"
  by code_simp+

lemma demo_placeable: "placeable demo_env demo_manifest ''/srv/a/f'' demo_world"
  using demo_valid demo_dest(2) by (auto simp: placeable_def demo_dest(1,3,4) dirs_of_def demo_world_def writable_def session_files_def
      with_partial_suffix_def state_path_def state_tmp_def)

lemma demo_free: "second_preimage_free tagged_lib (committed_data demo_manifest [1, 2, 3])"
  by (rule tagged_second_preimage_free) (auto simp: committed_data_def chunk_of_def)

definition demo_state :: ResumeState where
  "demo_state = new_ResumeState (manifest_id demo_env demo_manifest) 2"

lemma demo_missing: "missing demo_state = Some [0, 1]"
proof -
  have "wf_state demo_state" "received demo_state = {}"
    using new_ResumeState_wf new_ResumeState_received by (simp_all add: demo_state_def manifest_id_def)
  then show ?thesis
    using resume.absent [of demo_state] by (simp add: demo_state_def new_ResumeState_def upto_u32_def upt_2)
qed

lemma demo_start: "start_state demo_env demo_manifest ''/srv/a/f'' [0, 0, 0] demo_world False demo_state"
  by (simp add: start_state_def demo_state_def demo_world_def state_path_def) (simp add: numeral_eq_Suc)

lemma demo_agrees: "agrees_on demo_manifest [1, 2, 3] (received demo_state) [0, 0, 0]"
  using new_ResumeState_received by (simp add: agrees_on_def demo_state_def manifest_id_def)

lemma demo_transferable: "transferable demo_env demo_manifest ''/srv/a/f'' [1, 2, 3] demo_world False demo_state"
  using demo_start demo_agrees demo_describes demo_placeable by (auto simp: transferable_def kDefaultMaxPayload_def)

definition demo_stream :: "bytes \<times> bytes" where
  "demo_stream = (client_bytes tagged_lib demo_manifest [1, 2, 3] [0, 1], [])"

lemma demo_session:
  obtains s' w' where "handle_session demo_env demo_stream demo_world = Some (Returned True, s', w')"
    "files w' ''/srv/a/f'' = Some (Regular [1, 2, 3])"
  by (rule handle_session_honest [of demo_env fst snd demo_manifest "''/srv/a/f''" "[1, 2, 3]" demo_world False
        demo_state "[0, 1]" demo_stream demo_stream])
    (simp_all add: reliable_pipe streaming_tagged demo_transferable demo_missing session_stream_def demo_stream_def)

subsection \<open>Properties\<close>

text \<open>The concrete transfer in the form of the hypotheses of the properties.\<close>

lemma demo_rel: "reliable (e_ops demo_env) fst snd"
  by (simp add: reliable_pipe)

lemma demo_streaming: "streaming (e_b3 demo_env)"
  by (simp add: streaming_tagged)

lemma demo_opening:
  "session_stream demo_env demo_stream demo_stream"
  "fst demo_stream = hello_wire @ manifest_wire demo_manifest @
     concat (map (chunk_wire tagged_lib demo_manifest [1, 2, 3]) [0, 1]) @ complete_wire demo_manifest"
  by (simp_all add: session_stream_def demo_stream_def client_bytes_def)

lemma demo_resolve: "resolve_dest (e_root demo_env) (path demo_manifest) = Some ''/srv/a/f''"
  by (simp add: demo_dest)

lemma demo_desc: "describes (e_b3 demo_env) demo_manifest [1, 2, 3]"
  by (simp add: demo_describes)

lemma demo_sec: "second_preimage_free (e_b3 demo_env) (committed_data demo_manifest [1, 2, 3])"
  by (simp add: demo_free)

lemma receive_outcome:
  assumes rel: "reliable (e_ops env) inb outb" and s: "session_stream env socket s"
    and inb: "inb s = hello_wire @ manifest_wire m @ bs"
    and m: "valid_manifest m" "length (encode_manifest m) \<le> kDefaultMaxPayload"
    and dest: "resolve_dest (e_root env) (path m) = Some dest"
    and h: "handle_session env socket w = Some (Returned ok, s', w')"
  shows "received_into env m dest w ok w'"
proof -
  obtain st where st: "handle_session env socket w = map_option (end_session env) (session_receive env m dest st)"
    "ss_world st = w" by (rule handle_session_receive [OF rel s inb m dest])
  obtain r st' where r: "session_receive env m dest st = Some (r, st')" "end_session env (r, st') = (Returned ok, s', w')"
    using h st(1) by auto
  note res = session_receive_result [OF manifest_fits_small [OF m] r(1)]
  obtain k w2 where cl: "FileSink_close (ss_world st') (ss_sink st') = (k, w2)" by fastforce
  have "verdict_of r = Returned ok" "w' = w2" using r(2) cl by (simp_all add: end_session_def)
  moreover have "ok = (r = Inr ())"
    using \<open>verdict_of r = Returned ok\<close> by (cases r; cases "projl r") auto
  ultimately show ?thesis
    using received_into_cong [OF res(3) close_sink_on [OF res(2) cl]] st(2) by simp
qed



text \<open>
  C3. The destination is never corrupted: under the same conditions a session that ends in any way
  leaves the destination as it was, or removed, or (where nothing was) a directory, or it holds a
  file that starts with \<open>T\<close>.
\<close>

theorem destination_never_corrupted:
  assumes "reliable (e_ops env) inb outb" "streaming (e_b3 env)" "session_stream env socket s"
    and "inb s = hello_wire @ manifest_wire m @ bs" "valid_manifest m"
    and "length (encode_manifest m) \<le> kDefaultMaxPayload" "resolve_dest (e_root env) (path m) = Some dest"
    and "describes (e_b3 env) m T" "second_preimage_free (e_b3 env) (committed_data m T)"
    and "handle_session env socket w = Some (Returned ok, s', w')"
  shows "files w' dest = files w dest \<or> files w' dest = None \<or>
    files w dest = None \<and> files w' dest = Some Directory \<or>
    (\<exists>c. files w' dest = Some (Regular c) \<and> take (length T) c = T)"
proof -
  obtain resume v0 where v: "initial_view m dest w resume v0" and d: "dest_safe env m resume v0 dest w w'"
    using receive_outcome [OF assms(1,3-7,10)] by (auto simp: received_into_def)
  show ?thesis using d accepted_authentic(1) [OF _ assms(2,8,9) v] unfolding dest_safe_def by blast
qed

theorem destination_never_corrupted_witness:
  "\<exists>s' w'. handle_session demo_env demo_stream demo_world = Some (Returned True, s', w') \<and>
     (files w' ''/srv/a/f'' = None \<or> files w' ''/srv/a/f'' = Some Directory \<or>
      (\<exists>c. files w' ''/srv/a/f'' = Some (Regular c) \<and> take 3 c = [1, 2, 3]))"
proof -
  obtain s' w' where h: "handle_session demo_env demo_stream demo_world = Some (Returned True, s', w')"
    by (rule demo_session)
  from destination_never_corrupted [OF demo_rel demo_streaming demo_opening(1,2) demo_valid demo_resolve demo_desc demo_sec h]
  show ?thesis using h by (auto simp: demo_world_def numeral_3_eq_3)
qed

definition skew_chunks :: "ChunkMsg list" where
  "skew_chunks =
     [\<lparr>index = 0, hash = blake3 tagged_lib [1, 2, 3], data = [1, 2, 3]\<rparr>,
      \<lparr>index = 1, hash = blake3 tagged_lib [4], data = [4]\<rparr>]"

definition skew_manifest :: ManifestMsg where
  "skew_manifest =
     \<lparr>file_size = 4, chunk_size = 2, chunk_count = 2, root_hash = blake3 tagged_lib [1, 2, 3, 4],
      path = ''a/f'', chunk_hashes = [blake3 tagged_lib [1, 2, 3], blake3 tagged_lib [4]]\<rparr>"

definition skew_stream :: "bytes \<times> bytes" where
  "skew_stream =
     (hello_wire @ manifest_wire skew_manifest @ concat (map data_wire skew_chunks) @ complete_wire skew_manifest, [])"

lemma skew_placeable: "placeable demo_env skew_manifest ''/srv/a/f'' demo_world"
  using demo_dest(2) by (auto simp: placeable_def demo_dest(1,3,4) dirs_of_def demo_world_def writable_def session_files_def
      with_partial_suffix_def state_path_def state_tmp_def skew_manifest_def valid_manifest_def kHashSize_def
      codec_simps kDefaultMaxPayload_def)

lemma skew_run:
  assumes "received rs = {}"
  shows "good_run demo_env skew_manifest False rs [0, 0, 0, 0] skew_chunks [1, 2, 4, 0]"
proof -
  have "in_order skew_chunks" by (simp add: in_order_def skew_chunks_def upt_2)
  then show ?thesis using assms
    by (auto simp: good_run_def skew_chunks_def skew_manifest_def sendable_def vec_at_def chunk_offset_def
        kDefaultMaxPayload_def place_def overwrite_def)
qed



subsection \<open>Rejected peers\<close>

abbreviation error_wire :: "ErrorCode \<Rightarrow> string \<Rightarrow> bytes" where
  "error_wire ec msg \<equiv> wire (frame_of Error (encode_error \<lparr>code = ec, message = msg\<rparr>))"

lemma reject_reliable:
  assumes "reliable (e_ops env) inb outb" "length (encode_error \<lparr>code = ec, message = msg\<rparr>) \<le> kDefaultMaxPayload"
  obtains st' where "reject env st ec msg = (Inl ReturnFalse, st')" "ss_world st' = ss_world st" "ss_sink st' = ss_sink st"
    "outb (cn_stream (ss_conn st')) = outb (cn_stream (ss_conn st)) @ error_wire ec msg"
proof -
  obtain c where "send_frame (e_ops env) (ss_conn st) Error (encode_error \<lparr>code = ec, message = msg\<rparr>) = (True, c)"
    "outb (cn_stream c) = outb (cn_stream (ss_conn st)) @ error_wire ec msg"
    by (rule send_frame_reliable [OF assms])
  then show thesis by (intro that [of "st\<lparr>ss_conn := c\<rparr>"]) (simp_all add: reject_def send_error_def)
qed

lemma rejected_session:
  assumes rel: "reliable (e_ops env) inb outb"
    and h: "handle_session env socket w = map_option (end_session env) (Some (Inl ReturnFalse, st))"
    and st: "ss_world st = w" "ss_sink st = new_FileSink ''''"
  shows "\<exists>s'. handle_session env socket w = Some (Returned False, s', w) \<and> outb s' = outb (cn_stream (ss_conn st))"
proof -
  have "FileSink_close w (new_FileSink '''') = (new_FileSink '''', w)"
    by (simp add: FileSink_close_def new_FileSink_def closed_ofstream_def)
  then show ?thesis using h st close_reliable [OF rel] by (simp add: end_session_def)
qed

text \<open>
  C35. A peer with another protocol version is told so: the server sends one ERROR frame with the code
  for an unsupported version, returns false and leaves the world alone.
\<close>

theorem wrong_version_rejected:
  assumes "reliable (e_ops env) inb outb" "session_stream env socket s"
    and "inb s = wire (frame_of Hello (encode_hello h)) @ bs" "protocol_version h \<noteq> kProtocolVersion"
  shows "\<exists>s'. handle_session env socket w = Some (Returned False, s', w) \<and>
    outb s' = outb s @ error_wire UnsupportedVersion (''server requires protocol version '' @ dec_string (unat kProtocolVersion))"
proof -
  let ?msg = "''server requires protocol version '' @ dec_string (unat kProtocolVersion)"
  obtain c where c: "cn_stream c = s" "handle_session env socket w =
      map_option (end_session env) (session_body env \<lparr>ss_conn = c, ss_world = w, ss_sink = new_FileSink ''''\<rparr>)"
    by (rule handle_session_start [OF assms(2)])
  let ?st = "\<lparr>ss_conn = c, ss_world = w, ss_sink = new_FileSink ''''\<rparr>"
  have i: "inb (cn_stream (ss_conn ?st)) = wire (frame_of Hello (encode_hello h)) @ bs" using assms(3) c(1) by simp
  have "length (encode_hello h) \<le> kDefaultMaxPayload" by (simp add: kDefaultMaxPayload_def)
  then obtain st1 where 1: "session_recv env ?st = (Some (frame_of Hello (encode_hello h)), st1)"
    "outb (cn_stream (ss_conn st1)) = outb s" "ss_world st1 = w" "ss_sink st1 = new_FileSink ''''"
    using session_recv_reliable [OF assms(1) i] c(1) by auto
  have "dec_string (unat kProtocolVersion) = ''1''" by (simp add: kProtocolVersion_def dec_string.simps) code_simp
  then have "length (encode_error \<lparr>code = UnsupportedVersion, message = ?msg\<rparr>) \<le> kDefaultMaxPayload"
    by (simp add: codec_simps kDefaultMaxPayload_def)
  then obtain st2 where 2: "reject env st1 UnsupportedVersion ?msg = ((Inl ReturnFalse, st2) :: (unit, _) phase)"
    "ss_world st2 = ss_world st1" "ss_sink st2 = ss_sink st1"
    "outb (cn_stream (ss_conn st2)) = outb (cn_stream (ss_conn st1)) @ error_wire UnsupportedVersion ?msg"
    by (rule reject_reliable [OF assms(1)])
  have "session_hello env ?st = (Inl ReturnFalse, st2)"
    using 1(1) 2(1) assms(4) hello.dec_enc [OF TrueI, of h] by (simp add: session_hello_def)
  then have "session_body env ?st = Some (Inl ReturnFalse, st2)" by (simp add: session_body_def and_then_def)
  then show ?thesis using rejected_session [OF assms(1), of socket w st2] c(2) 1 2 by simp
qed

theorem wrong_version_rejected_witness:
  "\<exists>s'. handle_session demo_env (wire (frame_of Hello (encode_hello (default_hello\<lparr>protocol_version := 2\<rparr>))), []) demo_world =
      Some (Returned False, s', demo_world) \<and>
     snd s' = error_wire UnsupportedVersion (''server requires protocol version '' @ dec_string (unat kProtocolVersion))"
proof -
  let ?h = "default_hello\<lparr>protocol_version := 2\<rparr>" and ?s = "(wire (frame_of Hello (encode_hello (default_hello\<lparr>protocol_version := 2\<rparr>))), [])"
  have "session_stream demo_env ?s ?s" "fst ?s = wire (frame_of Hello (encode_hello ?h)) @ []"
    "protocol_version ?h \<noteq> kProtocolVersion" by (simp_all add: session_stream_def kProtocolVersion_def)
  from wrong_version_rejected [OF demo_rel this] show ?thesis by simp
qed

text \<open>
  C36. A manifest with a path the server does not resolve is answered with one ERROR frame with the
  code for an invalid path; the session returns false and leaves the world alone.
\<close>

theorem bad_path_rejected:
  assumes "reliable (e_ops env) inb outb" "session_stream env socket s"
    and "inb s = hello_wire @ manifest_wire m @ bs" "valid_manifest m"
    and "length (encode_manifest m) \<le> kDefaultMaxPayload" "resolve_dest (e_root env) (path m) = None"
  shows "\<exists>s'. handle_session env socket w = Some (Returned False, s', w) \<and>
    outb s' = outb s @ hello_wire @ error_wire InvalidPath (''rejected path: '' @ path m)"
proof -
  let ?msg = "''rejected path: '' @ path m"
  obtain c where c: "cn_stream c = s" "handle_session env socket w =
      map_option (end_session env) (session_body env \<lparr>ss_conn = c, ss_world = w, ss_sink = new_FileSink ''''\<rparr>)"
    by (rule handle_session_start [OF assms(2)])
  let ?st = "\<lparr>ss_conn = c, ss_world = w, ss_sink = new_FileSink ''''\<rparr>"
  have i: "inb (cn_stream (ss_conn ?st)) = hello_wire @ manifest_wire m @ bs" using assms(3) c(1) by simp
  obtain st1 where 1: "session_hello env ?st = (Inr (), st1)" "inb (cn_stream (ss_conn st1)) = manifest_wire m @ bs"
    "outb (cn_stream (ss_conn st1)) = outb s @ hello_wire" "ss_world st1 = w" "ss_sink st1 = new_FileSink ''''"
    using session_hello_honest [OF assms(1) i] c(1) by auto
  obtain st2 where 2: "session_recv env st1 = (Some (frame_of Manifest (encode_manifest m)), st2)"
    "outb (cn_stream (ss_conn st2)) = outb (cn_stream (ss_conn st1))" "ss_world st2 = ss_world st1" "ss_sink st2 = ss_sink st1"
    by (rule session_recv_reliable [OF assms(1) 1(2) assms(5)])
  have "length (encode_error \<lparr>code = InvalidPath, message = ?msg\<rparr>) \<le> kDefaultMaxPayload"
    using assms(4) by (simp add: codec_simps kDefaultMaxPayload_def valid_manifest_def)
  then obtain st3 where 3: "reject env st2 InvalidPath ?msg = ((Inl ReturnFalse, st3) :: (ManifestMsg \<times> string, _) phase)"
    "ss_world st3 = ss_world st2" "ss_sink st3 = ss_sink st2"
    "outb (cn_stream (ss_conn st3)) = outb (cn_stream (ss_conn st2)) @ error_wire InvalidPath ?msg"
    by (rule reject_reliable [OF assms(1)])
  have "session_manifest env st1 = (Inl ReturnFalse, st3)"
    using 2(1) 3(1) assms(6) manifest.dec_enc [OF assms(4)] by (simp add: session_manifest_def)
  then have "session_body env ?st = Some (Inl ReturnFalse, st3)" using 1(1) by (simp add: session_body_def and_then_def)
  then show ?thesis using rejected_session [OF assms(1), of socket w st3] c(2) 1 2 3 by simp
qed

theorem bad_path_rejected_witness:
  "\<exists>s'. handle_session demo_env (hello_wire @ manifest_wire (demo_manifest\<lparr>path := ''../x''\<rparr>), []) demo_world =
      Some (Returned False, s', demo_world) \<and>
     snd s' = hello_wire @ error_wire InvalidPath (''rejected path: '' @ ''../x'')"
proof -
  have "resolve_dest ''/srv'' ''../x'' = None" by code_simp
  moreover have "valid_manifest (demo_manifest\<lparr>path := ''../x''\<rparr>)"
    "length (encode_manifest (demo_manifest\<lparr>path := ''../x''\<rparr>)) \<le> kDefaultMaxPayload"
    by (simp_all add: valid_manifest_def kHashSize_def codec_simps kDefaultMaxPayload_def)
  moreover let ?s = "(hello_wire @ manifest_wire (demo_manifest\<lparr>path := ''../x''\<rparr>), [])"
  have "session_stream demo_env ?s ?s" "fst ?s = hello_wire @ manifest_wire (demo_manifest\<lparr>path := ''../x''\<rparr>) @ []"
    by (simp_all add: session_stream_def)
  ultimately show ?thesis
    using bad_path_rejected [OF demo_rel, of ?s ?s "demo_manifest\<lparr>path := ''../x''\<rparr>" "[]" demo_world] by simp
qed

subsection \<open>Witnesses of session properties\<close>

theorem session_confined_witness:
  "\<exists>s' w'. handle_session demo_env demo_stream demo_world = Some (Returned True, s', w') \<and>
     (\<exists>(m :: ManifestMsg) dest. resolve_dest ''/srv'' (path m) = Some dest \<and>
       (\<forall>p. files w' p \<noteq> files demo_world p \<longrightarrow>
         p \<in> {dest, dest @ ''.partial'', dest @ ''.ftxstate'', dest @ ''.ftxstate.tmp''} \<or>
         p \<in> set (dir_prefixes (path_parent dest)) \<and> files demo_world p = None \<and> files w' p = Some Directory))"
proof -
  obtain s' w' where h: "handle_session demo_env demo_stream demo_world = Some (Returned True, s', w')"
    by (rule demo_session)
  from session_confined [OF h] h show ?thesis by (simp only: demo_simps) blast
qed

theorem only_verified_chunks_stored_witness:
  "\<exists>stt' tr' st'. chunk_step demo_env demo_manifest ''/srv/a/f''
      (Running, new_transfer tagged_lib demo_state False,
       \<lparr>ss_conn = Connection_plain ([], []), ss_world = demo_world, ss_sink = new_FileSink ''/srv/a/f''\<rparr>) = (stt', tr', st') \<and>
     ss_world st' = demo_world \<and> stt' \<noteq> Running"
proof -
  let ?st = "\<lparr>ss_conn = Connection_plain ([], []), ss_world = demo_world, ss_sink = new_FileSink ''/srv/a/f''\<rparr>"
  obtain stt' tr' st' where r: "chunk_step demo_env demo_manifest ''/srv/a/f'' (Running, new_transfer tagged_lib demo_state False, ?st) = (stt', tr', st')"
    by (metis surj_pair)
  have "fst (session_recv demo_env ?st) = None"
    by (simp add: session_recv_def recv_frame_def Connection_plain_def pipe_ops_def kHeaderSize_def)
  with only_verified_chunks_stored [OF r] r show ?thesis by auto
qed

end
