(* ===== verification/Ftx_Send.thy ===== *)
theory Ftx_Send
  imports Ftx_Client Ftx_Authentic "HOL-Library.Sublist"
begin

text \<open>
  Theorems about a sending session: what the client puts on the wire, whatever the server answers
  and whatever reads of the source fail, and that a transfer succeeds when the server answers as
  ours does.
\<close>

subsection \<open>The manifest of a file\<close>

definition manifest_of :: "'h blake3_lib \<Rightarrow> bytes \<Rightarrow> u32 \<Rightarrow> u32 \<Rightarrow> string \<Rightarrow> ManifestMsg" where
  "manifest_of lib T csize count dest =
     \<lparr>file_size = word_of_nat (length T), chunk_size = csize, chunk_count = count,
      root_hash = blake3 lib (take (unat count * unat csize) T), path = dest,
      chunk_hashes = map (\<lambda>i. blake3 lib (chunk_of T (unat csize) i)) [0..<unat count]\<rparr>"

lemma manifest_of_simps [simp]:
  "file_size (manifest_of lib T csize count dest) = word_of_nat (length T)"
  "chunk_size (manifest_of lib T csize count dest) = csize"
  "chunk_count (manifest_of lib T csize count dest) = count" "path (manifest_of lib T csize count dest) = dest"
  "chunk_hashes (manifest_of lib T csize count dest) = map (\<lambda>i. blake3 lib (chunk_of T (unat csize) i)) [0..<unat count]"
  "root_hash (manifest_of lib T csize count dest) = blake3 lib (take (unat count * unat csize) T)"
  by (simp_all add: manifest_of_def)

lemma chunk_count_of_nat:
  assumes "length T < 2 ^ 63" "0 < csize \<or> T = []"
  shows "chunk_count_of (word_of_nat (length T)) csize =
    Some (word_of_nat ((length T + unat csize - 1) div unat csize))"
proof (cases "T = []")
  case True
  then show ?thesis using unat_less_u32 [of csize] by (cases "unat csize") (simp_all add: chunk_count_of_def)
next
  case False
  let ?n = "word_of_nat (length T) :: u64" and ?c = "ucast csize :: u64"
  have c: "0 < unat csize" "unat csize < 2 ^ 32" using assms(2) False unat_less_u32 [of csize]
    by (simp_all add: word_less_nat_alt)
  have n: "unat ?n = length T" "0 < length T" using assms(1) False by simp_all
  have u: "unat ?c = unat csize" by simp
  have "?n \<noteq> 0" using n by (metis less_numeral_extra(3) unat_0)
  moreover have "csize \<noteq> 0" using c by auto
  moreover have "unat (?n + ?c - 1) = length T + unat csize - 1"
  proof -
    have "unat (?n + ?c) = length T + unat csize"
      using n u c assms(1) by (simp add: unat_word_ariths)
    moreover from this have "1 \<le> ?n + ?c" using c(1) by (simp add: word_le_nat_alt)
    ultimately show ?thesis by (simp add: unat_sub word_le_nat_alt)
  qed
  then have "unat ((?n + ?c - 1) div ?c) = (length T + unat csize - 1) div unat csize"
    using u by (simp add: unat_div)
  then have "(ucast ((?n + ?c - 1) div ?c) :: u32) = word_of_nat ((length T + unat csize - 1) div unat csize)"
    by (metis of_nat_unat)
  ultimately show ?thesis by (simp add: chunk_count_of_def)
qed

lemma ceil_div_bounds:
  assumes "0 < (c :: nat)"
  shows "n \<le> (n + c - 1) div c * c" "i < (n + c - 1) div c \<Longrightarrow> i * c < n"
proof -
  have m: "(n + c - 1) div c * c + (n + c - 1) mod c = n + c - 1" by simp
  then show "n \<le> (n + c - 1) div c * c" using mod_less_divisor [OF assms, of "n + c - 1"] by linarith
  show "i * c < n" if "i < (n + c - 1) div c"
  proof -
    have "(i + 1) * c \<le> (n + c - 1) div c * c" using that by (intro mult_le_mono1) simp
    also have "(n + c - 1) div c * c \<le> n + c - 1" using m by linarith
    finally show ?thesis using assms by simp
  qed
qed

text \<open>Without truncation to 32 bits the manifest describes the file.\<close>

lemma manifest_describes:
  assumes "length T < 2 ^ 63" "0 < csize" "(length T + unat csize - 1) div unat csize < 2 ^ 32"
    and "chunk_count_of (word_of_nat (length T)) csize = Some count"
  shows "describes lib (manifest_of lib T csize count dest) T"
    "unat count = (length T + unat csize - 1) div unat csize"
proof -
  have c: "0 < unat csize" using assms(2) by (simp add: word_less_nat_alt)
  have "count = word_of_nat ((length T + unat csize - 1) div unat csize)"
    using chunk_count_of_nat [of T csize] assms by simp
  then show n: "unat count = (length T + unat csize - 1) div unat csize" using assms(3) by simp
  have b: "length T \<le> unat count * unat csize" "i < unat count \<Longrightarrow> i * unat csize \<le> length T" for i
    using ceil_div_bounds [OF c, where n = "length T"] n by (auto simp: less_imp_le)
  show "describes lib (manifest_of lib T csize count dest) T"
    using b assms(1) by (auto simp: describes_def)
qed


subsection \<open>What a phase puts on the wire\<close>

text \<open>
  A phase emits \<open>b\<close>: it appends a prefix of \<open>b\<close> to the bytes sent, and all of \<open>b\<close> when it succeeds.
\<close>

definition emits :: "('s \<Rightarrow> bytes) \<Rightarrow> 's client \<Rightarrow> ('a, 's) client_phase \<Rightarrow> bytes \<Rightarrow> bool" where
  "emits outb st r b \<longleftrightarrow>
     (\<exists>x. outb (cn_stream (cs_conn (snd r))) = outb (cn_stream (cs_conn st)) @ x \<and> prefix x b \<and>
        (\<forall>a. fst r = Inr a \<longrightarrow> x = b))"

lemma emits_nothing: "outb (cn_stream (cs_conn (snd r))) = outb (cn_stream (cs_conn st)) \<Longrightarrow> emits outb st r []"
  by (simp add: emits_def)

lemma emits_failure: "emits outb st r b \<Longrightarrow> fst r = Inl e \<Longrightarrow> emits outb st r (b @ b')"
  by (auto simp: emits_def)

lemma emits_then:
  assumes "emits outb st r b" "\<And>a st'. r = (Inr a, st') \<Longrightarrow> emits outb st' (f a st') b'"
  shows "emits outb st (client_then r f) (b @ b')"
proof (cases r)
  case (Pair v st')
  show ?thesis
  proof (cases v)
    case (Inl e)
    then have "client_then r f = (Inl e, st')" by (simp add: client_then_def Pair)
    then show ?thesis using emits_failure [OF assms(1), of e b'] Pair Inl
      by (auto simp: emits_def)
  next
    case (Inr a)
    have "client_then r f = f a st'" by (simp add: client_then_def Pair Inr)
    then show ?thesis using assms(1) assms(2) [of a st'] Pair Inr by (auto simp: emits_def)
  qed
qed

lemma emits_then_quiet:
  assumes "emits outb st r []" "\<And>a st'. r = (Inr a, st') \<Longrightarrow> emits outb st' (f a st') b"
  shows "emits outb st (client_then r f) b"
  using emits_then [OF assms] by simp

lemma client_send_emits:
  assumes "reliable (c_ops env) inb outb"
  shows "emits outb st (client_send_frame env what t p st) (wire (frame_of t p))"
proof (cases "length p \<le> kDefaultMaxPayload")
  case True
  then obtain c where c: "send_frame (c_ops env) (cs_conn st) t p = (True, c)"
    "outb (cn_stream c) = outb (cn_stream (cs_conn st)) @ wire (frame_of t p)"
    by (rule send_frame_reliable [OF assms])
  then show ?thesis by (simp add: client_send_frame_def emits_def)
next
  case False
  then show ?thesis by (simp add: client_send_frame_def send_frame_def emits_def)
qed


lemma client_recv_emits:
  assumes "reliable (c_ops env) inb outb"
  shows "emits outb st (client_recv_frame env what t st) []"
proof -
  obtain f c where c: "recv_frame (c_ops env) (cs_conn st) kDefaultMaxPayload = (f, c)" by fastforce
  have "outb (cn_stream c) = outb (cn_stream (cs_conn st))"
    using recv_frame_outb [OF assms, of "cs_conn st" kDefaultMaxPayload] c by simp
  then show ?thesis by (intro emits_nothing) (simp add: client_recv_frame_def c Let_def split: option.splits)
qed

subsection \<open>Reading the source\<close>

text \<open>The client has the file \<open>T\<close> at \<open>p\<close> open.\<close>

definition sending :: "string \<Rightarrow> bytes \<Rightarrow> 's client \<Rightarrow> bool" where
  "sending p T st \<longleftrightarrow>
     source_ready (cs_source st) \<and> sr_path (cs_source st) = p \<and>
     sr_size (cs_source st) = word_of_nat (length T) \<and> files (cs_world st) p = Some (Regular T)"

lemma sending_conn [simp]: "sending p T (st\<lparr>cs_conn := c\<rparr>) = sending p T st"
  by (simp add: sending_def)

lemma is_read_files: "is_read w fb n = (got, fb', w') \<Longrightarrow> files w' = files w"
  by (auto simp: is_read_def Let_def split: if_splits prod.splits fault.splits dest: next_fault_files)

lemma read_at_files: "FileSource_read_at w s off n = (r, s', w') \<Longrightarrow> files w' = files w"
  by (auto simp: FileSource_read_at_def Let_def split: if_splits prod.splits dest: is_read_files)

lemma client_read_result:
  assumes st: "sending p T st" "length T < 2 ^ 63" and r: "client_read env what i st = (r, st')"
  shows "cs_conn st' = cs_conn st" "files (cs_world st') = files (cs_world st)" "r \<noteq> Inl ClientUndefined"
    "r = Inr d \<Longrightarrow> d = chunk_of T (unat (opt_chunk_size (c_opts env))) (unat i) \<and> sending p T st'"
    "faults (cs_world st) = [] \<Longrightarrow> unat i * unat (opt_chunk_size (c_opts env)) \<le> length T \<Longrightarrow>
       (\<exists>d. r = Inr d) \<and> faults (cs_world st') = []"
proof -
  let ?n = "unat (opt_chunk_size (c_opts env))"
  let ?off = "(ucast i :: u64) * ucast (opt_chunk_size (c_opts env))"
  have off: "unat ?off = unat i * ?n"
    using unat_chunk_offset [of "\<lparr>file_size = 0, chunk_size = opt_chunk_size (c_opts env), chunk_count = 0,
        root_hash = [], path = [], chunk_hashes = []\<rparr>" "\<lparr>index = i, hash = [], data = []\<rparr>"]
    by (simp add: chunk_offset_def)
  obtain v src w where v: "FileSource_read_at (cs_world st) (cs_source st) ?off ?n = (v, src, w)" by (metis surj_pair)
  have st': "st' = st\<lparr>cs_source := src, cs_world := w\<rparr>" "v = Some d \<longleftrightarrow> r = Inr d" "v = None \<Longrightarrow> r \<noteq> Inl ClientUndefined" for d
    using r v by (auto simp: client_read_def Let_def split: option.splits)
  show "cs_conn st' = cs_conn st" "files (cs_world st') = files (cs_world st)"
    using st' read_at_files [OF v] by simp_all
  show "r \<noteq> Inl ClientUndefined" using st'(2,3) by (cases v) auto
  have src: "source_ready (cs_source st)" "unat (sr_size (cs_source st)) = length T"
    "content (cs_world st) (sr_path (cs_source st)) = T"
    using st by (auto simp: sending_def content_def)
  show "d = chunk_of T ?n (unat i) \<and> sending p T st'" if "r = Inr d"
  proof -
    have "v = Some d" using st'(2) that by simp
    note x = read_at_Some [OF src(1) v [unfolded this]]
    show ?thesis using x src off st st'(1) by (simp add: chunk_of_def min_remaining sending_def)
  qed
  show "(\<exists>d. r = Inr d) \<and> faults (cs_world st') = []"
    if q: "faults (cs_world st) = []" "unat i * ?n \<le> length T"
  proof -
    obtain d s' where d: "FileSource_read_at (cs_world st) (cs_source st) ?off ?n = (Some d, s', cs_world st)"
      using read_at_quiet [OF src(1) q(1), of ?off ?n] off q(2) src(2) st(2) by auto
    then show ?thesis using v st' q(1) by auto
  qed
qed

text \<open>The hash pass reads the chunks in order and leaves the hashes of the manifest.\<close>

lemma client_hash_pass_result:
  assumes "sending p T st" "length T < 2 ^ 63" "client_hash_pass env is h hs st = (r, st')"
  shows "cs_conn st' = cs_conn st \<and> files (cs_world st') = files (cs_world st) \<and> r \<noteq> Inl ClientUndefined \<and>
    (\<forall>h' hs'. r = Inr (h', hs') \<longrightarrow> sending p T st' \<and>
       h' = foldl (Blake3Hasher_update (c_b3 env)) h
              (map (\<lambda>i. chunk_of T (unat (opt_chunk_size (c_opts env))) (unat i)) is) \<and>
       hs' = foldl (\<lambda>hs i. hs[unat i := blake3 (c_b3 env) (chunk_of T (unat (opt_chunk_size (c_opts env))) (unat i))]) hs is) \<and>
    (faults (cs_world st) = [] \<and> (\<forall>i\<in>set is. unat i * unat (opt_chunk_size (c_opts env)) \<le> length T) \<longrightarrow>
       (\<exists>v. r = Inr v) \<and> faults (cs_world st') = [])"
  using assms(1,3)
proof (induction "is" arbitrary: h hs st)
  case (Cons i "is")
  obtain v st1 where v: "client_read env ''hash pass: '' i st = (v, st1)" by fastforce
  note x = client_read_result [OF Cons.prems(1) assms(2) v]
  show ?case
  proof (cases v)
    case (Inl e)
    then have "r = Inl e" "st' = st1" using Cons.prems(2) v by (simp_all add: client_then_def)
    then show ?thesis using x Inl by auto
  next
    case (Inr d)
    note y = x(4) [OF Inr]
    have "client_hash_pass env is (Blake3Hasher_update (c_b3 env) h d) (hs[unat i := blake3 (c_b3 env) d]) st1 = (r, st')"
      using Cons.prems(2) v Inr by (simp add: client_then_def)
    from Cons.IH [OF conjunct2 [OF y] this] show ?thesis using x(1,2,5) y by simp
  qed
qed auto


lemma foldl_updates:
  "k \<le> length hs \<Longrightarrow> foldl (\<lambda>hs i. hs[i := f i]) hs [0..<k] = map f [0..<k] @ drop k hs"
proof (induction k)
  case (Suc k)
  then have "drop k hs = hs ! k # drop (Suc k) hs" by (simp add: Cons_nth_drop_Suc)
  then show ?case using Suc by (simp add: list_update_append)
qed simp

lemma hash_inventory:
  "foldl (\<lambda>hs i. hs[unat i := f (unat i)]) (replicate (unat count) z) (upto_u32 count) = map f [0..<unat count]"
proof -
  have "foldl (\<lambda>hs i. hs[unat i := f (unat i)]) (replicate (unat count) z) (upto_u32 count) =
      foldl (\<lambda>hs i. hs[i := f i]) (replicate (unat count) z) (map unat (upto_u32 count))"
    by (simp add: foldl_map)
  then show ?thesis using foldl_updates [of "unat count" "replicate (unat count) z" f] by (simp add: unat_upto_u32)
qed

subsection \<open>The phases\<close>

text \<open>A phase of a run on the file \<open>T\<close>: files stay as they are, nothing is undefined.\<close>

definition client_safe :: "string \<Rightarrow> bytes \<Rightarrow> 's client \<Rightarrow> ('a, 's) client_phase \<Rightarrow> bool" where
  "client_safe p T st r \<longleftrightarrow>
     files (cs_world (snd r)) = files (cs_world st) \<and> fst r \<noteq> Inl ClientUndefined \<and>
     (\<forall>a. fst r = Inr a \<longrightarrow> sending p T (snd r))"

lemma client_safe_then:
  assumes "client_safe p T st r" "\<And>a st'. r = (Inr a, st') \<Longrightarrow> sending p T st' \<Longrightarrow> client_safe p T st' (f a st')"
  shows "client_safe p T st (client_then r f)"
  using assms by (cases r; cases "fst r") (auto simp: client_safe_def client_then_def)

lemma client_frame_safe:
  assumes "sending p T st"
  shows "client_safe p T st (client_send_frame env what t q st)" "client_safe p T st (client_recv_frame env what t st)"
    "client_safe p T st (client_ack env st)"
  using assms by (auto simp: client_safe_def client_send_frame_def client_recv_frame_def client_ack_def Let_def
      split: prod.splits option.splits)

lemma client_hello_safe: "sending p T st \<Longrightarrow> client_safe p T st (client_hello env st)"
  unfolding client_hello_def
  by (intro client_safe_then client_frame_safe) (auto simp: client_safe_def split: option.splits)

lemma client_hello_emits:
  assumes "reliable (c_ops env) inb outb"
  shows "emits outb st (client_hello env st) hello_wire"
proof -
  have "emits outb st (client_hello env st) (hello_wire @ [])"
    unfolding client_hello_def
    by (intro emits_then [OF client_send_emits [OF assms]] emits_then_quiet [OF client_recv_emits [OF assms]] emits_nothing)
      (simp split: option.splits)
  then show ?thesis by simp
qed

lemma upto_u32_all: "(\<forall>i\<in>set (upto_u32 count). P (unat i)) \<longleftrightarrow> (\<forall>i<unat count. P i)"
proof -
  have "unat ` set (upto_u32 count) = {0..<unat count}"
    using arg_cong [OF unat_upto_u32 [of count], of set] by simp
  moreover have "(\<forall>i\<in>set (upto_u32 count). P (unat i)) \<longleftrightarrow> (\<forall>i\<in>unat ` set (upto_u32 count). P i)" by simp
  ultimately show ?thesis by auto
qed

lemma chunks_digest:
  assumes "streaming lib"
  shows "Blake3Hasher_finalize lib
      (foldl (Blake3Hasher_update lib) (Blake3Hasher_new lib) (map (\<lambda>i. chunk_of T n (unat i)) (upto_u32 count))) =
    blake3 lib (take (unat count * n) T)"
proof -
  have "map (\<lambda>i. chunk_of T n (unat i)) (upto_u32 count) = map (chunk_of T n) [0..<unat count]"
    by (simp add: unat_upto_u32 [symmetric])
  then show ?thesis
    using digest_blake3 [OF assms, of "map (chunk_of T n) [0..<unat count]"] concat_chunks [of T n "unat count"]
    by (simp add: digest_def)
qed

lemma client_manifest_eq:
  assumes str: "streaming (c_b3 env)" and st: "sending p T st" "length T < 2 ^ 63"
    and m: "m = manifest_of (c_b3 env) T (opt_chunk_size (c_opts env)) count dest"
  obtains (failed) e st1 where "client_manifest env count dest st = (Inl e, st1)" "cs_conn st1 = cs_conn st"
      "files (cs_world st1) = files (cs_world st)" "e \<noteq> ClientUndefined"
      "faults (cs_world st) = [] \<Longrightarrow> \<exists>i<unat count. length T < i * unat (opt_chunk_size (c_opts env))"
  | (hashed) st1 where "client_manifest env count dest st =
        client_then (client_send_frame env ''send MANIFEST: '' Manifest (encode_manifest m) st1) (\<lambda>_ st. (Inr m, st))"
      "cs_conn st1 = cs_conn st" "files (cs_world st1) = files (cs_world st)" "sending p T st1"
      "faults (cs_world st) = [] \<Longrightarrow> \<forall>i<unat count. i * unat (opt_chunk_size (c_opts env)) \<le> length T \<Longrightarrow>
         faults (cs_world st1) = []"
proof -
  let ?n = "unat (opt_chunk_size (c_opts env))"
  obtain r st1 where hp: "client_hash_pass env (upto_u32 count) (Blake3Hasher_new (c_b3 env))
      (replicate (unat count) kZeroHash) st = (r, st1)" by fastforce
  note x = client_hash_pass_result [OF st hp]
  note all = upto_u32_all [of count "\<lambda>i. i * ?n \<le> length T"]
  show thesis
  proof (cases r)
    case (Inl e)
    then have "client_manifest env count dest st = (Inl e, st1)"
      using hp by (simp add: client_manifest_def client_then_def)
    moreover have "\<not> (faults (cs_world st) = [] \<and> (\<forall>i<unat count. i * ?n \<le> length T))"
      using x Inl unfolding all by (metis Inl_Inr_False)
    ultimately show thesis using x Inl by (intro failed [of e st1]) (simp_all add: not_le)
  next
    case (Inr v)
    obtain h hs where v: "v = (h, hs)" by fastforce
    have y: "sending p T st1" "h = foldl (Blake3Hasher_update (c_b3 env)) (Blake3Hasher_new (c_b3 env))
        (map (\<lambda>i. chunk_of T ?n (unat i)) (upto_u32 count))"
      "hs = map (\<lambda>i. blake3 (c_b3 env) (chunk_of T ?n i)) [0..<unat count]"
      using x Inr v hash_inventory [of "\<lambda>i. blake3 (c_b3 env) (chunk_of T ?n i)" count] by auto
    have "Blake3Hasher_finalize (c_b3 env) h = blake3 (c_b3 env) (take (unat count * ?n) T)"
      unfolding y(2) by (rule chunks_digest [OF str])
    then have me: "\<lparr>file_size = sr_size (cs_source st1), chunk_size = opt_chunk_size (c_opts env), chunk_count = count,
        root_hash = Blake3Hasher_finalize (c_b3 env) h, path = dest, chunk_hashes = hs\<rparr> = m"
      using y by (simp add: m manifest_of_def sending_def)
    have "client_manifest env count dest st =
        client_then (client_send_frame env ''send MANIFEST: '' Manifest (encode_manifest m) st1) (\<lambda>_ st. (Inr m, st))"
      unfolding client_manifest_def hp Inr v by (subst client_then_def) (simp only: prod.case sum.case Let_def me)
    then show thesis
    proof (rule hashed)
      show "faults (cs_world st1) = []" if "faults (cs_world st) = []" "\<forall>i<unat count. i * ?n \<le> length T"
        using x that unfolding all by blast
    qed (use x y(1) in auto)
  qed
qed

lemma client_manifest_result:
  assumes rel: "reliable (c_ops env) inb outb" and str: "streaming (c_b3 env)"
    and st: "sending p T st" "length T < 2 ^ 63"
    and m: "m = manifest_of (c_b3 env) T (opt_chunk_size (c_opts env)) count dest"
  shows "emits outb st (client_manifest env count dest st) (manifest_wire m)"
    "client_safe p T st (client_manifest env count dest st)"
    "fst (client_manifest env count dest st) = Inr m' \<Longrightarrow> m' = m"
proof -
  have "emits outb st (client_manifest env count dest st) (manifest_wire m) \<and>
      client_safe p T st (client_manifest env count dest st) \<and>
      (fst (client_manifest env count dest st) = Inr m' \<longrightarrow> m' = m)"
  proof (cases rule: client_manifest_eq [OF str st m])
    case (1 e st1)
    then show ?thesis by (simp add: emits_def client_safe_def)
  next
    case (2 st1)
    let ?r = "client_then (client_send_frame env ''send MANIFEST: '' Manifest (encode_manifest m) st1) (\<lambda>_ st. (Inr m, st))"
    have "emits outb st1 ?r (manifest_wire m @ [])"
      by (rule emits_then [OF client_send_emits [OF rel]]) (simp add: emits_def)
    moreover have "client_safe p T st1 ?r"
      by (intro client_safe_then client_frame_safe 2(4)) (simp add: client_safe_def)
    moreover have "fst ?r = Inr m' \<longrightarrow> m' = m"
      by (auto simp: client_then_def split: prod.splits sum.splits)
    ultimately show ?thesis using 2 by (simp add: emits_def client_safe_def)
  qed
  then show "emits outb st (client_manifest env count dest st) (manifest_wire m)"
    "client_safe p T st (client_manifest env count dest st)"
    "fst (client_manifest env count dest st) = Inr m' \<Longrightarrow> m' = m" by blast+
qed


lemma client_request_result:
  assumes "reliable (c_ops env) inb outb" "sending p T st"
  shows "emits outb st (client_request env st) []" "client_safe p T st (client_request env st)"
  unfolding client_request_def
  by (intro emits_then_quiet [OF client_recv_emits [OF assms(1)]] emits_nothing, simp split: option.splits)
    (intro client_safe_then client_frame_safe assms(2), auto simp: client_safe_def split: option.splits)

text \<open>Every chunk that is sent is the file's at that index, with its hash.\<close>

lemma client_chunks_step:
  assumes m: "m = manifest_of (c_b3 env) T (opt_chunk_size (c_opts env)) count dest" and i: "\<not> i \<ge> chunk_count m"
    and st: "sending p T st" "length T < 2 ^ 63" and v: "client_read env ''read source: '' i st = (v, st1)"
  shows "client_chunks env m (i # is) st = client_then (v, st1) (\<lambda>_ st.
      client_then (client_send_frame env (''send CHUNK['' @ dec_string (unat i) @ '']: '') Chunk
        (encode_chunk (chunk_msg (c_b3 env) m T i)) st) (\<lambda>_ st. client_chunks env m is st))"
proof (cases v)
  case (Inr d)
  have d: "d = chunk_of T (unat (opt_chunk_size (c_opts env))) (unat i)" using client_read_result(4) [OF st v] Inr by auto
  have "unat i < unat count" using i m by (simp add: word_le_nat_alt)
  then have "vec_at (chunk_hashes m) (unat i) = Some (blake3 (c_b3 env) d)" using m d by (simp add: vec_at_def)
  moreover have "\<lparr>index = i, hash = blake3 (c_b3 env) d, data = d\<rparr> = chunk_msg (c_b3 env) m T i"
    using d m by (simp add: chunk_msg_def)
  ultimately show ?thesis using i v Inr by (simp add: client_then_def)
qed (use i v in \<open>simp add: client_then_def\<close>)

lemma client_chunks_result:
  assumes rel: "reliable (c_ops env) inb outb" and T: "length T < 2 ^ 63" and st: "sending p T st"
    and m: "m = manifest_of (c_b3 env) T (opt_chunk_size (c_opts env)) count dest"
  shows "emits outb st (client_chunks env m is st) (concat (map (chunk_wire (c_b3 env) m T) is)) \<and>
    client_safe p T st (client_chunks env m is st)"
  using st
proof (induction "is" arbitrary: st)
  case Nil
  then show ?case by (simp add: emits_def client_safe_def)
next
  case (Cons i "is")
  show ?case
  proof (cases "i \<ge> chunk_count m")
    case True
    then show ?thesis using Cons.prems by (simp add: emits_def client_safe_def)
  next
    case False
    obtain v st1 where v: "client_read env ''read source: '' i st = (v, st1)" by fastforce
    note x = client_read_result [OF Cons.prems T v]
    have rd: "emits outb st (v, st1) []" "client_safe p T st (v, st1)"
      using x by (auto simp: emits_def client_safe_def)
    let ?sd = "client_send_frame env (''send CHUNK['' @ dec_string (unat i) @ '']: '') Chunk
        (encode_chunk (chunk_msg (c_b3 env) m T i))"
    let ?f = "\<lambda>_ st. client_then (?sd st) (\<lambda>_ st. client_chunks env m is st)"
    have f: "emits outb st2 (?f d st2) (chunk_wire (c_b3 env) m T i @ concat (map (chunk_wire (c_b3 env) m T) is))"
      "client_safe p T st2 (?f d st2)" if d: "(v, st1) = (Inr d, st2)" for d st2
    proof -
      have sd: "client_safe p T st2 (?sd st2)" using x(4) d by (intro client_frame_safe(1)) auto
      show "emits outb st2 (?f d st2) (chunk_wire (c_b3 env) m T i @ concat (map (chunk_wire (c_b3 env) m T) is))"
        using sd by (intro emits_then [OF client_send_emits [OF rel]] conjunct1 [OF Cons.IH]) (simp add: client_safe_def)
      show "client_safe p T st2 (?f d st2)" by (rule client_safe_then [OF sd conjunct2 [OF Cons.IH]])
    qed
    have "emits outb st (client_then (v, st1) ?f) (chunk_wire (c_b3 env) m T i @ concat (map (chunk_wire (c_b3 env) m T) is))"
      by (rule emits_then_quiet [OF rd(1) f(1)])
    moreover have "client_safe p T st (client_then (v, st1) ?f)" by (rule client_safe_then [OF rd(2) f(2)])
    ultimately show ?thesis unfolding client_chunks_step [OF m False Cons.prems T v] by simp
  qed
qed


lemma client_ack_emits:
  assumes "reliable (c_ops env) inb outb"
  shows "emits outb st (client_ack env st) []"
proof -
  obtain f c where c: "recv_frame (c_ops env) (cs_conn st) kDefaultMaxPayload = (f, c)" by fastforce
  have "outb (cn_stream c) = outb (cn_stream (cs_conn st))"
    using recv_frame_outb [OF assms, of "cs_conn st" kDefaultMaxPayload] c by simp
  then show ?thesis by (intro emits_nothing) (simp add: client_ack_def c Let_def split: option.splits)
qed

text \<open>A phase and what follows it; the bytes of what follows may depend on what the server answers.\<close>

lemma run_then:
  assumes "emits outb st r b" "client_safe p T st r"
    and "\<And>a st'. r = (Inr a, st') \<Longrightarrow> sending p T st' \<Longrightarrow>
      \<exists>i. emits outb st' (f a st') (B i) \<and> client_safe p T st' (f a st')"
  shows "\<exists>i. emits outb st (client_then r f) (b @ B i) \<and> client_safe p T st (client_then r f)"
proof -
  obtain v st1 where r: "r = (v, st1)" by fastforce
  show ?thesis
  proof (cases v)
    case (Inl e)
    then have "emits outb st (client_then r f) (b @ B i)" for i using r by (intro emits_then [OF assms(1)]) simp
    moreover have "client_safe p T st (client_then r f)" using r Inl by (intro client_safe_then [OF assms(2)]) simp
    ultimately show ?thesis by blast
  next
    case (Inr a)
    have "sending p T st1" using assms(2) r Inr by (simp add: client_safe_def)
    then obtain i where "emits outb st1 (f a st1) (B i)" "client_safe p T st1 (f a st1)"
      using assms(3) r Inr by blast
    then have "emits outb st (client_then r f) (b @ B i) \<and> client_safe p T st (client_then r f)"
      using r Inr by (intro conjI emits_then [OF assms(1)] client_safe_then [OF assms(2)]) simp_all
    then show ?thesis by blast
  qed
qed

lemma client_transfer_result:
  assumes rel: "reliable (c_ops env) inb outb" and str: "streaming (c_b3 env)"
    and st: "sending p T st" and T: "length T < 2 ^ 63"
    and m: "m = manifest_of (c_b3 env) T (opt_chunk_size (c_opts env)) count dest"
  shows "\<exists>is. emits outb st (client_transfer env count dest st) (client_bytes (c_b3 env) m T is) \<and>
    client_safe p T st (client_transfer env count dest st)"
proof -
  have ack: "\<exists>i :: unit. emits outb st (client_ack env st) [] \<and> client_safe p T st (client_ack env st)"
    if "sending p T st" for st using client_ack_emits [OF rel] client_frame_safe(3) [OF that] by blast
  have complete: "\<exists>i :: unit. emits outb st (client_then (client_complete env m st) (\<lambda>_. client_ack env)) (complete_wire m @ []) \<and>
      client_safe p T st (client_then (client_complete env m st) (\<lambda>_. client_ack env))" if "sending p T st" for st
    unfolding client_complete_def
    by (rule run_then [OF client_send_emits [OF rel] client_frame_safe(1) [OF that] ack])
  let ?tail = "\<lambda>m is st. client_then (client_chunks env m is st) (\<lambda>_ st. client_then (client_complete env m st) (\<lambda>_. client_ack env))"
  let ?req = "\<lambda>m st. client_then (client_request env st) (?tail m)"
  let ?B = "\<lambda>is. concat (map (chunk_wire (c_b3 env) m T) is) @ complete_wire m"
  have chunks: "\<exists>is. emits outb st (?tail m js st) (?B is) \<and> client_safe p T st (?tail m js st)"
    if "sending p T st" for js st
    using client_chunks_result [OF rel T that m, of js] complete
    by (intro exI [of _ js] run_then [where B = "\<lambda>_ :: unit. complete_wire m" and
          b = "concat (map (chunk_wire (c_b3 env) m T) js)", simplified]) auto
  have req: "\<exists>is. emits outb st (?req m st) ([] @ ?B is) \<and> client_safe p T st (?req m st)" if "sending p T st" for st
    by (rule run_then [OF client_request_result [OF rel that] chunks])
  have man: "\<exists>is. emits outb st (client_then (client_manifest env count dest st) ?req) (manifest_wire m @ ([] @ ?B is)) \<and>
      client_safe p T st (client_then (client_manifest env count dest st) ?req)" if "sending p T st" for st
  proof (rule run_then [OF client_manifest_result(1,2) [OF rel str that T m]])
    fix m' st' assume r: "client_manifest env count dest st = (Inr m', st')" and "sending p T st'"
    have "m' = m" using client_manifest_result(3) [OF rel str that T m] r by simp
    then show "\<exists>is. emits outb st' (?req m' st') ([] @ ?B is) \<and> client_safe p T st' (?req m' st')"
      using req [OF \<open>sending p T st'\<close>] by simp
  qed
  have "\<exists>is. emits outb st (client_transfer env count dest st)
        (hello_wire @ (manifest_wire m @ ([] @ ?B is))) \<and>
      client_safe p T st (client_transfer env count dest st)"
    unfolding client_transfer_def
    by (rule run_then [OF client_hello_emits [OF rel] client_hello_safe [OF st] man])
  then show ?thesis by (simp add: client_bytes_def)
qed


subsection \<open>Runs that succeed\<close>

text \<open>The server's bytes \<open>bs\<close> are still to come and \<open>os\<close> has been sent; a phase succeeds with a value.\<close>

definition awaits ::
    "('s \<Rightarrow> bytes) \<Rightarrow> ('s \<Rightarrow> bytes) \<Rightarrow> string \<Rightarrow> bytes \<Rightarrow> 's client \<Rightarrow> bytes \<Rightarrow> bytes \<Rightarrow> bool" where
  "awaits inb outb p T st bs os \<longleftrightarrow>
     inb (cn_stream (cs_conn st)) = bs \<and> outb (cn_stream (cs_conn st)) = os \<and> sending p T st \<and> faults (cs_world st) = []"

definition takes ::
    "('s \<Rightarrow> bytes) \<Rightarrow> ('s \<Rightarrow> bytes) \<Rightarrow> string \<Rightarrow> bytes \<Rightarrow> ('a, 's) client_phase \<Rightarrow> 'a \<Rightarrow> bytes \<Rightarrow> bytes \<Rightarrow> bool" where
  "takes inb outb p T r a bs os \<longleftrightarrow>
     fst r = Inr a \<and> awaits inb outb p T (snd r) bs os"

lemma takes_then:
  "takes inb outb p T r a bs os \<Longrightarrow> (\<And>st'. awaits inb outb p T st' bs os \<Longrightarrow> takes inb outb p T (f a st') b bs' os') \<Longrightarrow>
    takes inb outb p T (client_then r f) b bs' os'"
  by (cases r) (auto simp: takes_def awaits_def client_then_def)

lemma takes_sending: "awaits inb outb p T st' bs os \<Longrightarrow> sending p T st'"
  by (simp add: takes_def awaits_def)

lemma client_send_takes:
  assumes rel: "reliable (c_ops env) inb outb" and st: "awaits inb outb p T st bs os"
    and len: "length q \<le> kDefaultMaxPayload"
  shows "takes inb outb p T (client_send_frame env what t q st) () bs (os @ wire (frame_of t q))"
proof -
  obtain c where "send_frame (c_ops env) (cs_conn st) t q = (True, c)" "inb (cn_stream c) = inb (cn_stream (cs_conn st))"
    "outb (cn_stream c) = outb (cn_stream (cs_conn st)) @ wire (frame_of t q)"
    by (rule send_frame_reliable [OF rel len])
  then show ?thesis using st by (simp add: client_send_frame_def takes_def awaits_def)
qed

lemma client_recv_takes:
  assumes rel: "reliable (c_ops env) inb outb" and st: "awaits inb outb p T st (wire (frame_of t q) @ bs) os"
    and len: "length q \<le> kDefaultMaxPayload"
  shows "takes inb outb p T (client_recv_frame env what t st) (frame_of t q) bs os"
proof -
  have wf: "wf_frame kDefaultMaxPayload (frame_of t q)" by (rule wf_frame_of [OF len]) (simp add: kDefaultMaxPayload_def)
  have inb: "inb (cn_stream (cs_conn st)) = wire (frame_of t q) @ bs" using st by (simp add: takes_def awaits_def)
  obtain c where "recv_frame (c_ops env) (cs_conn st) kDefaultMaxPayload = (Some (frame_of t q), c)" "inb (cn_stream c) = bs"
    "outb (cn_stream c) = outb (cn_stream (cs_conn st))"
    by (rule recv_frame_reliable [OF rel inb wf])
  then show ?thesis using st by (simp add: client_recv_frame_def takes_def awaits_def)
qed

lemma client_hello_takes:
  assumes rel: "reliable (c_ops env) inb outb" and st: "awaits inb outb p T st (hello_wire @ bs) os"
  shows "takes inb outb p T (client_hello env st) () bs (os @ hello_wire)"
  unfolding client_hello_def
proof (rule takes_then [OF client_send_takes [OF rel st]])
  fix st1 assume 1: "awaits inb outb p T st1 (hello_wire @ bs) (os @ hello_wire)"
  show "takes inb outb p T (client_then (client_recv_frame env ''recv HELLO: '' Hello st1) (\<lambda>hello_resp st.
     case decode_hello (payload hello_resp) of
       None \<Rightarrow> (Inl (LastError ''decode HELLO: malformed''), st)
     | Some server_hello \<Rightarrow>
         if protocol_version server_hello \<noteq> kProtocolVersion
         then (Inl (LastError ''protocol version mismatch''), st) else (Inr (), st))) () bs (os @ hello_wire)"
    using hello.dec_enc [OF TrueI, of default_hello]
    by (intro takes_then [OF client_recv_takes [OF rel 1]])
      (simp_all add: kDefaultMaxPayload_def, simp add: default_hello_def takes_def)
qed (simp add: kDefaultMaxPayload_def)

lemma client_manifest_takes:
  assumes rel: "reliable (c_ops env) inb outb" and str: "streaming (c_b3 env)" and T: "length T < 2 ^ 63"
    and m: "m = manifest_of (c_b3 env) T (opt_chunk_size (c_opts env)) count dest"
    and st: "awaits inb outb p T st bs os" and len: "length (encode_manifest m) \<le> kDefaultMaxPayload"
    and inside: "\<forall>i<unat count. i * unat (opt_chunk_size (c_opts env)) \<le> length T"
  shows "takes inb outb p T (client_manifest env count dest st) m bs (os @ manifest_wire m)"
proof (cases rule: client_manifest_eq [OF str takes_sending [OF st] T m])
  case (1 e st1)
  then have "\<exists>i<unat count. length T < i * unat (opt_chunk_size (c_opts env))" using st by (simp add: takes_def awaits_def)
  then show ?thesis using inside by (meson not_le)
next
  case (2 st1)
  have "awaits inb outb p T st1 bs os" using st 2 inside by (simp add: takes_def awaits_def)
  then show ?thesis unfolding 2(1)
    by (rule takes_then [OF client_send_takes [OF rel _ len]]) (simp add: takes_def awaits_def)
qed

lemma client_request_takes:
  assumes rel: "reliable (c_ops env) inb outb" and st: "awaits inb outb p T st (req_wire is @ bs) os"
    and len: "length (encode_req_chunks \<lparr>indices = is\<rparr>) \<le> kDefaultMaxPayload"
  shows "takes inb outb p T (client_request env st) is bs os"
proof -
  have "4 * length is < 2 ^ 32"
    using len by (simp add: codec_simps length_concat_map sum_list_triv kDefaultMaxPayload_def)
  then have "decode_req_chunks (encode_req_chunks \<lparr>indices = is\<rparr>) = Some \<lparr>indices = is\<rparr>"
    by (intro req.dec_enc) (simp add: valid_req_chunks_def)
  then show ?thesis unfolding client_request_def
    by (intro takes_then [OF client_recv_takes [OF rel st len]]) (simp add: takes_def awaits_def)
qed


lemma client_chunks_takes:
  assumes rel: "reliable (c_ops env) inb outb" and T: "length T < 2 ^ 63"
    and m: "m = manifest_of (c_b3 env) T (opt_chunk_size (c_opts env)) count dest"
    and "is": "\<forall>i\<in>set is. i < count \<and> unat i * unat (opt_chunk_size (c_opts env)) \<le> length T"
    and fit: "unat (opt_chunk_size (c_opts env)) + 36 \<le> kDefaultMaxPayload"
    and st: "awaits inb outb p T st bs os"
  shows "takes inb outb p T (client_chunks env m is st) () bs (os @ concat (map (chunk_wire (c_b3 env) m T) is))"
  using "is" st
proof (induction "is" arbitrary: st os)
  case Nil
  then show ?case by (simp add: takes_def awaits_def)
next
  case (Cons i "is")
  let ?f = "\<lambda>d st. case vec_at (chunk_hashes m) (unat i) of None \<Rightarrow> (Inl ClientUndefined, st)
      | Some h \<Rightarrow> client_then (client_send_frame env (''send CHUNK['' @ dec_string (unat i) @ '']: '') Chunk
                  (encode_chunk \<lparr>index = i, hash = h, data = d\<rparr>) st) (\<lambda>_ st. client_chunks env m is st)"
  have i: "i < count" "unat i * unat (opt_chunk_size (c_opts env)) \<le> length T" using Cons.prems(1) by simp_all
  then have h: "vec_at (chunk_hashes m) (unat i) =
      Some (blake3 (c_b3 env) (chunk_of T (unat (opt_chunk_size (c_opts env))) (unat i)))"
    using m by (simp add: vec_at_def word_less_nat_alt)
  obtain v st1 where v: "client_read env ''read source: '' i st = (v, st1)" by fastforce
  have "faults (cs_world st) = []" using Cons.prems(2) by (simp add: takes_def awaits_def)
  then obtain d where d: "v = Inr d" "faults (cs_world st1) = []" "cs_conn st1 = cs_conn st"
      "d = chunk_of T (unat (opt_chunk_size (c_opts env))) (unat i)" "sending p T st1"
    using client_read_result [OF takes_sending [OF Cons.prems(2)] T v] i(2) by blast
  have 1: "takes inb outb p T (v, st1) d bs os" using d Cons.prems(2) by (simp add: takes_def awaits_def)
  have len: "length (encode_chunk \<lparr>index = i, hash = blake3 (c_b3 env) d, data = d\<rparr>) \<le> kDefaultMaxPayload"
    using fit d(4) by (simp add: codec_simps length_chunk_of)
  have "takes inb outb p T (client_then (v, st1) ?f) () bs ((os @ chunk_wire (c_b3 env) m T i) @ concat (map (chunk_wire (c_b3 env) m T) is))"
  proof (rule takes_then [OF 1])
    fix st2 assume 2: "awaits inb outb p T st2 bs os"
    have rest: "\<forall>i\<in>set is. i < count \<and> unat i * unat (opt_chunk_size (c_opts env)) \<le> length T" using Cons.prems(1) by simp
    have ck: "\<lparr>index = i, hash = blake3 (c_b3 env) d, data = d\<rparr> = chunk_msg (c_b3 env) m T i"
      using d(4) m by (simp add: chunk_msg_def)
    show "takes inb outb p T (?f d st2) () bs ((os @ chunk_wire (c_b3 env) m T i) @ concat (map (chunk_wire (c_b3 env) m T) is))"
      unfolding h option.case d(4) [symmetric] ck
      by (rule takes_then [OF client_send_takes [OF rel 2 len [unfolded ck]] Cons.IH [OF rest]])
  qed
  moreover have "client_chunks env m (i # is) st = client_then (v, st1) ?f"
  proof -
    have "\<not> i \<ge> chunk_count m" using i(1) m by (simp add: not_le)
    then show ?thesis using v by (simp only: client_chunks.simps if_False)
  qed
  ultimately show ?case by simp
qed

lemma client_ack_takes:
  assumes rel: "reliable (c_ops env) inb outb" and st: "awaits inb outb p T st (ack_wire m) os"
  shows "takes inb outb p T (client_ack env st) () [] os"
proof -
  let ?q = "encode_ack \<lparr>last_index = if chunk_count m = 0 then 0 else chunk_count m - 1\<rparr>"
  have wf: "wf_frame kDefaultMaxPayload (frame_of Ack ?q)"
    by (rule wf_frame_of) (simp_all add: kDefaultMaxPayload_def codec_simps)
  have inb: "inb (cn_stream (cs_conn st)) = wire (frame_of Ack ?q) @ []" using st by (simp add: takes_def awaits_def)
  obtain c where "recv_frame (c_ops env) (cs_conn st) kDefaultMaxPayload = (Some (frame_of Ack ?q), c)" "inb (cn_stream c) = []"
    "outb (cn_stream c) = outb (cn_stream (cs_conn st))"
    by (rule recv_frame_reliable [OF rel inb wf])
  then show ?thesis using st by (simp add: client_ack_def takes_def awaits_def)
qed

lemma client_transfer_takes:
  assumes rel: "reliable (c_ops env) inb outb" and str: "streaming (c_b3 env)" and T: "length T < 2 ^ 63"
    and m: "m = manifest_of (c_b3 env) T (opt_chunk_size (c_opts env)) count dest"
    and len: "length (encode_manifest m) \<le> kDefaultMaxPayload" "length (encode_req_chunks \<lparr>indices = is\<rparr>) \<le> kDefaultMaxPayload"
      "unat (opt_chunk_size (c_opts env)) + 36 \<le> kDefaultMaxPayload"
    and inside: "\<forall>i<unat count. i * unat (opt_chunk_size (c_opts env)) \<le> length T" and "is": "\<forall>i\<in>set is. i < count"
    and st: "awaits inb outb p T st (server_bytes m is) os"
  shows "takes inb outb p T (client_transfer env count dest st) () [] (os @ client_bytes (c_b3 env) m T is)"
  unfolding client_transfer_def client_bytes_def append_assoc [symmetric]
proof (rule takes_then [OF client_hello_takes [OF rel st [unfolded server_bytes_def]]])
  fix st1 assume 1: "awaits inb outb p T st1 (req_wire is @ ack_wire m) (os @ hello_wire)"
  have is': "\<forall>i\<in>set is. i < count \<and> unat i * unat (opt_chunk_size (c_opts env)) \<le> length T"
    using "is" inside by (auto simp: word_less_nat_alt)
  have "length (root_hash m) = 32" by (simp add: m)
  then have cm: "length (encode_complete \<lparr>final_root_hash = root_hash m, status = 0\<rparr>) \<le> kDefaultMaxPayload"
    by (simp add: codec_simps kDefaultMaxPayload_def)
  show "takes inb outb p T (client_then (client_manifest env count dest st1) (\<lambda>m st. client_then (client_request env st)
     (\<lambda>is st. client_then (client_chunks env m is st) (\<lambda>_ st. client_then (client_complete env m st)
       (\<lambda>_ st. client_ack env st))))) () []
       ((((os @ hello_wire) @ manifest_wire m) @ concat (map (chunk_wire (c_b3 env) m T) is)) @ complete_wire m)"
    unfolding client_complete_def
    by (rule takes_then [OF client_manifest_takes [OF rel str T m 1 len(1) inside]],
        rule takes_then [OF client_request_takes [OF rel _ len(2)]], assumption,
        rule takes_then [OF client_chunks_takes [OF rel T m is' len(3)]], assumption,
        rule takes_then [OF client_send_takes [OF rel _ cm]], assumption,
        rule client_ack_takes [OF rel])
qed


subsection \<open>A whole call\<close>

text \<open>The stream of a call: the connected socket, or the TLS stream over it after the handshake.\<close>

definition client_stream :: "('s, 'h, 'e) client_env \<Rightarrow> string \<Rightarrow> u16 \<Rightarrow> 's \<Rightarrow> bool" where
  "client_stream env host port s \<longleftrightarrow>
     (\<exists>socket c. client_connect env host port = Inr socket \<and> client_secure env host socket = Inr c \<and> cn_stream c = s)"

lemma Client_send_cases:
  assumes s: "client_stream env host port s" and T: "files w src = Some (Regular T)"
    and count: "chunk_count_of (word_of_nat (length T)) (opt_chunk_size (c_opts env)) = Some count"
  obtains (closed) e w' where "Client_send env host port src dest w = (Inl (LastError e), None, w')" "files w' = files w"
      "faults w \<noteq> []"
  | (run) st where "Client_send env host port src dest w =
        (let (r, st) = client_transfer env count dest st
         in (r, Some (cn_stream (Connection_close (c_ops env) (cs_conn st))), cs_world st))"
      "sending src T st" "cn_stream (cs_conn st) = s" "files (cs_world st) = files w"
      "faults w = [] \<Longrightarrow> faults (cs_world st) = []"
proof -
  obtain ok sr w1 where o: "FileSource_open (c_ec_message env) w (new_FileSource src) = (ok, sr, w1)" by (metis surj_pair)
  obtain socket c where c: "client_connect env host port = Inr socket" "client_secure env host socket = Inr c"
    "cn_stream c = s" using s by (auto simp: client_stream_def)
  have f: "files w1 = files w"
    using o by (auto simp: FileSource_open_def Let_def split: prod.splits if_splits
        dest!: arg_cong [where f = "\<lambda>x. files (snd x)"] simp: queries_unchanged)
  have q: "ok \<and> faults w1 = []" if "faults w = []"
    using o that T by (auto simp: FileSource_open_def Let_def new_FileSource_def fs_exists_def fs_is_regular_file_def
        fs_file_size_def is_open_read_def fs_simps)
  show thesis
  proof (cases ok)
    case False
    then show thesis using o f q by (intro closed [of "''open source: '' @ sr_last_error sr" w1]) (auto simp: Client_send_def)
  next
    case True
    note op = source_open_ok [OF o [unfolded eqTrueI [OF True]]]
    have sr: "sr_path sr = src" "sr_size sr = word_of_nat (length T)" using op T by (auto simp: new_FileSource_def)
    let ?st = "\<lparr>cs_conn = c, cs_source = sr, cs_world = w1\<rparr>"
    show thesis
    proof (rule run [of ?st])
      show "Client_send env host port src dest w =
        (let (r, st) = client_transfer env count dest ?st
         in (r, Some (cn_stream (Connection_close (c_ops env) (cs_conn st))), cs_world st))"
        using o True sr count c by (simp add: Client_send_def)
      show "sending src T ?st" using op(1) sr f T by (simp add: sending_def)
    qed (use c f q in auto)
  qed
qed

lemma Client_send_honest:
  assumes "reliable (c_ops env) inb outb" "streaming (c_b3 env)" "client_stream env host port s"
    and "files w src = Some (Regular T)" "length T < 2 ^ 63" "faults w = []"
    and "chunk_count_of (word_of_nat (length T)) (opt_chunk_size (c_opts env)) = Some count"
    and "m = manifest_of (c_b3 env) T (opt_chunk_size (c_opts env)) count dest" "describes (c_b3 env) m T"
    and "length (encode_manifest m) \<le> kDefaultMaxPayload"
    and "length (encode_req_chunks \<lparr>indices = is\<rparr>) \<le> kDefaultMaxPayload"
    and "unat (opt_chunk_size (c_opts env)) + 36 \<le> kDefaultMaxPayload"
    and "\<forall>i\<in>set is. i < count" "inb s = server_bytes m is"
  shows "\<exists>s' w'. Client_send env host port src dest w = (Inr (), Some s', w') \<and>
    outb s' = outb s @ client_bytes (c_b3 env) m T is"
proof (cases rule: Client_send_cases [OF assms(3,4,7), of dest])
  case (1 e w')
  then show ?thesis using assms(6) by blast
next
  case (2 st)
  have st: "awaits inb outb src T st (server_bytes m is) (outb s)"
    using 2 assms(6,14) by (simp add: awaits_def)
  have inside: "\<forall>i<unat count. i * unat (opt_chunk_size (c_opts env)) \<le> length T"
    using assms(8,9) by (simp add: describes_def)
  have "takes inb outb src T (client_transfer env count dest st) () [] (outb s @ client_bytes (c_b3 env) m T is)"
    by (rule client_transfer_takes [OF assms(1,2,5,8,10,11,12) inside assms(13) st])
  moreover obtain r st' where t: "client_transfer env count dest st = (r, st')" by fastforce
  ultimately have r: "r = Inr ()" "outb (cn_stream (cs_conn st')) = outb s @ client_bytes (c_b3 env) m T is"
    by (simp_all add: takes_def awaits_def)
  then have "Client_send env host port src dest w =
      (Inr (), Some (cn_stream (Connection_close (c_ops env) (cs_conn st'))), cs_world st')"
    using 2(1) t by simp
  then show ?thesis using close_reliable [OF assms(1), of "cs_conn st'"] r(2) by simp
qed

subsection \<open>The client of the concrete transfer\<close>

definition demo_client :: "(bytes \<times> bytes, bytes, unit) client_env" where
  "demo_client =
     \<lparr>c_ops = pipe_ops, c_b3 = tagged_lib, c_ec_message = ''error'',
      c_tls_files = \<lparr>can_load_certificate = (\<lambda>_. False), can_load_key = (\<lambda>_. False), can_load_verify = (\<lambda>_. False)\<rparr>,
      c_resolve = (\<lambda>host port. Inr ()), c_connect = (\<lambda>_. Inr (server_bytes demo_manifest [0, 1], [])),
      c_opts = \<lparr>opt_chunk_size = 2, opt_tls = None\<rparr>\<rparr>"

definition demo_source :: world where
  "demo_source = \<lparr>files = [''f'' \<mapsto> Regular [1, 2, 3]], faults = []\<rparr>"

lemma demo_client_simps [simp]:
  "c_ops demo_client = pipe_ops" "c_b3 demo_client = tagged_lib" "opt_chunk_size (c_opts demo_client) = 2"
  "files demo_source ''f'' = Some (Regular [1, 2, 3])" "faults demo_source = []"
  by (simp_all add: demo_client_def demo_source_def)

lemma demo_client_stream: "client_stream demo_client ''localhost'' 9000 (server_bytes demo_manifest [0, 1], [])"
  by (simp add: client_stream_def client_connect_def client_secure_def demo_client_def Connection_plain_def)

lemma demo_count: "chunk_count_of (word_of_nat (length [1 :: u8, 2, 3])) (opt_chunk_size (c_opts demo_client)) = Some 2"
  using chunk_count_of_nat [of "[1 :: u8, 2, 3]" 2] by simp

lemma demo_manifest_of:
  "demo_manifest = manifest_of (c_b3 demo_client) [1, 2, 3] (opt_chunk_size (c_opts demo_client)) 2 ''a/f''"
  by (simp add: demo_manifest_def manifest_of_def chunk_of_def upt_2)

lemma demo_fits:
  "length (encode_req_chunks \<lparr>indices = [0, 1]\<rparr>) \<le> kDefaultMaxPayload"
  "unat (opt_chunk_size (c_opts demo_client)) + 36 \<le> kDefaultMaxPayload" "\<forall>i\<in>set [0, 1 :: u32]. i < 2"
  by (simp_all add: codec_simps kDefaultMaxPayload_def)

lemma demo_client_run:
  obtains s' w' where "Client_send demo_client ''localhost'' 9000 ''f'' ''a/f'' demo_source = (Inr (), Some s', w')"
    "snd s' = client_bytes tagged_lib demo_manifest [1, 2, 3] [0, 1]"
  using Client_send_honest [OF _ _ demo_client_stream demo_client_simps(4) _ demo_client_simps(5) demo_count
      demo_manifest_of _ demo_valid(2) demo_fits, of fst snd]
  by (auto simp: reliable_pipe streaming_tagged demo_describes)

subsection \<open>Properties\<close>

text \<open>
  C12. The client sends nothing but the file. Whatever the server answers and whatever reads fail,
  the bytes the client puts on the wire are a prefix of HELLO, the manifest of the source file with
  the hashes of its chunks, the chunks of that file at indices the server asked for, and COMPLETE;
  when the call returns true they are all of it. The client changes no file, and it never indexes
  out of range.
\<close>

theorem client_sends_the_file:
  assumes "reliable (c_ops env) inb outb" "streaming (c_b3 env)" "client_stream env host port s"
    and "files w src = Some (Regular T)" "length T < 2 ^ 63"
    and "chunk_count_of (word_of_nat (length T)) (opt_chunk_size (c_opts env)) = Some count"
    and "m = manifest_of (c_b3 env) T (opt_chunk_size (c_opts env)) count dest"
    and "Client_send env host port src dest w = (r, Some s', w')"
  shows "files w' = files w \<and> r \<noteq> Inl ClientUndefined \<and>
    (\<exists>is x. outb s' = outb s @ x \<and> prefix x (client_bytes (c_b3 env) m T is) \<and>
       (r = Inr () \<longrightarrow> x = client_bytes (c_b3 env) m T is))"
proof (cases rule: Client_send_cases [OF assms(3,4,6), of dest])
  case (1 e w')
  then show ?thesis using assms(8) by simp
next
  case (2 st)
  obtain r' st' where t: "client_transfer env count dest st = (r', st')" by fastforce
  have r: "r = r'" "s' = cn_stream (Connection_close (c_ops env) (cs_conn st'))" "w' = cs_world st'"
    using assms(8) 2(1) t by simp_all
  have o: "outb s' = outb (cn_stream (cs_conn st'))" using close_reliable [OF assms(1)] r(2) by simp
  from client_transfer_result [OF assms(1,2) 2(2) assms(5,7)]
  obtain "is" where "emits outb st (r', st') (client_bytes (c_b3 env) m T is)" "client_safe src T st (r', st')"
    unfolding t by blast
  then show ?thesis using r o 2(3,4) by (auto simp: emits_def client_safe_def)
qed

theorem client_sends_the_file_witness:
  "\<exists>s' w' is. Client_send demo_client ''localhost'' 9000 ''f'' ''a/f'' demo_source = (Inr (), Some s', w') \<and>
     files w' ''f'' = Some (Regular [1, 2, 3]) \<and> snd s' = client_bytes tagged_lib demo_manifest [1, 2, 3] is"
proof -
  obtain s' w' where r: "Client_send demo_client ''localhost'' 9000 ''f'' ''a/f'' demo_source = (Inr (), Some s', w')"
    by (rule demo_client_run)
  have "reliable (c_ops demo_client) fst snd" "streaming (c_b3 demo_client)" "length [1 :: u8, 2, 3] < 2 ^ 63"
    by (simp_all add: reliable_pipe streaming_tagged)
  from client_sends_the_file [OF this(1,2) demo_client_stream demo_client_simps(4) this(3) demo_count demo_manifest_of r]
  show ?thesis using r by auto
qed

text \<open>
  The number of chunks is cast to 32 bits: a file of \<open>2 ^ 32\<close> chunks or more is announced with
  fewer chunks than it has, and a chunk size of zero makes the call on a non-empty file divide by
  zero.
\<close>

lemma chunk_count_truncated:
  assumes "n < 2 ^ 63" "0 < csize" "2 ^ 32 \<le> (n + unat csize - 1) div unat csize"
  shows "\<exists>count. chunk_count_of (word_of_nat n) csize = Some count \<and> unat count * unat csize < n \<and>
    chunk_count_of (word_of_nat n) 0 = None"
proof -
  let ?k = "(n + unat csize - 1) div unat csize"
  have c: "0 < unat csize" using assms(2) by (simp add: word_less_nat_alt)
  have "length (replicate n (0 :: u8)) < 2 ^ 63" using assms(1) by simp
  from chunk_count_of_nat [OF this] assms(2) have k: "chunk_count_of (word_of_nat n) csize = Some (word_of_nat ?k)" by simp
  have "unat (word_of_nat ?k :: u32) < ?k"
    using assms(3) unat_less_u32 [of "word_of_nat ?k"] by linarith
  then have "unat (word_of_nat ?k :: u32) * unat csize < n" by (rule ceil_div_bounds(2) [OF c])
  moreover have "(word_of_nat n :: u64) \<noteq> 0"
  proof -
    have "unat (word_of_nat n :: u64) = n" using assms(1) by simp
    moreover have "n \<noteq> 0" using calculation \<open>unat (word_of_nat ?k :: u32) * unat csize < n\<close> by simp
    ultimately show ?thesis by auto
  qed
  ultimately show ?thesis using k by (simp add: chunk_count_of_def)
qed

end
