(* ===== verification/Ftx_Resume.thy ===== *)
theory Ftx_Resume
  imports Ftx_Authentic
begin

text \<open>
  Interrupted transfers: a session whose connection is lost after some of the requested chunks
  leaves a partial file and a resume state from which later sessions of the same manifest ask for
  exactly the chunks that are still missing, and the transfer completes after any number of
  interruptions.
\<close>

subsection \<open>What the chunks stored so far have in common with the file\<close>

lemma agrees_on_place:
  assumes d: "describes lib m T" and i: "i < chunk_count m" and v: "agrees_on m T R v"
  shows "agrees_on m T (insert (unat i) R)
    (place v (chunk_offset m (chunk_msg lib m T i), data (chunk_msg lib m T i)))"
proof -
  let ?n = "unat (chunk_size m)" and ?c = "chunk_of T (unat (chunk_size m)) (unat i)"
  let ?o = "unat i * unat (chunk_size m)"
  have len: "length v = length T" "?o + length ?c \<le> length v"
    using v describes_chunk(2) [OF d i] describes_size [OF d] by (simp_all add: agrees_on_def unat_chunk_offset)
  have at: "overwrite v ?o ?c ! j = T ! j" if j: "j < length T" "j div ?n \<in> insert (unat i) R" for j
  proof (cases "?o \<le> j \<and> j < ?o + length ?c")
    case True
    then have "?c ! (j - ?o) = T ! j" using j(1) by (auto simp: chunk_of_def)
    then show ?thesis using True j(1) len by (simp add: nth_overwrite_inside)
  next
    case False
    note b = chunk_index_bound [OF d j(1)]
    have "j div ?n * ?n \<le> j" "j < j div ?n * ?n + ?n"
      using mod_less_divisor [OF b(2), of j] div_mult_mod_eq [of j ?n] by linarith+
    then have "?o \<le> j \<and> j < ?o + ?n" if "j div ?n = unat i" using that by simp
    then have "j div ?n \<in> R" using False j by (auto simp: length_chunk_of min_def split: if_splits)
    then have "v ! j = T ! j" using v j(1) by (simp add: agrees_on_def)
    then show ?thesis using False j(1) len by (auto simp: nth_overwrite_inside)
  qed
  show ?thesis
    using at len by (simp add: agrees_on_def place_def unat_chunk_offset length_overwrite_inside)
qed

lemma agrees_on_stored:
  assumes d: "describes lib m T" and "is": "\<forall>i\<in>set is. i < chunk_count m" and v: "agrees_on m T R v"
  shows "agrees_on m T (R \<union> unat ` set is)
    (foldl place v (map (\<lambda>ck. (chunk_offset m ck, data ck)) (map (chunk_msg lib m T) is)))"
  using "is" v
proof (induction "is" arbitrary: v R)
  case (Cons i "is")
  have i: "i < chunk_count m" using Cons.prems(1) by simp
  from Cons.IH [OF _ agrees_on_place [OF d i Cons.prems(2)]] show ?case using Cons.prems(1) by simp
qed simp

lemma missing_after:
  assumes rs: "wf_state rs" "missing rs = Some is" and rs': "wf_state rs'" "rs_chunk_count rs' = rs_chunk_count rs"
    and got: "received rs' = received rs \<union> unat ` set (take k is)"
  shows "missing rs' = Some (drop k is)"
proof -
  let ?u = "upto_u32 (rs_chunk_count rs)"
  have "is": "is = filter (\<lambda>i. unat i \<notin> received rs) ?u"
    using resume.absent [OF rs(1)] rs(2) by (simp add: upto_u32_def)
  have "distinct (map unat ?u)" by (simp add: unat_upto_u32)
  then have dist: "distinct is" unfolding "is" by (simp add: distinct_map)
  have "missing rs' = Some (filter (\<lambda>i. unat i \<notin> received rs') ?u)"
    using resume.absent [OF rs'(1)] rs'(2) by (simp add: upto_u32_def)
  also have "filter (\<lambda>i. unat i \<notin> received rs') ?u = filter (\<lambda>i. i \<notin> set (take k is)) is"
    by (subst (2) "is") (auto simp: got filter_filter image_iff word_unat_eq_iff [symmetric] intro!: filter_cong)
  also have "\<dots> = filter (\<lambda>i. i \<notin> set (take k is)) (take k is) @ filter (\<lambda>i. i \<notin> set (take k is)) (drop k is)"
    by (metis append_take_drop_id filter_append)
  also have "filter (\<lambda>i. i \<notin> set (take k is)) (drop k is) = drop k is"
    using set_take_disj_set_drop_if_distinct [OF dist, of k k] by (auto intro: filter_True)
  finally show ?thesis by simp
qed

subsection \<open>The connection is lost\<close>

lemma close_quiet:
  assumes "sink_ready w k" "faults w = []"
  obtains k' w' where "FileSink_close w k = (k', w')" "faults w' = []"
    "files w' (sk_partial_path k) = Some (Regular (sink_view w k))"
  using assms that
  by (auto simp: FileSink_close_def os_close_def os_sync_def os_drain_def sink_ready_def sink_view_def content_def
      fs_simps)

text \<open>No whole frame can be read from the bytes \<open>tb\<close>: the stream ends, possibly inside a frame.\<close>

abbreviation cut_off :: "bytes \<Rightarrow> bool" where
  "cut_off tb \<equiv> fst (parse_stream kDefaultMaxPayload tb) = []"

lemma chunk_loop_interrupted:
  assumes rel: "reliable (e_ops env) inb outb" and new: "\<forall>ck\<in>set new. sendable (e_b3 env) m ck"
    and k1: "sink_ready w1 k1" "sk_total_size k1 = file_size m" "sk_partial_path k1 = partial_path dest"
    and l: "loop_state env m dest rs resume k1 w1 cks tr st"
    and inb: "inb (cn_stream (ss_conn st)) = concat (map data_wire new) @ tb" "cut_off tb"
  obtains tr' st' where "chunk_loop env m dest tr st = Some (Failed ReturnFalse, tr', st')"
    "loop_state env m dest rs resume k1 w1 (cks @ new) tr' st'" "files (ss_world st') dest = files (ss_world st) dest"
    "outb (cn_stream (ss_conn st')) = outb (cn_stream (ss_conn st))"
proof -
  obtain tr1 st1 where 1: "chunk_loop env m dest tr st = chunk_loop env m dest tr1 st1"
    "loop_state env m dest rs resume k1 w1 (cks @ new) tr1 st1" "inb (cn_stream (ss_conn st1)) = tb"
    "outb (cn_stream (ss_conn st1)) = outb (cn_stream (ss_conn st))"
    "files (ss_world st1) dest = files (ss_world st) dest"
    by (rule chunk_loop_takes [OF rel new k1 l inb(1)])
  have "fst (recv_frame (e_ops env) (ss_conn st1) kDefaultMaxPayload) = None"
    using recv_frame_reliable_None [OF rel] 1(3) inb(2) by simp
  then obtain c where c: "recv_frame (e_ops env) (ss_conn st1) kDefaultMaxPayload = (None, c)"
    by (cases "recv_frame (e_ops env) (ss_conn st1) kDefaultMaxPayload") simp
  from c have "chunk_step env m dest (Running, tr1, st1) = (Failed ReturnFalse, tr1, st1\<lparr>ss_conn := c\<rparr>)"
    by (simp add: chunk_step_def session_recv_def)
  then have "chunk_loop env m dest tr st = Some (Failed ReturnFalse, tr1, st1\<lparr>ss_conn := c\<rparr>)"
    unfolding 1(1) by (subst chunk_loop_unfold) simp
  moreover have "loop_state env m dest rs resume k1 w1 (cks @ new) tr1 (st1\<lparr>ss_conn := c\<rparr>)"
    using 1(2) transferred_cong(2) [of env m rs resume k1 w1 "cks @ new" tr1 st1 "st1\<lparr>ss_conn := c\<rparr>"]
    by (simp add: loop_state_def)
  moreover have "outb (cn_stream c) = outb (cn_stream (ss_conn st))"
    using recv_frame_outb [OF rel, of "ss_conn st1" kDefaultMaxPayload] c 1(4) by simp
  ultimately show thesis using that 1(5) by simp
qed


text \<open>The disk a session leaves when it ends in the chunk loop after the chunks \<open>is\<close> of \<open>T\<close>.\<close>

lemma interrupted_start_state:
  assumes d: "describes (e_b3 env) m T" and "is": "\<forall>i\<in>set is. i < chunk_count m"
    and k1: "sink_ready w1 k1" "sink_view w1 k1 = v" and v: "agrees_on m T (received rs) v"
    and start: "\<not> resume \<Longrightarrow> rs = new_ResumeState (manifest_id env m) (chunk_count m) \<and> v = replicate (unat (file_size m)) 0"
    and l: "loop_state env m dest rs resume k1 w1 (map (chunk_msg (e_b3 env) m T) is) tr st"
    and cl: "FileSink_close (ss_world st) (ss_sink st) = (k', w')"
  obtains resume' rs' v' where "start_state env m dest v' w' resume' rs'" "agrees_on m T (received rs') v'"
    "received rs' = received rs \<union> unat ` set is" "faults w' = []"
    "files w' (partial_path dest) = Some (Regular v')"
proof -
  let ?v' = "foldl place v (map (\<lambda>ck. (chunk_offset m ck, data ck)) (map (chunk_msg (e_b3 env) m T) is))"
  have t: "transferred env m rs resume k1 w1 (map (chunk_msg (e_b3 env) m T) is) tr st"
    and on: "sink_on dest (ss_sink st)" and q: "faults (ss_world st) = []"
    and sv: "state_saved env m dest resume (map (chunk_msg (e_b3 env) m T) is) (tr_state tr) (ss_world st)"
    using l by (simp_all add: loop_state_def writable_def)
  have sk: "sink_ready (ss_world st) (ss_sink st)" "sink_view (ss_world st) (ss_sink st) = ?v'"
    using sink.writes_view [OF _ k1(1)] t k1(2) by (auto simp: transferred_def)
  have w': "faults w' = []" "files w' (partial_path dest) = Some (Regular ?v')"
    using close_quiet [OF sk(1) q] cl sk(2) on by (auto simp: sink_on_def)
  have f: "files w' (state_path dest) = files (ss_world st) (state_path dest)"
    using close_sink_on [OF on cl] by (simp add: unchanged_outside_def)
  have a: "agrees_on m T (received rs \<union> unat ` set is) ?v'" by (rule agrees_on_stored [OF d "is" v])
  show thesis
  proof (cases "\<not> resume \<and> is = []")
    case True
    then have "start_state env m dest v w' False rs"
      using sv f start by (simp add: start_state_def state_saved_def)
    then show thesis using that True a w' by simp
  next
    case False
    have rs': "wf_state (tr_state tr)" "rs_chunk_count (tr_state tr) = chunk_count m"
      "received (tr_state tr) = received rs \<union> unat ` set is"
      using t by (simp_all add: transferred_def image_image)
    have "length ?v' = unat (file_size m)" using a describes_size [OF d] by (simp add: agrees_on_def)
    then have "start_state env m dest ?v' w' True (tr_state tr)"
      using rs' sv f w' False by (auto simp: start_state_def state_saved_def)
    then show thesis using that a rs'(3) w' by simp
  qed
qed

lemma placeable_after:
  assumes p: "placeable env m dest w" and r: "received_into env m dest w ok w'" and q: "faults w' = []"
    and f: "files w' dest = files w dest" "files w' (partial_path dest) \<noteq> Some Directory"
      "files w' (state_path dest) \<noteq> Some Directory" "files w' (state_tmp (state_path dest)) \<noteq> Some Directory"
  shows "placeable env m dest w'"
proof -
  have names: "path_names dest \<noteq> []" "files w dest \<noteq> Some Directory"
    using p by (simp_all add: placeable_def writable_def session_files_def)
  have "only_dirs (dirs_of dest) (session_files dest) w w'" using r by (simp add: received_into_def)
  then have "files w' p \<noteq> Some (Regular c)" if "p \<in> dirs_of dest" for p c
    using p that session_files_not_dirs [OF names(1)] by (fastforce simp: only_dirs_def placeable_def)
  moreover have "writable dest w'" using q f names(2) by (simp add: writable_def session_files_def)
  ultimately show ?thesis using p by (simp add: placeable_def)
qed

lemma interrupted_runs:
  assumes rel: "reliable (e_ops env) inb outb"
    and d: "describes (e_b3 env) m T" "unat (chunk_size m) + 36 \<le> kDefaultMaxPayload"
    and p: "placeable env m dest w" and v: "start_state env m dest v w resume rs"
    and "is": "missing rs = Some is" "\<forall>i\<in>set (take k is). i < chunk_count m" and s: "session_stream env socket s"
    and inb: "inb s = hello_wire @ manifest_wire m @ concat (map (chunk_wire (e_b3 env) m T) (take k is)) @ tb"
      "cut_off tb"
  obtains k1 w1 tr st where "handle_session env socket w = Some (end_session env (Inl ReturnFalse, st))"
    "sink_ready w1 k1" "sink_view w1 k1 = v"
    "loop_state env m dest rs resume k1 w1 (map (chunk_msg (e_b3 env) m T) (take k is)) tr st"
    "files (ss_world st) dest = files w dest" "outb (cn_stream (ss_conn st)) = outb s @ hello_wire @ req_wire is"
proof -
  let ?new = "map (chunk_msg (e_b3 env) m T) (take k is)"
  obtain st2 where 2: "handle_session env socket w = map_option (end_session env) (session_transfer env m dest rs resume st2)"
    "loop_state env m dest rs resume (ss_sink st2) (ss_world st2) [] (new_transfer (e_b3 env) rs resume) st2"
    "sink_ready (ss_world st2) (ss_sink st2)" "sk_total_size (ss_sink st2) = file_size m"
    "sk_partial_path (ss_sink st2) = partial_path dest" "sink_view (ss_world st2) (ss_sink st2) = v"
    "inb (cn_stream (ss_conn st2)) = concat (map (chunk_wire (e_b3 env) m T) (take k is)) @ tb"
    "files (ss_world st2) dest = files w dest"
    "outb (cn_stream (ss_conn st2)) = outb s @ hello_wire @ req_wire is"
    by (rule handle_session_begins [OF rel p v "is"(1) s inb(1)])
  have new: "\<forall>ck\<in>set ?new. sendable (e_b3 env) m ck" using "is"(2) describes_sendable [OF d] by auto
  have i2: "inb (cn_stream (ss_conn st2)) = concat (map data_wire ?new) @ tb" using 2(7) by (simp add: comp_def)
  obtain tr st3 where 3: "chunk_loop env m dest (new_transfer (e_b3 env) rs resume) st2 = Some (Failed ReturnFalse, tr, st3)"
    "loop_state env m dest rs resume (ss_sink st2) (ss_world st2) ?new tr st3"
    "files (ss_world st3) dest = files (ss_world st2) dest"
    "outb (cn_stream (ss_conn st3)) = outb (cn_stream (ss_conn st2))"
    by (rule chunk_loop_interrupted [OF rel new 2(3-5,2) i2 inb(2)]) simp
  have "handle_session env socket w = Some (end_session env (Inl ReturnFalse, st3))"
    using 2(1) 3(1) by (simp add: session_transfer_def)
  then show thesis by (rule that [OF _ 2(3,6) 3(2)]) (use 3(3,4) 2(8,9) in simp_all)
qed

lemma handle_session_interrupted:
  assumes rel: "reliable (e_ops env) inb outb" and t: "transferable env m dest T w resume rs"
    and "is": "missing rs = Some is" and s: "session_stream env socket s"
    and inb: "inb s = hello_wire @ manifest_wire m @ concat (map (chunk_wire (e_b3 env) m T) (take k is)) @ tb"
      "cut_off tb"
  obtains s' w' resume' rs' where "handle_session env socket w = Some (Returned False, s', w')"
    "files w' dest = files w dest" "transferable env m dest T w' resume' rs'" "missing rs' = Some (drop k is)"
    "outb s' = outb s @ hello_wire @ req_wire is"
proof -
  obtain v where d: "describes (e_b3 env) m T" "unat (chunk_size m) + 36 \<le> kDefaultMaxPayload"
    and p: "placeable env m dest w" and v: "start_state env m dest v w resume rs" "agrees_on m T (received rs) v"
    using t by (auto simp: transferable_def)
  have m: "valid_manifest m" "length (encode_manifest m) \<le> kDefaultMaxPayload" "resolve_dest (e_root env) (path m) = Some dest"
    using p by (simp_all add: placeable_def)
  note small = manifest_fits_small [OF m(1,2)]
  note rs = start_state_wf [OF small v(1)] and mf = missing_facts [OF start_state_wf(1) [OF small v(1)] "is"]
  have tk: "\<forall>i\<in>set (take k is). i < chunk_count m" using mf(1) rs(2) set_take_subset [of k "is"] by auto
  obtain k1 w1 tr st where 3: "handle_session env socket w = Some (end_session env (Inl ReturnFalse, st))"
    "sink_ready w1 k1" "sink_view w1 k1 = v"
    "loop_state env m dest rs resume k1 w1 (map (chunk_msg (e_b3 env) m T) (take k is)) tr st"
    "files (ss_world st) dest = files w dest" "outb (cn_stream (ss_conn st)) = outb s @ hello_wire @ req_wire is"
    by (rule interrupted_runs [OF rel d p v(1) "is" tk s inb])
  obtain k' w' where cl: "FileSink_close (ss_world st) (ss_sink st) = (k', w')" by fastforce
  let ?s' = "cn_stream (Connection_close (e_ops env) (ss_conn st))"
  have h: "handle_session env socket w = Some (Returned False, ?s', w')" using 3(1) cl by (simp add: end_session_def)
  have o: "outb ?s' = outb s @ hello_wire @ req_wire is" using close_reliable [OF rel] 3(6) by simp
  obtain resume' rs' v' where f: "start_state env m dest v' w' resume' rs'" "agrees_on m T (received rs') v'"
    "received rs' = received rs \<union> unat ` set (take k is)" "faults w' = []"
    "files w' (partial_path dest) = Some (Regular v')"
    by (rule interrupted_start_state [OF d(1) tk 3(2,3) v(2) _ 3(4) cl]) (use v(1) in \<open>simp add: start_state_def\<close>)
  have w3: "writable dest (ss_world st)" "unchanged_outside {partial_path dest} (ss_world st) w'"
    using 3(4) close_sink_on [OF _ cl] by (simp_all add: loop_state_def)
  then have dest: "files w' dest = files w dest" using 3(5) by (simp add: unchanged_outside_def)
  have "placeable env m dest w'"
    using w3 by (intro placeable_after [OF p receive_outcome [OF rel s inb(1) m h] f(4) dest])
      (auto simp: f(5) writable_def session_files_def unchanged_outside_def)
  then have t': "transferable env m dest T w' resume' rs'" using d f(1,2) by (auto simp: transferable_def)
  note rs' = start_state_wf [OF small f(1)]
  have "missing rs' = Some (drop k is)"
    using missing_after [OF rs(1) "is" rs'(1) _ f(3)] rs'(2) rs(2) by simp
  then show thesis using that [OF h dest t' _ o] by simp
qed


subsection \<open>Any number of interruptions\<close>

text \<open>
  Sessions of the same file one after the other, each of which delivers some of the chunks asked for
  and then loses its connection; \<open>js\<close> are the chunks that are left.
\<close>

inductive lost_sessions ::
    "('s, 'h) session_env \<Rightarrow> ('s \<Rightarrow> bytes) \<Rightarrow> ManifestMsg \<Rightarrow> bytes \<Rightarrow> world \<Rightarrow> u32 list \<Rightarrow> world \<Rightarrow> u32 list \<Rightarrow> bool"
  for env inb m T w "is" where
  none: "lost_sessions env inb m T w is w is"
| lost: "lost_sessions env inb m T w is w1 js \<Longrightarrow> session_stream env socket s \<Longrightarrow>
    inb s = hello_wire @ manifest_wire m @ concat (map (chunk_wire (e_b3 env) m T) (take k js)) @ tb \<Longrightarrow>
    cut_off tb \<Longrightarrow> handle_session env socket w1 = Some (r, s', w2) \<Longrightarrow>
    lost_sessions env inb m T w is w2 (drop k js)"

lemma lost_sessions_transferable:
  assumes rel: "reliable (e_ops env) inb outb" and t: "transferable env m dest T w resume rs" "missing rs = Some is"
    and l: "lost_sessions env inb m T w is w1 js"
  shows "(\<exists>resume' rs'. transferable env m dest T w1 resume' rs' \<and> missing rs' = Some js) \<and>
    files w1 dest = files w dest \<and> (\<exists>n. js = drop n is)"
  using l
proof (induction rule: lost_sessions.induct)
  case none
  then show ?case using t by (metis drop0)
next
  case (lost w1 js socket s k tb r s' w2)
  then obtain resume' rs' n where 1: "transferable env m dest T w1 resume' rs'" "missing rs' = Some js"
    "files w1 dest = files w dest" "js = drop n is" by blast
  obtain s'' w'' resume'' rs'' where "handle_session env socket w1 = Some (Returned False, s'', w'')"
    "files w'' dest = files w1 dest" "transferable env m dest T w'' resume'' rs''" "missing rs'' = Some (drop k js)"
    by (rule handle_session_interrupted [OF rel 1(1,2) lost.hyps(2,3,4)])
  moreover have "drop k js = drop (k + n) is" using 1(4) by simp
  ultimately show ?case using lost.hyps(5) 1(3) by auto
qed

text \<open>The concrete transfer with the connection lost inside the second chunk.\<close>

definition cut_stream :: "bytes \<times> bytes" where
  "cut_stream = (hello_wire @ manifest_wire demo_manifest @
     concat (map (chunk_wire tagged_lib demo_manifest [1, 2, 3]) (take 1 [0, 1])) @
     take 5 (chunk_wire tagged_lib demo_manifest [1, 2, 3] 1), [])"

lemma demo_cut:
  "session_stream demo_env cut_stream cut_stream"
  "fst cut_stream = hello_wire @ manifest_wire demo_manifest @
     concat (map (chunk_wire (e_b3 demo_env) demo_manifest [1, 2, 3]) (take 1 [0, 1])) @
     take 5 (chunk_wire tagged_lib demo_manifest [1, 2, 3] 1)"
  by (simp_all add: session_stream_def cut_stream_def)

lemma short_cut: "length tb < kHeaderSize \<Longrightarrow> cut_off tb"
  by (subst parse_stream.simps) simp

lemma demo_cut_off: "cut_off (take 5 (chunk_wire tagged_lib demo_manifest [1, 2, 3] 1))"
  by (rule short_cut) (simp add: kHeaderSize_def)

text \<open>
  C5. Resumption to completion: after any number of sessions that lost their connections, a session
  that delivers the chunks the server then asks for returns true with the whole file \<open>T\<close> at the
  destination. The server asks for a suffix of what it asked for at first, and until the last session
  the destination stays as it was.
\<close>

theorem resumed_to_completion:
  assumes "reliable (e_ops env) inb outb" "streaming (e_b3 env)" "transferable env m dest T w resume rs"
    and "missing rs = Some is" "lost_sessions env inb m T w is w1 js"
    and "session_stream env socket s" "inb s = client_bytes (e_b3 env) m T js"
  shows "\<exists>s' w' n. handle_session env socket w1 = Some (Returned True, s', w') \<and>
    outb s' = outb s @ server_bytes m js \<and> js = drop n is \<and>
    files w1 dest = files w dest \<and> files w' dest = Some (Regular T) \<and> files w' (state_path dest) = None"
proof -
  obtain resume' rs' n where 1: "transferable env m dest T w1 resume' rs'" "missing rs' = Some js"
    "files w1 dest = files w dest" "js = drop n is"
    using lost_sessions_transferable [OF assms(1,3-5)] by blast
  obtain s' w' where "handle_session env socket w1 = Some (Returned True, s', w')"
    "files w' dest = Some (Regular T)" "files w' (state_path dest) = None" "outb s' = outb s @ server_bytes m js"
    by (rule handle_session_honest [OF assms(1,2) 1(1,2) assms(6,7)])
  then show ?thesis using 1(3,4) by blast
qed

theorem resumed_to_completion_witness:
  "\<exists>s1 w1 s2 w2. handle_session demo_env cut_stream demo_world = Some (Returned False, s1, w1) \<and>
     files w1 ''/srv/a/f'' = None \<and>
     handle_session demo_env (client_bytes tagged_lib demo_manifest [1, 2, 3] [1], []) w1 = Some (Returned True, s2, w2) \<and>
     files w2 ''/srv/a/f'' = Some (Regular [1, 2, 3])"
proof -
  obtain s1 w1 where 1: "handle_session demo_env cut_stream demo_world = Some (Returned False, s1, w1)"
    using handle_session_interrupted [OF demo_rel demo_transferable demo_missing demo_cut demo_cut_off] by metis
  let ?s = "(client_bytes tagged_lib demo_manifest [1, 2, 3] [1], [])"
  have l: "lost_sessions demo_env fst demo_manifest [1, 2, 3] demo_world [0, 1] w1 (drop 1 [0, 1])"
    by (rule lost_sessions.lost [where inb = fst, OF lost_sessions.none demo_cut demo_cut_off 1])
  have "session_stream demo_env ?s ?s" "fst ?s = client_bytes (e_b3 demo_env) demo_manifest [1, 2, 3] (drop 1 [0, 1])"
    by (simp_all add: session_stream_def)
  from resumed_to_completion [OF demo_rel demo_streaming demo_transferable demo_missing l this] 1
  show ?thesis by (auto simp: demo_world_def)
qed

end
