(* ===== verification/Ftx_Network.thy ===== *)
theory Ftx_Network
  imports Ftx_Send Ftx_Resume
begin

text \<open>
  The closed system of a client and a server: two deterministic programs connected by two byte
  streams. What a program has written when its input so far is \<open>bs\<close> is what it writes on a stream that
  delivers \<open>bs\<close> and then ends, since an endpoint that runs out of input sends nothing more.
\<close>

subsection \<open>A server that waits\<close>

lemma session_recv_cut:
  assumes rel: "reliable (e_ops env) inb outb" and "cut_off (inb (cn_stream (ss_conn st)))"
  obtains st' where "session_recv env st = (None, st')" "ss_world st' = ss_world st"
    "outb (cn_stream (ss_conn st')) = outb (cn_stream (ss_conn st))"
proof -
  obtain c where c: "recv_frame (e_ops env) (ss_conn st) kDefaultMaxPayload = (None, c)"
    using recv_frame_reliable_None [OF assms] by (metis prod.collapse)
  then have "outb (cn_stream c) = outb (cn_stream (ss_conn st))"
    using recv_frame_outb [OF rel, of "ss_conn st" kDefaultMaxPayload] by simp
  with c show thesis by (intro that [of "st\<lparr>ss_conn := c\<rparr>"]) (simp_all add: session_recv_def)
qed

lemma ended_session:
  assumes rel: "reliable (e_ops env) inb outb" and r: "handle_session env socket w = Some (end_session env (Inl ReturnFalse, st))"
    and "outb (cn_stream (ss_conn st)) = os"
  obtains s' w' where "handle_session env socket w = Some (Returned False, s', w')" "outb s' = os"
  using assms(2,3) close_reliable [OF rel] that by (auto simp: end_session_def split: prod.splits)

lemma handle_session_before_hello:
  assumes rel: "reliable (e_ops env) inb outb" and s: "session_stream env socket s" and inb: "cut_off (inb s)"
  obtains s' w' where "handle_session env socket w = Some (Returned False, s', w')" "outb s' = outb s"
proof -
  obtain c where c: "cn_stream c = s" "handle_session env socket w =
      map_option (end_session env) (session_body env \<lparr>ss_conn = c, ss_world = w, ss_sink = new_FileSink ''''\<rparr>)"
    by (rule handle_session_start [OF s])
  let ?st = "\<lparr>ss_conn = c, ss_world = w, ss_sink = new_FileSink ''''\<rparr>"
  obtain st where 1: "session_recv env ?st = (None, st)" "outb (cn_stream (ss_conn st)) = outb s"
    using session_recv_cut [OF rel, of ?st] inb c(1) by auto
  then have "handle_session env socket w = Some (end_session env (Inl ReturnFalse, st))"
    using c(2) by (simp add: session_body_def session_hello_def and_then_def)
  from ended_session [OF rel this 1(2)] that show thesis by blast
qed

lemma handle_session_before_manifest:
  assumes rel: "reliable (e_ops env) inb outb" and s: "session_stream env socket s"
    and inb: "inb s = hello_wire @ tb" "cut_off tb"
  obtains s' w' where "handle_session env socket w = Some (Returned False, s', w')" "outb s' = outb s @ hello_wire"
proof -
  obtain c where c: "cn_stream c = s" "handle_session env socket w =
      map_option (end_session env) (session_body env \<lparr>ss_conn = c, ss_world = w, ss_sink = new_FileSink ''''\<rparr>)"
    by (rule handle_session_start [OF s])
  let ?st = "\<lparr>ss_conn = c, ss_world = w, ss_sink = new_FileSink ''''\<rparr>"
  have i0: "inb (cn_stream (ss_conn ?st)) = hello_wire @ tb" using inb c(1) by simp
  obtain st1 where 1: "session_hello env ?st = (Inr (), st1)" "inb (cn_stream (ss_conn st1)) = tb"
    "outb (cn_stream (ss_conn st1)) = outb s @ hello_wire"
    using session_hello_honest [OF rel i0] c(1) by auto
  obtain st where 2: "session_recv env st1 = (None, st)" "outb (cn_stream (ss_conn st)) = outb s @ hello_wire"
    using session_recv_cut [OF rel, of st1] inb(2) 1(2,3) by auto
  then have "handle_session env socket w = Some (end_session env (Inl ReturnFalse, st))"
    using c(2) 1(1) by (simp add: session_body_def session_manifest_def and_then_def)
  from ended_session [OF rel this 2(2)] that show thesis by blast
qed

subsection \<open>A client that waits\<close>

definition stops :: "('s \<Rightarrow> bytes) \<Rightarrow> ('a, 's) client_phase \<Rightarrow> bytes \<Rightarrow> bool" where
  "stops outb r os \<longleftrightarrow> (\<exists>e. fst r = Inl e) \<and> outb (cn_stream (cs_conn (snd r))) = os"

lemma stops_then: "stops outb r os \<Longrightarrow> stops outb (client_then r f) os"
  by (auto simp: stops_def client_then_def split: prod.splits)

lemma takes_stops:
  "takes inb outb p T r a bs os \<Longrightarrow> (\<And>st'. awaits inb outb p T st' bs os \<Longrightarrow> stops outb (f a st') os') \<Longrightarrow>
    stops outb (client_then r f) os'"
  by (cases r) (auto simp: takes_def awaits_def client_then_def)

lemma no_frame:
  assumes rel: "reliable (c_ops env) inb outb" and st: "awaits inb outb p T st [] os"
  obtains c where "recv_frame (c_ops env) (cs_conn st) kDefaultMaxPayload = (None, c)" "outb (cn_stream c) = os"
proof -
  have "cut_off (inb (cn_stream (cs_conn st)))" using st by (simp add: awaits_def short_cut kHeaderSize_def)
  then obtain c where c: "recv_frame (c_ops env) (cs_conn st) kDefaultMaxPayload = (None, c)"
    using recv_frame_reliable_None [OF rel] by (metis prod.collapse)
  then show thesis
    using that recv_frame_outb [OF rel, of "cs_conn st" kDefaultMaxPayload] st by (simp add: awaits_def)
qed

lemma client_recv_stops:
  assumes "reliable (c_ops env) inb outb" "awaits inb outb p T st [] os"
  shows "stops outb (client_recv_frame env what t st) os"
proof -
  obtain c where "recv_frame (c_ops env) (cs_conn st) kDefaultMaxPayload = (None, c)" "outb (cn_stream c) = os"
    by (rule no_frame [OF assms])
  then show ?thesis by (simp add: client_recv_frame_def stops_def)
qed

lemma client_ack_stops:
  assumes "reliable (c_ops env) inb outb" "awaits inb outb p T st [] os"
  shows "stops outb (client_ack env st) os"
proof -
  obtain c where "recv_frame (c_ops env) (cs_conn st) kDefaultMaxPayload = (None, c)" "outb (cn_stream c) = os"
    by (rule no_frame [OF assms])
  then show ?thesis by (simp add: client_ack_def stops_def)
qed

lemma client_waits_hello:
  assumes rel: "reliable (c_ops env) inb outb" and st: "awaits inb outb p T st [] os"
  shows "stops outb (client_transfer env count dest st) (os @ hello_wire)"
  unfolding client_transfer_def client_hello_def
  by (intro stops_then takes_stops [OF client_send_takes [OF rel st]] client_recv_stops [OF rel])
    (simp_all add: kDefaultMaxPayload_def)

lemma client_waits_request:
  assumes rel: "reliable (c_ops env) inb outb" and str: "streaming (c_b3 env)" and T: "length T < 2 ^ 63"
    and m: "m = manifest_of (c_b3 env) T (opt_chunk_size (c_opts env)) count dest"
    and len: "length (encode_manifest m) \<le> kDefaultMaxPayload"
    and inside: "\<forall>i<unat count. i * unat (opt_chunk_size (c_opts env)) \<le> length T"
    and st: "awaits inb outb p T st hello_wire os"
  shows "stops outb (client_transfer env count dest st) ((os @ hello_wire) @ manifest_wire m)"
  unfolding client_transfer_def
proof (rule takes_stops [OF client_hello_takes [OF rel]])
  show "awaits inb outb p T st (hello_wire @ []) os" using st by simp
  fix st1 assume 1: "awaits inb outb p T st1 [] (os @ hello_wire)"
  show "stops outb (client_then (client_manifest env count dest st1) (\<lambda>m st. client_then (client_request env st)
     (\<lambda>is st. client_then (client_chunks env m is st) (\<lambda>_ st. client_then (client_complete env m st)
       (\<lambda>_ st. client_ack env st))))) ((os @ hello_wire) @ manifest_wire m)"
    unfolding client_request_def
    by (rule takes_stops [OF client_manifest_takes [OF rel str T m 1 len inside]], intro stops_then client_recv_stops [OF rel])
qed

lemma client_waits_ack:
  assumes rel: "reliable (c_ops env) inb outb" and str: "streaming (c_b3 env)" and T: "length T < 2 ^ 63"
    and m: "m = manifest_of (c_b3 env) T (opt_chunk_size (c_opts env)) count dest"
    and len: "length (encode_manifest m) \<le> kDefaultMaxPayload" "length (encode_req_chunks \<lparr>indices = is\<rparr>) \<le> kDefaultMaxPayload"
      "unat (opt_chunk_size (c_opts env)) + 36 \<le> kDefaultMaxPayload"
    and inside: "\<forall>i<unat count. i * unat (opt_chunk_size (c_opts env)) \<le> length T" and "is": "\<forall>i\<in>set is. i < count"
    and st: "awaits inb outb p T st (hello_wire @ req_wire is) os"
  shows "stops outb (client_transfer env count dest st) (os @ client_bytes (c_b3 env) m T is)"
  unfolding client_transfer_def client_bytes_def append_assoc [symmetric]
proof (rule takes_stops [OF client_hello_takes [OF rel st]])
  fix st1 assume 1: "awaits inb outb p T st1 (req_wire is) (os @ hello_wire)"
  have is': "\<forall>i\<in>set is. i < count \<and> unat i * unat (opt_chunk_size (c_opts env)) \<le> length T"
    using "is" inside by (auto simp: word_less_nat_alt)
  have "length (root_hash m) = 32" by (simp add: m)
  then have cm: "length (encode_complete \<lparr>final_root_hash = root_hash m, status = 0\<rparr>) \<le> kDefaultMaxPayload"
    by (simp add: codec_simps kDefaultMaxPayload_def)
  show "stops outb (client_then (client_manifest env count dest st1) (\<lambda>m st. client_then (client_request env st)
     (\<lambda>is st. client_then (client_chunks env m is st) (\<lambda>_ st. client_then (client_complete env m st)
       (\<lambda>_ st. client_ack env st)))))
       ((((os @ hello_wire) @ manifest_wire m) @ concat (map (chunk_wire (c_b3 env) m T) is)) @ complete_wire m)"
    unfolding client_complete_def
    by (rule takes_stops [OF client_manifest_takes [OF rel str T m 1 len(1) inside]],
        rule takes_stops [OF client_request_takes [OF rel _ len(2), where bs = "[]"]], simp only: append_Nil2,
        rule takes_stops [OF client_chunks_takes [OF rel T m is' len(3)]], assumption,
        rule takes_stops [OF client_send_takes [OF rel _ cm]], assumption,
        rule client_ack_stops [OF rel])
qed

subsection \<open>Two programs and two streams\<close>

text \<open>The client connected to a peer whose bytes so far are \<open>bs\<close>, and what each side has written.\<close>

definition linked :: "(bytes \<times> bytes, 'h, 'e) client_env \<Rightarrow> bytes \<Rightarrow> (bytes \<times> bytes, 'h, 'e) client_env" where
  "linked env bs = env\<lparr>c_connect := \<lambda>_. Inr (bs, [])\<rparr>"

definition client_out ::
    "(bytes \<times> bytes, 'h, 'e) client_env \<Rightarrow> string \<Rightarrow> u16 \<Rightarrow> string \<Rightarrow> string \<Rightarrow> world \<Rightarrow> bytes \<Rightarrow> bytes" where
  "client_out env host port src dest w bs =
     (case Client_send (linked env bs) host port src dest w of (_, Some s, _) \<Rightarrow> snd s | _ \<Rightarrow> [])"

definition server_out :: "(bytes \<times> bytes, 'h) session_env \<Rightarrow> world \<Rightarrow> bytes \<Rightarrow> bytes" where
  "server_out env w bs = (case handle_session env (bs, []) w of Some (_, s, _) \<Rightarrow> snd s | None \<Rightarrow> [])"

text \<open>
  The bytes on the way to the server and to the client after \<open>n\<close> rounds, in each of which both
  programs run on what the other has written.
\<close>

fun exchange :: "(bytes \<Rightarrow> bytes) \<Rightarrow> (bytes \<Rightarrow> bytes) \<Rightarrow> nat \<Rightarrow> bytes \<times> bytes" where
  "exchange c s 0 = ([], [])"
| "exchange c s (Suc n) = (let (to_server, to_client) = exchange c s n in (c to_client, s to_server))"

lemma exchange_settles:
  assumes "c [] = c1" "s [] = []" "s c1 = s1" "c s1 = c2" "s c2 = s2" "c s2 = c3" "s c3 = s3" "c s3 = c3"
  shows "exchange c s (6 + n) = (c3, s3)"
proof (induction n)
  case 0
  then show ?case using assms by (simp add: eval_nat_numeral)
next
  case (Suc n)
  have "6 + Suc n = Suc (6 + n)" by simp
  then show ?case using Suc assms(7,8) by (simp only: exchange.simps) simp
qed

lemma linked_stream:
  assumes "c_resolve env host (dec_string (unat port)) = Inr e" "opt_tls (c_opts env) = None"
  shows "client_stream (linked env bs) host port (bs, [])"
  using assms by (simp add: client_stream_def client_connect_def client_secure_def linked_def Connection_plain_def)

lemma pipe_session_stream: "e_ops env = pipe_ops \<Longrightarrow> session_stream env s s"
  by (simp add: session_stream_def pipe_ops_def split: option.splits)

lemma linked_simps [simp]:
  "c_ops (linked env bs) = c_ops env" "c_b3 (linked env bs) = c_b3 env" "c_opts (linked env bs) = c_opts env"
  by (simp_all add: linked_def)

lemma client_out_stops:
  assumes ops: "c_ops env = pipe_ops" and net: "c_resolve env host (dec_string (unat port)) = Inr e" "opt_tls (c_opts env) = None"
    and T: "files w src = Some (Regular T)" "faults w = []"
    and count: "chunk_count_of (word_of_nat (length T)) (opt_chunk_size (c_opts env)) = Some count"
    and stop: "\<And>st. awaits fst snd src T st bs [] \<Longrightarrow> stops snd (client_transfer (linked env bs) count dest st) os"
  shows "client_out env host port src dest w bs = os"
proof -
  have "chunk_count_of (word_of_nat (length T)) (opt_chunk_size (c_opts (linked env bs))) = Some count" using count by simp
  then obtain st where st: "Client_send (linked env bs) host port src dest w =
        (let (r, st) = client_transfer (linked env bs) count dest st
         in (r, Some (cn_stream (Connection_close (c_ops (linked env bs)) (cs_conn st))), cs_world st))"
      "sending src T st" "cn_stream (cs_conn st) = (bs, [])" "faults (cs_world st) = []"
    using T(2) by (cases rule: Client_send_cases [OF linked_stream [OF net] T(1), of bs count dest]) blast+
  obtain r st' where t: "client_transfer (linked env bs) count dest st = (r, st')" by fastforce
  have "awaits fst snd src T st bs []" using st by (simp add: awaits_def)
  from stop [OF this] have "snd (cn_stream (cs_conn st')) = os" by (simp add: t stops_def)
  then show ?thesis
    using st(1) t ops close_reliable [OF reliable_pipe, of "cs_conn st'"] by (simp add: client_out_def)
qed

lemma server_outI: "handle_session env (bs, []) w = Some (v, s', w') \<Longrightarrow> snd s' = os \<Longrightarrow> server_out env w bs = os"
  by (simp add: server_out_def)

lemma server_rounds:
  assumes ops: "e_ops env = pipe_ops" and str: "streaming (e_b3 env)"
    and t: "transferable env m dest T w resume rs" and "is": "missing rs = Some is"
  shows "server_out env w [] = []" "server_out env w hello_wire = hello_wire"
    "server_out env w (hello_wire @ manifest_wire m) = hello_wire @ req_wire is"
    "server_out env w (client_bytes (e_b3 env) m T is) = server_bytes m is"
proof -
  have rel: "reliable (e_ops env) fst snd" using ops by (simp add: reliable_pipe)
  note s = pipe_session_stream [OF ops]
  have cut: "cut_off []" by (simp add: short_cut kHeaderSize_def)
  show "server_out env w [] = []"
    using handle_session_before_hello [OF rel s, of "([], [])"] cut by (metis fst_conv server_outI snd_conv)
  show "server_out env w hello_wire = hello_wire"
    using handle_session_before_manifest [OF rel s, of "(hello_wire, [])" "[]"] cut
    by (metis append_Nil append_Nil2 fst_conv server_outI snd_conv)
  have "fst (hello_wire @ manifest_wire m, []) =
      hello_wire @ manifest_wire m @ concat (map (chunk_wire (e_b3 env) m T) (take 0 is)) @ []" by simp
  from handle_session_interrupted [OF rel t "is" s this cut]
  show "server_out env w (hello_wire @ manifest_wire m) = hello_wire @ req_wire is"
    by (metis append_Nil server_outI snd_conv)
  have "fst (client_bytes (e_b3 env) m T is, []) = client_bytes (e_b3 env) m T is" by simp
  from handle_session_honest [OF rel str t "is" s this]
  show "server_out env w (client_bytes (e_b3 env) m T is) = server_bytes m is"
    by (metis append_Nil server_outI snd_conv)
qed

lemma client_rounds:
  assumes ops: "c_ops env = pipe_ops" and str: "streaming (c_b3 env)"
    and net: "c_resolve env host (dec_string (unat port)) = Inr e" "opt_tls (c_opts env) = None"
    and T: "files w src = Some (Regular T)" "faults w = []" "length T < 2 ^ 63"
    and count: "chunk_count_of (word_of_nat (length T)) (opt_chunk_size (c_opts env)) = Some count"
    and m: "m = manifest_of (c_b3 env) T (opt_chunk_size (c_opts env)) count dest" "describes (c_b3 env) m T"
    and len: "length (encode_manifest m) \<le> kDefaultMaxPayload" "length (encode_req_chunks \<lparr>indices = is\<rparr>) \<le> kDefaultMaxPayload"
      "unat (opt_chunk_size (c_opts env)) + 36 \<le> kDefaultMaxPayload"
    and "is": "\<forall>i\<in>set is. i < count"
  shows "client_out env host port src dest w [] = hello_wire"
    "client_out env host port src dest w hello_wire = hello_wire @ manifest_wire m"
    "client_out env host port src dest w (hello_wire @ req_wire is) = client_bytes (c_b3 env) m T is"
    "client_out env host port src dest w (server_bytes m is) = client_bytes (c_b3 env) m T is"
    "\<exists>s' w'. Client_send (linked env (server_bytes m is)) host port src dest w = (Inr (), Some s', w')"
proof -
  have rel: "reliable (c_ops (linked env bs)) fst snd" for bs using ops by (simp add: reliable_pipe)
  have str': "streaming (c_b3 (linked env bs))" for bs using str by simp
  have m': "m = manifest_of (c_b3 (linked env bs)) T (opt_chunk_size (c_opts (linked env bs))) count dest" for bs using m by simp
  have inside: "\<forall>i<unat count. i * unat (opt_chunk_size (c_opts (linked env bs))) \<le> length T" for bs
    using m by (simp add: describes_def)
  have fit: "unat (opt_chunk_size (c_opts (linked env bs))) + 36 \<le> kDefaultMaxPayload" for bs using len(3) by simp
  note out = client_out_stops [OF ops net T(1,2) count]
  show "client_out env host port src dest w [] = hello_wire"
    using client_waits_hello [OF rel] by (intro out) fastforce
  show "client_out env host port src dest w hello_wire = hello_wire @ manifest_wire m"
    using client_waits_request [OF rel str' T(3) m' len(1) inside] by (intro out) fastforce
  show "client_out env host port src dest w (hello_wire @ req_wire is) = client_bytes (c_b3 env) m T is"
    using client_waits_ack [OF rel str' T(3) m' len(1,2) fit inside "is"] by (intro out) fastforce
  have "chunk_count_of (word_of_nat (length T)) (opt_chunk_size (c_opts (linked env (server_bytes m is)))) = Some count"
    "describes (c_b3 (linked env (server_bytes m is))) m T" "fst (server_bytes m is, []) = server_bytes m is"
    using count m(2) by simp_all
  from Client_send_honest [OF rel str' linked_stream [OF net] T(1,3,2) this(1) m' this(2) len(1,2) fit "is" this(3)]
  obtain s' w' where "Client_send (linked env (server_bytes m is)) host port src dest w = (Inr (), Some s', w')"
    "snd s' = client_bytes (c_b3 env) m T is" by auto
  then show "client_out env host port src dest w (server_bytes m is) = client_bytes (c_b3 env) m T is"
    "\<exists>s' w'. Client_send (linked env (server_bytes m is)) host port src dest w = (Inr (), Some s', w')"
    by (simp_all add: client_out_def)
qed


lemma network_settles:
  assumes ops: "c_ops cenv = pipe_ops" "e_ops senv = pipe_ops" "e_b3 senv = c_b3 cenv" and str: "streaming (c_b3 cenv)"
    and net: "c_resolve cenv host (dec_string (unat port)) = Inr e" "opt_tls (c_opts cenv) = None"
    and T: "files cw src = Some (Regular T)" "faults cw = []" "length T < 2 ^ 63"
    and fit: "unat (opt_chunk_size (c_opts cenv)) + 36 \<le> kDefaultMaxPayload"
    and count: "chunk_count_of (word_of_nat (length T)) (opt_chunk_size (c_opts cenv)) = Some count"
    and m: "m = manifest_of (c_b3 cenv) T (opt_chunk_size (c_opts cenv)) count rpath" "describes (c_b3 cenv) m T"
    and p: "placeable senv m dest sw" "start_state senv m dest v sw resume rs" "agrees_on m T (received rs) v"
    and miss: "missing rs = Some is"
  shows "exchange (client_out cenv host port src rpath cw) (server_out senv sw) (6 + n) =
      (client_bytes (c_b3 cenv) m T is, server_bytes m is)"
    "\<exists>cs' cw'. Client_send (linked cenv (server_bytes m is)) host port src rpath cw = (Inr (), Some cs', cw')"
    "\<exists>ss' sw'. handle_session senv (client_bytes (c_b3 cenv) m T is, []) sw = Some (Returned True, ss', sw') \<and>
       files sw' dest = Some (Regular T)"
proof -
  have vm: "valid_manifest m" "length (encode_manifest m) \<le> kDefaultMaxPayload" using p(1) by (simp_all add: placeable_def)
  note small = manifest_fits_small [OF vm]
  note rs = start_state_wf [OF small p(2)]
  note mf = missing_facts [OF rs(1) miss, unfolded rs(2)]
  have "is": "\<forall>i\<in>set is. i < count" using mf(1) m(1) by simp
  have t: "transferable senv m dest T sw resume rs" using m fit ops(3) p by (auto simp: transferable_def)
  have str': "streaming (e_b3 senv)" using ops(3) str by simp
  note c = client_rounds [OF ops(1) str net T count m vm(2) request_fits [OF small mf(4)] fit "is"]
  note s = server_rounds [OF ops(2) str' t miss, unfolded ops(3)]
  show "exchange (client_out cenv host port src rpath cw) (server_out senv sw) (6 + n) =
      (client_bytes (c_b3 cenv) m T is, server_bytes m is)"
    by (rule exchange_settles [OF c(1) s(1,2) c(2) s(3) c(3) s(4) c(4)])
  show "\<exists>cs' cw'. Client_send (linked cenv (server_bytes m is)) host port src rpath cw = (Inr (), Some cs', cw')"
    by (rule c(5))
  have rel: "reliable (e_ops senv) fst snd" using ops(2) by (simp add: reliable_pipe)
  have "fst (client_bytes (c_b3 cenv) m T is, []) = client_bytes (e_b3 senv) m T is" using ops(3) by simp
  from handle_session_honest [OF rel str' t miss pipe_session_stream [OF ops(2)] this]
  show "\<exists>ss' sw'. handle_session senv (client_bytes (c_b3 cenv) m T is, []) sw = Some (Returned True, ss', sw') \<and>
       files sw' dest = Some (Regular T)" by metis
qed

text \<open>
  C1. The closed system does not deadlock and ends with the file in place. A client and a server are
  connected by two streams that are empty at first; in every round each program runs on the bytes the
  other has written so far. After six rounds nothing changes any more: the client has sent HELLO, the
  manifest, the chunks the server is missing and COMPLETE, the server HELLO, the request and ACK. On
  these bytes the client's call and the session both return true, and the destination holds the
  client's file.
\<close>

theorem network_completes:
  assumes "c_ops cenv = pipe_ops" "e_ops senv = pipe_ops" "e_b3 senv = c_b3 cenv" "streaming (c_b3 cenv)"
    and "c_resolve cenv host (dec_string (unat port)) = Inr e" "opt_tls (c_opts cenv) = None"
    and "files cw src = Some (Regular T)" "faults cw = []" "length T < 2 ^ 63"
    and "0 < csize" "csize = opt_chunk_size (c_opts cenv)" "unat csize + 36 \<le> kDefaultMaxPayload"
    and "(length T + unat csize - 1) div unat csize < 2 ^ 32"
    and "chunk_count_of (word_of_nat (length T)) csize = Some count"
    and "m = manifest_of (c_b3 cenv) T csize count rpath"
    and "placeable senv m dest sw" "start_state senv m dest v sw resume rs" "agrees_on m T (received rs) v"
    and "missing rs = Some is"
  shows "exchange (client_out cenv host port src rpath cw) (server_out senv sw) (6 + n) =
      (client_bytes (c_b3 cenv) m T is, server_bytes m is) \<and>
    (\<exists>cs' cw'. Client_send (linked cenv (server_bytes m is)) host port src rpath cw = (Inr (), Some cs', cw')) \<and>
    (\<exists>ss' sw'. handle_session senv (client_bytes (c_b3 cenv) m T is, []) sw = Some (Returned True, ss', sw') \<and>
       files sw' dest = Some (Regular T))"
proof -
  have d: "describes (c_b3 cenv) m T" unfolding assms(15) by (rule manifest_describes(1) [OF assms(9,10,13,14)])
  note s = network_settles [OF assms(1-9) assms(12,14,15) [unfolded assms(11)] d assms(16-19)]
  show ?thesis using s(1) [of n] s(2,3) by blast
qed

theorem network_completes_witness:
  "exchange (client_out demo_client ''localhost'' 9000 ''f'' ''a/f'' demo_source) (server_out demo_env demo_world) 6 =
     (client_bytes tagged_lib demo_manifest [1, 2, 3] [0, 1], server_bytes demo_manifest [0, 1])"
proof -
  have "exchange (client_out demo_client ''localhost'' 9000 ''f'' ''a/f'' demo_source) (server_out demo_env demo_world) (6 + 0) =
      (client_bytes (c_b3 demo_client) demo_manifest [1, 2, 3] [0, 1], server_bytes demo_manifest [0, 1]) \<and>
    (\<exists>cs' cw'. Client_send (linked demo_client (server_bytes demo_manifest [0, 1])) ''localhost'' 9000 ''f'' ''a/f'' demo_source =
       (Inr (), Some cs', cw')) \<and>
    (\<exists>ss' sw'. handle_session demo_env (client_bytes (c_b3 demo_client) demo_manifest [1, 2, 3] [0, 1], []) demo_world =
       Some (Returned True, ss', sw') \<and> files sw' ''/srv/a/f'' = Some (Regular [1, 2, 3]))"
  proof (rule network_completes [where csize = 2 and count = 2 and rs = demo_state and e = "()"])
    show "chunk_count_of (word_of_nat (length [1 :: u8, 2, 3])) 2 = Some 2" using demo_count by simp
    show "demo_manifest = manifest_of (c_b3 demo_client) [1, 2, 3] 2 2 ''a/f''" using demo_manifest_of by simp
    show "placeable demo_env demo_manifest ''/srv/a/f'' demo_world" by (rule demo_placeable)
    show "start_state demo_env demo_manifest ''/srv/a/f'' [0, 0, 0] demo_world False demo_state" by (rule demo_start)
    show "agrees_on demo_manifest [1, 2, 3] (received demo_state) [0, 0, 0]" by (rule demo_agrees)
    show "missing demo_state = Some [0, 1]" by (rule demo_missing)
    show "c_resolve demo_client ''localhost'' (dec_string (unat 9000)) = Inr ()" by (simp add: demo_client_def)
    show "opt_tls (c_opts demo_client) = None" by (simp add: demo_client_def)
  qed (simp_all add: streaming_tagged kDefaultMaxPayload_def)
  then show ?thesis by simp
qed

end
