(* ===== verification/Ftx_Limits.thy ===== *)
theory Ftx_Limits
  imports Ftx_Network
begin

text \<open>
  How large a file may be. \<^verbatim>\<open>DESIGN.md\<close> promises 16 GiB; the manifest lists the hash of every chunk and
  has to fit one frame, which bounds the number of chunks.
\<close>

subsection \<open>The size of a manifest\<close>

lemma length_manifest:
  assumes "valid_manifest m"
  shows "length (encode_manifest m) = 50 + length (path m) + 32 * unat (chunk_count m)"
proof -
  have "length (concat (chunk_hashes m)) = 32 * unat (chunk_count m)"
    using assms length_concat_const [of "chunk_hashes m" kHashSize] by (simp add: valid_manifest_def kHashSize_def)
  then show ?thesis using assms by (simp add: codec_simps valid_manifest_def kHashSize_def)
qed

lemma manifest_of_valid: "length dest < 2 ^ 16 \<Longrightarrow> valid_manifest (manifest_of lib T csize count dest)"
  by (auto simp: valid_manifest_def kHashSize_def)

lemma ceil_div_le: "0 < c \<Longrightarrow> n \<le> k * c \<Longrightarrow> (n + c - 1) div c \<le> (k :: nat)"
  by (simp add: less_Suc_eq_le [symmetric] div_less_iff_less_mult)

lemma documented_fits:
  assumes "length T \<le> 2 ^ 34" "2 ^ 14 \<le> unat csize" "length dest < 2 ^ 16"
  obtains count where "chunk_count_of (word_of_nat (length T)) csize = Some count"
    "describes lib (manifest_of lib T csize count dest) T" "valid_manifest (manifest_of lib T csize count dest)"
    "length (encode_manifest (manifest_of lib T csize count dest)) \<le> kDefaultMaxPayload"
proof -
  let ?k = "(length T + unat csize - 1) div unat csize"
  have T: "length T < 2 ^ 63" and c: "0 < csize" using assms(1,2) by (simp_all add: word_less_nat_alt)
  have "2 ^ 20 * 2 ^ 14 \<le> 2 ^ 20 * unat csize" using assms(2) by (intro mult_le_mono2)
  then have k: "?k \<le> 2 ^ 20" using assms(1,2) by (intro ceil_div_le) simp_all
  obtain count where count: "chunk_count_of (word_of_nat (length T)) csize = Some count"
    using chunk_count_of_nat [OF T] c by blast
  have "?k < 2 ^ 32" using k by simp
  note d = manifest_describes [OF T c this count]
  note v = manifest_of_valid [OF assms(3), of lib T csize count]
  have "length (encode_manifest (manifest_of lib T csize count dest)) \<le> kDefaultMaxPayload"
    using length_manifest [OF v] d(2) k assms(3) by (simp add: kDefaultMaxPayload_def)
  then show thesis using that count d(1) v by blast
qed

lemma client_manifest_oversized:
  assumes str: "streaming (c_b3 env)" and st: "awaits inb outb p T st bs os" and T: "length T < 2 ^ 63"
    and big: "kDefaultMaxPayload < length (encode_manifest (manifest_of (c_b3 env) T (opt_chunk_size (c_opts env)) count dest))"
    and inside: "\<forall>i<unat count. i * unat (opt_chunk_size (c_opts env)) \<le> length T"
  obtains st' where "client_manifest env count dest st =
      (Inl (LastError ''send MANIFEST: send_frame: payload exceeds maximum''), st')"
    "cn_stream (cs_conn st') = cn_stream (cs_conn st)" "files (cs_world st') = files (cs_world st)"
proof (cases rule: client_manifest_eq [OF str takes_sending [OF st] T refl, of count dest])
  case (1 e st1)
  then have "\<exists>i<unat count. length T < i * unat (opt_chunk_size (c_opts env))" using st by (simp add: awaits_def)
  then show thesis using inside by (meson not_le)
next
  case (2 st1)
  let ?e = "''send_frame: payload exceeds maximum''"
  show thesis using 2 big
    by (intro that [of "st1\<lparr>cs_conn := (cs_conn st1)\<lparr>cn_last_error := ?e\<rparr>\<rparr>"])
      (simp_all add: client_send_frame_def send_frame_def client_then_def)
qed

subsection \<open>Delivery\<close>

text \<open>The two programs, joined by empty streams, settle and both return true with the file in place.\<close>

definition delivers ::
    "(bytes \<times> bytes, 'h, 'e) client_env \<Rightarrow> (bytes \<times> bytes, 'h) session_env \<Rightarrow> string \<Rightarrow> u16 \<Rightarrow> string \<Rightarrow> string \<Rightarrow>
     world \<Rightarrow> world \<Rightarrow> string \<Rightarrow> bytes \<Rightarrow> bool" where
  "delivers cenv senv host port src rpath cw sw dest T \<longleftrightarrow>
     (\<exists>to_server to_client cs' cw' ss' sw'.
        (\<forall>n. exchange (client_out cenv host port src rpath cw) (server_out senv sw) (6 + n) = (to_server, to_client)) \<and>
        Client_send (linked cenv to_client) host port src rpath cw = (Inr (), Some cs', cw') \<and>
        handle_session senv (to_server, []) sw = Some (Returned True, ss', sw') \<and> files sw' dest = Some (Regular T))"

lemma documented_transfer:
  assumes "c_ops cenv = pipe_ops" "e_ops senv = pipe_ops" "e_b3 senv = c_b3 cenv" "streaming (c_b3 cenv)"
    and "c_resolve cenv host (dec_string (unat port)) = Inr e" "opt_tls (c_opts cenv) = None"
    and "files cw src = Some (Regular T)" "faults cw = []" "length T \<le> 16 * 1024 * 1024 * 1024"
    and "16 * 1024 \<le> unat (opt_chunk_size (c_opts cenv))" "unat (opt_chunk_size (c_opts cenv)) + 36 \<le> kDefaultMaxPayload"
    and "length rpath < 2 ^ 16" "resolve_dest (e_root senv) rpath = Some dest" "path_names dest \<noteq> []" "\<not> ends_in_slash dest"
    and "\<forall>p\<in>dirs_of dest. \<forall>c. files sw p \<noteq> Some (Regular c)" "writable dest sw" "files sw (state_path dest) = None"
  shows "delivers cenv senv host port src rpath cw sw dest T"
proof -
  let ?c = "opt_chunk_size (c_opts cenv)" and ?lib = "c_b3 cenv"
  have T: "length T < 2 ^ 63" "length T \<le> 2 ^ 34" and c: "2 ^ 14 \<le> unat ?c" using assms(9,10) by simp_all
  obtain count where count: "chunk_count_of (word_of_nat (length T)) ?c = Some count"
    and m: "describes ?lib (manifest_of ?lib T ?c count rpath) T" "valid_manifest (manifest_of ?lib T ?c count rpath)"
      "length (encode_manifest (manifest_of ?lib T ?c count rpath)) \<le> kDefaultMaxPayload"
    by (rule documented_fits [OF T(2) c assms(12)])
  let ?m = "manifest_of ?lib T ?c count rpath"
  let ?rs = "new_ResumeState (manifest_id senv ?m) (chunk_count ?m)" and ?v = "replicate (length T) (0 :: u8)"
  have p: "placeable senv ?m dest sw" using m(2,3) T(1) assms(13-17) by (simp add: placeable_def)
  have s: "start_state senv ?m dest ?v sw False ?rs" using T(1) assms(18) by (simp add: start_state_def)
  have "received ?rs = {}" by (rule start_state_wf(3) [OF manifest_fits_small [OF m(2,3)] s]) simp
  then have a: "agrees_on ?m T (received ?rs) ?v" by (simp add: agrees_on_def)
  obtain "is" where "is": "missing ?rs = Some is"
    using start_state_wf(1) [OF manifest_fits_small [OF m(2,3)] s] by (auto simp: missing_def missing_from_wf)
  note n = network_settles [OF assms(1-8) T(1) assms(11) count refl m(1) p s a "is"]
  from n(2,3) n(1) show ?thesis unfolding delivers_def by blast
qed

subsection \<open>Properties\<close>

text \<open>
  C7. The documented size. Every file of up to 16 GiB, sent with any chunk size from 16 KiB up to what
  fits a frame to a path of less than 64 KiB, is transferred: the manifest and every other message fit
  their frames and no count is truncated, so a client and a server joined by two streams, without
  faults and with nothing left over at the destination, both return true with the file in place.
\<close>

theorem documented_size_completes:
  assumes "c_ops cenv = pipe_ops" "e_ops senv = pipe_ops" "e_b3 senv = c_b3 cenv" "streaming (c_b3 cenv)"
    and "c_resolve cenv host (dec_string (unat port)) = Inr e" "opt_tls (c_opts cenv) = None"
    and "files cw src = Some (Regular T)" "faults cw = []" "length T \<le> 16 * 1024 * 1024 * 1024"
    and "16 * 1024 \<le> unat (opt_chunk_size (c_opts cenv))" "unat (opt_chunk_size (c_opts cenv)) + 36 \<le> kDefaultMaxPayload"
    and "length rpath < 2 ^ 16" "resolve_dest (e_root senv) rpath = Some dest" "path_names dest \<noteq> []" "\<not> ends_in_slash dest"
    and "\<forall>p\<in>dirs_of dest. \<forall>c. files sw p \<noteq> Some (Regular c)" "writable dest sw" "files sw (state_path dest) = None"
  shows "\<exists>to_server to_client cs' cw' ss' sw'.
    (\<forall>n. exchange (client_out cenv host port src rpath cw) (server_out senv sw) (6 + n) = (to_server, to_client)) \<and>
    Client_send (linked cenv to_client) host port src rpath cw = (Inr (), Some cs', cw') \<and>
    handle_session senv (to_server, []) sw = Some (Returned True, ss', sw') \<and> files sw' dest = Some (Regular T)"
  using documented_transfer [OF assms] by (simp add: delivers_def)

theorem documented_size_completes_witness:
  "\<exists>to_server to_client cs' cw' ss' sw'.
     (\<forall>n. exchange (client_out (demo_client\<lparr>c_opts := default_ClientOptions\<rparr>) ''localhost'' 9000 ''f'' ''a/f'' demo_source)
        (server_out demo_env demo_world) (6 + n) = (to_server, to_client)) \<and>
     Client_send (linked (demo_client\<lparr>c_opts := default_ClientOptions\<rparr>) to_client) ''localhost'' 9000 ''f'' ''a/f'' demo_source =
       (Inr (), Some cs', cw') \<and>
     handle_session demo_env (to_server, []) demo_world = Some (Returned True, ss', sw') \<and>
     files sw' ''/srv/a/f'' = Some (Regular [1, 2, 3])"
proof (rule documented_size_completes [where e = "()"])
  have p: "placeable demo_env demo_manifest ''/srv/a/f'' demo_world" by (rule demo_placeable)
  show "resolve_dest (e_root demo_env) ''a/f'' = Some ''/srv/a/f''" using demo_resolve by simp
  show "path_names ''/srv/a/f'' \<noteq> []" "\<not> ends_in_slash ''/srv/a/f''" "writable ''/srv/a/f'' demo_world"
    "\<forall>p\<in>dirs_of ''/srv/a/f''. \<forall>c. files demo_world p \<noteq> Some (Regular c)"
    using p by (simp_all add: placeable_def)
  show "files demo_world (state_path ''/srv/a/f'') = None" by (simp add: demo_world_def state_path_def)
qed (simp_all add: streaming_tagged kDefaultMaxPayload_def default_ClientOptions_def demo_client_def)

text \<open>
  C38. The largest file. A file with so many chunks that the manifest, 50 bytes with the path and 32 for
  every chunk, exceeds a frame is refused by the client itself: after the server's HELLO the call
  returns false with the reason and has sent nothing but its own HELLO. For the default chunk size this
  is the case above 2 TiB.
\<close>

theorem oversized_file_refused:
  assumes "reliable (c_ops env) inb outb" "streaming (c_b3 env)" "client_stream env host port s"
    and "files w src = Some (Regular T)" "faults w = []" "length T < 2 ^ 63" "length rpath < 2 ^ 16"
    and "csize = opt_chunk_size (c_opts env)" "0 < csize" "(length T + unat csize - 1) div unat csize < 2 ^ 32"
    and "kDefaultMaxPayload < 50 + length rpath + 32 * ((length T + unat csize - 1) div unat csize)"
    and "inb s = hello_wire @ bs"
  shows "\<exists>s' w'. Client_send env host port src rpath w =
      (Inl (LastError ''send MANIFEST: send_frame: payload exceeds maximum''), Some s', w') \<and>
    outb s' = outb s @ hello_wire \<and> files w' = files w"
proof -
  obtain count where count: "chunk_count_of (word_of_nat (length T)) csize = Some count"
    using chunk_count_of_nat [OF assms(6), of csize] assms(9) by blast
  let ?m = "manifest_of (c_b3 env) T csize count rpath"
  note d = manifest_describes [OF assms(6,9,10) count]
  have big: "kDefaultMaxPayload < length (encode_manifest ?m)"
    using length_manifest [OF manifest_of_valid [OF assms(7)], of "c_b3 env" T csize count] assms(11) d(2) by simp
  have inside: "\<forall>i<unat count. i * unat csize \<le> length T"
    using d(1) [of "c_b3 env" rpath] by (simp add: describes_def)
  show ?thesis
  proof (cases rule: Client_send_cases [OF assms(3,4) count [unfolded assms(8)], of rpath])
    case (1 e w')
    then show ?thesis using assms(5) by blast
  next
    case (2 st)
    have "awaits inb outb src T st (hello_wire @ bs) (outb s)" using 2 assms(5,12) by (simp add: awaits_def)
    from client_hello_takes [OF assms(1) this]
    obtain st1 where h: "client_hello env st = (Inr (), st1)" "awaits inb outb src T st1 bs (outb s @ hello_wire)"
      by (cases "client_hello env st") (auto simp: takes_def)
    obtain st2 where m: "client_manifest env count rpath st1 =
        (Inl (LastError ''send MANIFEST: send_frame: payload exceeds maximum''), st2)"
      "cn_stream (cs_conn st2) = cn_stream (cs_conn st1)" "files (cs_world st2) = files (cs_world st1)"
      by (rule client_manifest_oversized [OF assms(2) h(2) assms(6) big [unfolded assms(8)] inside [unfolded assms(8)]])
    have "files (cs_world st1) = files w"
      using client_hello_safe [OF 2(2), of env] h(1) 2(4) by (simp add: client_safe_def)
    then show ?thesis
      using 2(1) h m close_reliable [OF assms(1), of "cs_conn st2"]
      by (simp add: client_transfer_def client_then_def awaits_def)
  qed
qed

text \<open>With chunks of one byte two million of them are too many.\<close>

theorem oversized_file_refused_witness:
  "\<exists>s' w'. Client_send (demo_client\<lparr>c_opts := \<lparr>opt_chunk_size = 1, opt_tls = None\<rparr>, c_connect := \<lambda>_. Inr (hello_wire, [])\<rparr>)
       ''localhost'' 9000 ''f'' ''a/f'' \<lparr>files = [''f'' \<mapsto> Regular (replicate (2 ^ 21) 0)], faults = []\<rparr> =
     (Inl (LastError ''send MANIFEST: send_frame: payload exceeds maximum''), Some s', w') \<and> snd s' = hello_wire"
proof -
  let ?env = "demo_client\<lparr>c_opts := \<lparr>opt_chunk_size = 1, opt_tls = None\<rparr>, c_connect := \<lambda>_. Inr (hello_wire, [])\<rparr>"
  let ?w = "\<lparr>files = [''f'' \<mapsto> Regular (replicate (2 ^ 21) 0)], faults = []\<rparr>"
  have rel: "reliable (c_ops ?env) fst snd" and str: "streaming (c_b3 ?env)" by (simp_all add: reliable_pipe streaming_tagged)
  have s: "client_stream ?env ''localhost'' 9000 (hello_wire, [])"
    by (simp add: client_stream_def client_connect_def client_secure_def demo_client_def Connection_plain_def)
  have f: "files ?w ''f'' = Some (Regular (replicate (2 ^ 21) 0))" "faults ?w = []" by simp_all
  have c: "(1 :: u32) = opt_chunk_size (c_opts ?env)" "0 < (1 :: u32)" by simp_all
  have i: "fst (hello_wire, []) = hello_wire @ []" by simp
  from oversized_file_refused [OF rel str s f _ _ c _ _ i, of "''a/f''"]
  show ?thesis by (simp add: kDefaultMaxPayload_def) blast
qed

end
