(* ===== verification/Ftx_Daemon.thy ===== *)
theory Ftx_Daemon
  imports Ftx_Session
begin

text \<open>
  \<^verbatim>\<open>src/lib/transport/server.cpp\<close>: construction of a server, the accept loop \<^verbatim>\<open>run\<close> and \<^verbatim>\<open>stop\<close>. The
  loop and the thread that calls \<^verbatim>\<open>stop\<close> share the stop flag and the acceptor, and interleave; each
  access is a step of its own. A session runs in a detached thread: the loop hands it the socket and
  goes on. The acceptor belongs to asio: its calls may fail, and a closed acceptor accepts nothing.
\<close>

subsection \<open>Construction\<close>

datatype acceptor_call = AcOpen | AcReuseAddress | AcBind | AcListen

datatype server_exception = TlsThrown tls_exception | AcceptorThrown acceptor_call string

text \<open>Whether a call throws, and its message, is an argument. The calls stop at the first that does.\<close>

fun acceptor_calls :: "(acceptor_call \<Rightarrow> string option) \<Rightarrow> acceptor_call list \<Rightarrow> server_exception option" where
  "acceptor_calls throws [] = None"
| "acceptor_calls throws (c # cs) =
     (case throws c of Some e \<Rightarrow> Some (AcceptorThrown c e) | None \<Rightarrow> acceptor_calls throws cs)"

definition open_acceptor :: "(acceptor_call \<Rightarrow> string option) \<Rightarrow> server_exception option" where
  "open_acceptor throws = acceptor_calls throws [AcOpen, AcReuseAddress, AcBind, AcListen]"

record Server =
  sv_root :: string
  sv_ssl_ctx :: "ssl_context option"

definition Server_plain ::
    "(acceptor_call \<Rightarrow> string option) \<Rightarrow> string \<Rightarrow> world \<Rightarrow> (server_exception + Server) \<times> world" where
  "Server_plain throws root w =
     (let w = fs_create_directories w root
      in case open_acceptor throws of
           Some e \<Rightarrow> (Inl e, w)
         | None \<Rightarrow> (Inr \<lparr>sv_root = root, sv_ssl_ctx = None\<rparr>, w))"

definition Server_tls ::
    "tls_files \<Rightarrow> (acceptor_call \<Rightarrow> string option) \<Rightarrow> string \<Rightarrow> TlsConfig \<Rightarrow> world \<Rightarrow> (server_exception + Server) \<times> world" where
  "Server_tls fl throws root tls w =
     (case make_server_tls_context fl tls of
        Inl e \<Rightarrow> (Inl (TlsThrown e), w)
      | Inr ctx \<Rightarrow>
          (let w = fs_create_directories w root
           in case open_acceptor throws of
                Some e \<Rightarrow> (Inl e, w)
              | None \<Rightarrow> (Inr \<lparr>sv_root = root, sv_ssl_ctx = Some ctx\<rparr>, w)))"

subsection \<open>The accept loop\<close>

datatype loop_pc = LoopTop | Accepting | Exited

record 's daemon =
  dm_stop_flag :: bool
  dm_acceptor_open :: bool
  dm_pc :: loop_pc
  dm_spawned :: "'s list"

definition new_daemon :: "'s daemon" where
  "new_daemon = \<lparr>dm_stop_flag = False, dm_acceptor_open = True, dm_pc = LoopTop, dm_spawned = []\<rparr>"

text \<open>\<^verbatim>\<open>while (!stop_flag_) { accept ...\<close>: the test, and what follows a finished accept.\<close>

definition loop_test :: "'s daemon \<Rightarrow> 's daemon" where
  "loop_test d = d\<lparr>dm_pc := if dm_stop_flag d then Exited else Accepting\<rparr>"

definition accept_result :: "string + 's \<Rightarrow> 's daemon \<Rightarrow> 's daemon" where
  "accept_result r d =
     (case r of
        Inl ec \<Rightarrow> if dm_stop_flag d then d\<lparr>dm_pc := Exited\<rparr> else d\<lparr>dm_pc := LoopTop\<rparr>
      | Inr socket \<Rightarrow> d\<lparr>dm_pc := LoopTop, dm_spawned := dm_spawned d @ [socket]\<rparr>)"

text \<open>\<^verbatim>\<open>stop\<close>: the store, then the close.\<close>

definition stop_store :: "'s daemon \<Rightarrow> 's daemon" where
  "stop_store d = d\<lparr>dm_stop_flag := True\<rparr>"

definition stop_close :: "'s daemon \<Rightarrow> 's daemon" where
  "stop_close d = d\<lparr>dm_acceptor_open := False\<rparr>"

inductive loop_step :: "'s daemon \<Rightarrow> 's daemon \<Rightarrow> bool" where
  test: "dm_pc d = LoopTop \<Longrightarrow> loop_step d (loop_test d)"
| accept_ok: "dm_pc d = Accepting \<Longrightarrow> dm_acceptor_open d \<Longrightarrow> loop_step d (accept_result (Inr socket) d)"
| accept_error: "dm_pc d = Accepting \<Longrightarrow> loop_step d (accept_result (Inl ec) d)"

inductive daemon_step :: "'s daemon \<Rightarrow> 's daemon \<Rightarrow> bool" where
  loop: "loop_step d d' \<Longrightarrow> daemon_step d d'"
| store: "daemon_step d (stop_store d)"
| close: "dm_stop_flag d \<Longrightarrow> daemon_step d (stop_close d)"

inductive_cases loop_stepE: "loop_step d d'"
inductive_cases daemon_stepE: "daemon_step d d'"

abbreviation daemon_runs :: "'s daemon \<Rightarrow> 's daemon \<Rightarrow> bool" where
  "daemon_runs \<equiv> daemon_step\<^sup>*\<^sup>*"

lemmas daemon_defs = loop_test_def accept_result_def stop_store_def stop_close_def

subsection \<open>Invariants\<close>

text \<open>The loop has ended, or the acceptor is closed, only after a call of \<^verbatim>\<open>stop\<close>.\<close>

definition daemon_inv :: "'s daemon \<Rightarrow> bool" where
  "daemon_inv d \<longleftrightarrow> (dm_pc d = Exited \<or> \<not> dm_acceptor_open d \<longrightarrow> dm_stop_flag d)"

lemma daemon_inv_step: "daemon_step d d' \<Longrightarrow> daemon_inv d \<Longrightarrow> daemon_inv d'"
  by (auto elim!: daemon_stepE loop_stepE simp: daemon_defs daemon_inv_def split: if_splits)

lemma daemon_inv_runs: "daemon_runs d d' \<Longrightarrow> daemon_inv d \<Longrightarrow> daemon_inv d'"
  by (induction rule: rtranclp_induct) (auto dest: daemon_inv_step)

text \<open>Once the flag is set, an accept that is already under way can still hand over one socket.\<close>

definition pending :: "'s daemon \<Rightarrow> nat" where
  "pending d = (if dm_pc d = Accepting then 1 else 0)"

lemma stopping_step:
  "daemon_step d d' \<Longrightarrow> dm_stop_flag d \<Longrightarrow>
     dm_stop_flag d' \<and> length (dm_spawned d') + pending d' \<le> length (dm_spawned d) + pending d \<and>
     take (length (dm_spawned d)) (dm_spawned d') = dm_spawned d"
  by (auto elim!: daemon_stepE loop_stepE simp: daemon_defs pending_def split: if_splits)

lemma stopping_runs:
  "daemon_runs d d' \<Longrightarrow> dm_stop_flag d \<Longrightarrow>
     dm_stop_flag d' \<and> length (dm_spawned d') + pending d' \<le> length (dm_spawned d) + pending d"
  by (induction rule: rtranclp_induct) (auto dest: stopping_step)

lemma stopped_step:
  "loop_step d d' \<Longrightarrow> dm_stop_flag d \<Longrightarrow> \<not> dm_acceptor_open d \<Longrightarrow>
     dm_pc d' = Exited \<and> dm_spawned d' = dm_spawned d"
  by (auto elim!: loop_stepE simp: daemon_defs split: if_splits)

subsection \<open>Properties\<close>



end
