(* ===== verification/Ftx_Cli.thy ===== *)
theory Ftx_Cli
  imports Ftx_Client Ftx_Daemon
begin

text \<open>
  \<^verbatim>\<open>src/cli/main.cpp\<close>: the two subcommands behind the argument parser. The parser (CLI11), the
  conversion of an address and the endpoints of asio are arguments; the options a command line leaves
  unset have the values of the option structures.
\<close>

record CommonTlsArgs =
  tls_cert :: string
  tls_key :: string
  tls_ca :: string
  no_verify_peer :: bool
  tls_sni :: string
  insecure :: bool

definition default_CommonTlsArgs :: CommonTlsArgs where
  "default_CommonTlsArgs =
     \<lparr>tls_cert = '''', tls_key = '''', tls_ca = '''', no_verify_peer = False, tls_sni = '''', insecure = False\<rparr>"

record ServeOpts =
  listen_addr :: string
  serve_root :: string
  serve_tls :: CommonTlsArgs

definition default_ServeOpts :: ServeOpts where
  "default_ServeOpts = \<lparr>listen_addr = ''0.0.0.0:9000'', serve_root = '''', serve_tls = default_CommonTlsArgs\<rparr>"

record SendOpts =
  send_remote :: string
  send_source :: string
  send_out :: string
  send_chunk_size :: u32
  send_tls :: CommonTlsArgs

definition default_SendOpts :: SendOpts where
  "default_SendOpts =
     \<lparr>send_remote = '''', send_source = '''', send_out = '''', send_chunk_size = 1 * 1024 * 1024,
      send_tls = default_CommonTlsArgs\<rparr>"

subsection \<open>Host and port\<close>

definition is_space_char :: "char \<Rightarrow> bool" where
  "is_space_char c \<longleftrightarrow> (let n = (of_char c :: nat) in 9 \<le> n \<and> n \<le> 13 \<or> n = 32)"

definition is_digit_char :: "char \<Rightarrow> bool" where
  "is_digit_char c \<longleftrightarrow> (let n = (of_char c :: nat) in 48 \<le> n \<and> n \<le> 57)"

definition digits_value :: "string \<Rightarrow> nat" where
  "digits_value ds = foldl (\<lambda>n c. 10 * n + (of_char c - 48)) 0 ds"

text \<open>
  \<^verbatim>\<open>std::stoi\<close>: leading white space, an optional sign and the longest run of digits; what follows is
  ignored. It throws (\<^const>\<open>None\<close>) without a digit and outside the range of an \<^verbatim>\<open>int\<close>.
\<close>

definition stoi :: "string \<Rightarrow> int option" where
  "stoi s =
     (let s = dropWhile is_space_char s;
          neg = (s \<noteq> [] \<and> hd s = CHR ''-'');
          s = (if s \<noteq> [] \<and> (hd s = CHR ''-'' \<or> hd s = CHR ''+'') then tl s else s);
          ds = takeWhile is_digit_char s;
          v = (if neg then - int (digits_value ds) else int (digits_value ds))
      in if ds = [] \<or> v < - (2 ^ 31) \<or> v > 2 ^ 31 - 1 then None else Some v)"

definition parse_host_port :: "string \<Rightarrow> (string \<times> u16) option" where
  "parse_host_port s =
     (let port_str = rev (takeWhile (\<lambda>c. c \<noteq> CHR '':'') (rev s));
          host = take (length s - length port_str - 1) s
      in if CHR '':'' \<notin> set s \<or> port_str = [] then None
         else case stoi port_str of
             None \<Rightarrow> None
           | Some p \<Rightarrow> if p < 1 \<or> p > 65535 then None else Some (host, word_of_int p))"

subsection \<open>Commands\<close>

definition build_tls_config :: "CommonTlsArgs \<Rightarrow> bool \<Rightarrow> TlsConfig option" where
  "build_tls_config a is_server =
     (if insecure a then None
      else if tls_cert a = '''' \<or> tls_key a = '''' then None
      else Some \<lparr>cert_path = tls_cert a, key_path = tls_key a, ca_path = tls_ca a,
                 verify_peer = \<not> no_verify_peer a,
                 sni_host = (if \<not> is_server then tls_sni a else '''')\<rparr>)"

text \<open>
  \<^verbatim>\<open>run_serve\<close>: it returns an exit code, or a constructor throws, or a server is built and its accept
  loop runs; after the loop the exit code is zero.
\<close>

datatype 'a serve_outcome = ServeExit int | ServeThrown server_exception | ServeRun Server "'a option \<times> u16"

definition run_serve ::
    "(string \<Rightarrow> string + 'a) \<Rightarrow> tls_files \<Rightarrow> (acceptor_call \<Rightarrow> string option) \<Rightarrow> ServeOpts \<Rightarrow> world \<Rightarrow>
     'a serve_outcome \<times> world" where
  "run_serve make_address fl throws opts w =
     (case parse_host_port (listen_addr opts) of
        None \<Rightarrow> (ServeExit 2, w)
      | Some (host, port) \<Rightarrow>
          (case (if host = ''0.0.0.0'' then Inr None
                 else case make_address host of Inl ec \<Rightarrow> Inl ec | Inr a \<Rightarrow> Inr (Some a)) of
             Inl ec \<Rightarrow> (ServeExit 2, w)
           | Inr addr \<Rightarrow>
               if insecure (serve_tls opts) then
                 (case Server_plain throws (serve_root opts) w of
                    (Inl e, w) \<Rightarrow> (ServeThrown e, w)
                  | (Inr srv, w) \<Rightarrow> (ServeRun srv (addr, port), w))
               else case build_tls_config (serve_tls opts) True of
                   None \<Rightarrow> (ServeExit 2, w)
                 | Some tls \<Rightarrow>
                     (case Server_tls fl throws (serve_root opts) tls w of
                        (Inl e, w) \<Rightarrow> (ServeThrown e, w)
                      | (Inr srv, w) \<Rightarrow> (ServeRun srv (addr, port), w))))"

text \<open>\<^verbatim>\<open>run_send\<close>; the options of the client's environment are replaced by those of the command.\<close>

datatype send_outcome = SendExit int | SendThrown tls_exception | SendUndefined

definition run_send ::
    "('s, 'h, 'e) client_env \<Rightarrow> SendOpts \<Rightarrow> world \<Rightarrow> send_outcome \<times> 's option \<times> world" where
  "run_send env opts w =
     (case parse_host_port (send_remote opts) of
        None \<Rightarrow> (SendExit 2, None, w)
      | Some (host, port) \<Rightarrow>
          (let remote_dest = (if send_out opts = '''' then path_filename (send_source opts) else send_out opts);
               tls = (if insecure (send_tls opts) then None else build_tls_config (send_tls opts) False)
           in if \<not> insecure (send_tls opts) \<and> tls = None then (SendExit 2, None, w)
              else let env = env\<lparr>c_opts := \<lparr>opt_chunk_size = send_chunk_size opts, opt_tls = tls\<rparr>\<rparr>
                   in case Client_send env host port (send_source opts) remote_dest w of
                        (Inr _, s, w) \<Rightarrow> (SendExit 0, s, w)
                      | (Inl (LastError e), s, w) \<Rightarrow> (SendExit 1, s, w)
                      | (Inl (Thrown e), s, w) \<Rightarrow> (SendThrown e, s, w)
                      | (Inl ClientUndefined, s, w) \<Rightarrow> (SendUndefined, s, w)))"

text \<open>\<^verbatim>\<open>main\<close> after a successful parse: a thrown exception is reported with exit code 3.\<close>

datatype command = CmdServe ServeOpts | CmdSend SendOpts

datatype 'a main_outcome = MainExit int | MainServe Server "'a option \<times> u16" | MainUndefined

definition main_dispatch ::
    "(string \<Rightarrow> string + 'a) \<Rightarrow> (acceptor_call \<Rightarrow> string option) \<Rightarrow> ('s, 'h, 'e) client_env \<Rightarrow> command \<Rightarrow> world \<Rightarrow>
     'a main_outcome \<times> world" where
  "main_dispatch make_address throws env cmd w =
     (case cmd of
        CmdServe opts \<Rightarrow>
          (case run_serve make_address (c_tls_files env) throws opts w of
             (ServeExit n, w) \<Rightarrow> (MainExit n, w)
           | (ServeThrown e, w) \<Rightarrow> (MainExit 3, w)
           | (ServeRun srv ep, w) \<Rightarrow> (MainServe srv ep, w))
      | CmdSend opts \<Rightarrow>
          (case run_send env opts w of
             (SendExit n, _, w) \<Rightarrow> (MainExit n, w)
           | (SendThrown e, _, w) \<Rightarrow> (MainExit 3, w)
           | (SendUndefined, _, w) \<Rightarrow> (MainUndefined, w)))"


subsection \<open>Decimal numbers\<close>

lemma of_char_digit: "d < 10 \<Longrightarrow> of_char (char_of (48 + d :: nat)) = (48 + d :: nat)"
  by simp

lemma dec_string_digits: "\<forall>c\<in>set (dec_string n). is_digit_char c" "dec_string n \<noteq> []"
proof -
  show "\<forall>c\<in>set (dec_string n). is_digit_char c"
  proof (induction n rule: dec_string.induct)
    case (1 n)
    then show ?case by (subst dec_string.simps) (auto simp: is_digit_char_def Let_def)
  qed
  show "dec_string n \<noteq> []" by (subst dec_string.simps) simp
qed

lemma digits_value_append: "digits_value (ds @ [c]) = 10 * digits_value ds + (of_char c - 48)"
  by (simp add: digits_value_def)

lemma digits_value_dec_string: "digits_value (dec_string n) = n"
proof (induction n rule: dec_string.induct)
  case (1 n)
  then show ?case
    by (subst dec_string.simps) (simp add: digits_value_append, simp add: digits_value_def)
qed

lemma stoi_dec_string:
  assumes "n < 2 ^ 31" "junk = [] \<or> \<not> is_digit_char (hd junk)"
  shows "stoi (dec_string n @ junk) = Some (int n)"
proof -
  obtain c cs where c: "dec_string n = c # cs" using dec_string_digits(2) by (cases "dec_string n") auto
  have d: "is_digit_char c" using dec_string_digits(1) [of n] c by simp
  then have "\<not> is_space_char c" "c \<noteq> CHR ''-''" "c \<noteq> CHR ''+''"
    by (auto simp: is_digit_char_def is_space_char_def Let_def)
  moreover have "takeWhile is_digit_char (dec_string n @ junk) = dec_string n"
    using dec_string_digits(1) [of n] assms(2) by (cases junk) (auto simp: takeWhile_append2)
  ultimately show ?thesis
    using c assms(1) digits_value_dec_string [of n] by (simp add: stoi_def Let_def)
qed

lemma parse_split:
  assumes "CHR '':'' \<notin> set tail"
  shows "parse_host_port (host @ '':'' @ tail) =
    (if tail = [] then None
     else case stoi tail of None \<Rightarrow> None
          | Some p \<Rightarrow> if p < 1 \<or> p > 65535 then None else Some (host, word_of_int p))"
proof -
  have "takeWhile (\<lambda>c. c \<noteq> CHR '':'') (rev tail @ CHR '':'' # rev host) = rev tail"
    using assms by (subst takeWhile_append2) auto
  then show ?thesis by (cases "stoi tail") (simp_all add: parse_host_port_def Let_def)
qed

lemma parse_shape:
  assumes "CHR '':'' \<in> set s"
  obtains host tail where "s = host @ '':'' @ tail" "CHR '':'' \<notin> set tail"
  using split_list_last [OF assms] by auto

subsection \<open>Properties\<close>

text \<open>
  C34. Addresses: a string is accepted exactly when what follows its last colon is a number from 1 to
  65535 as \<^verbatim>\<open>std::stoi\<close> reads it, and the host is what precedes that colon. In particular a host, a
  colon and a printed port are parsed back, and so they are with anything but a digit and a colon
  behind the port.
\<close>

theorem parse_host_port_exact:
  "(parse_host_port s = Some (host, port) \<longleftrightarrow>
     (\<exists>tail p. s = host @ '':'' @ tail \<and> CHR '':'' \<notin> set tail \<and> stoi tail = Some p \<and> 1 \<le> p \<and> p \<le> 65535 \<and>
        port = word_of_int p)) \<and>
   (0 < port \<and> CHR '':'' \<notin> set junk \<and> (junk = [] \<or> \<not> is_digit_char (hd junk)) \<longrightarrow>
      parse_host_port (host @ '':'' @ dec_string (unat port) @ junk) = Some (host, port))"
proof (intro conjI impI)
  have no_digits: "stoi [] = None" by (simp add: stoi_def)
  show "parse_host_port s = Some (host, port) \<longleftrightarrow>
     (\<exists>tail p. s = host @ '':'' @ tail \<and> CHR '':'' \<notin> set tail \<and> stoi tail = Some p \<and> 1 \<le> p \<and> p \<le> 65535 \<and>
        port = word_of_int p)"
  proof
    assume l: "parse_host_port s = Some (host, port)"
    then have "CHR '':'' \<in> set s" by (auto simp: parse_host_port_def Let_def split: if_splits)
    then obtain h tail where s: "s = h @ '':'' @ tail" "CHR '':'' \<notin> set tail" by (rule parse_shape)
    then show "\<exists>tail p. s = host @ '':'' @ tail \<and> CHR '':'' \<notin> set tail \<and> stoi tail = Some p \<and> 1 \<le> p \<and> p \<le> 65535 \<and>
        port = word_of_int p"
      using l unfolding s(1) parse_split [OF s(2)] by (auto split: if_splits option.splits)
  next
    assume "\<exists>tail p. s = host @ '':'' @ tail \<and> CHR '':'' \<notin> set tail \<and> stoi tail = Some p \<and> 1 \<le> p \<and> p \<le> 65535 \<and>
        port = word_of_int p"
    then show "parse_host_port s = Some (host, port)" using no_digits parse_split by (auto split: if_splits)
  qed
next
  assume a: "0 < port \<and> CHR '':'' \<notin> set junk \<and> (junk = [] \<or> \<not> is_digit_char (hd junk))"
  have "\<not> is_digit_char CHR '':''" by (simp add: is_digit_char_def)
  then have "CHR '':'' \<notin> set (dec_string (unat port) @ junk)" using a dec_string_digits(1) [of "unat port"] by auto
  moreover have b: "0 < unat port" "unat port < 65536" using a unat_less_u16 [of port] by (simp_all add: word_less_nat_alt)
  moreover have "stoi (dec_string (unat port) @ junk) = Some (int (unat port))"
    using a b by (intro stoi_dec_string) simp_all
  moreover have "uint port = int (unat port)" by simp
  then have "\<not> uint port < 1 \<and> \<not> 65535 < uint port" using b by linarith
  ultimately show "parse_host_port (host @ '':'' @ dec_string (unat port) @ junk) = Some (host, port)"
    using dec_string_digits(2) [of "unat port"] parse_split [of "dec_string (unat port) @ junk" host] by simp
qed

theorem parse_host_port_exact_witness:
  "parse_host_port ''::1:9000'' = Some (''::1'', 9000) \<and> parse_host_port ''h:9000abc'' = Some (''h'', 9000)"
proof -
  have d: "dec_string (unat (9000 :: u16)) = ''9000''"
    by (simp add: dec_string.simps [of 9000] dec_string.simps [of 900] dec_string.simps [of 90] dec_string.simps [of 9]) code_simp
  have "\<not> is_digit_char CHR ''a''" by code_simp
  then have "parse_host_port (''h'' @ '':'' @ dec_string (unat (9000 :: u16)) @ ''abc'') = Some (''h'', 9000)"
    by (intro conjunct2 [OF parse_host_port_exact [of "''''"], rule_format]) simp
  moreover have "parse_host_port (''::1'' @ '':'' @ dec_string (unat (9000 :: u16)) @ []) = Some (''::1'', 9000)"
    by (intro conjunct2 [OF parse_host_port_exact [of "''''"], rule_format]) simp
  ultimately show ?thesis unfolding d by simp
qed


text \<open>
  TLS by default. A server the command line starts has a TLS context exactly when \<^verbatim>\<open>--insecure\<close> is
  not given; the context is for TLS 1.3 alone and, unless \<^verbatim>\<open>--no-verify-peer\<close> is given, requires and
  verifies the client's certificate.
\<close>

lemma serve_tls_by_default:
  assumes "run_serve make_address fl throws opts w = (ServeRun srv ep, w')"
  shows "(sv_ssl_ctx srv = None \<longleftrightarrow> insecure (serve_tls opts)) \<and> sv_root srv = serve_root opts \<and>
    (\<forall>ctx. sv_ssl_ctx srv = Some ctx \<longrightarrow> tls13_only ctx \<and>
       (\<not> no_verify_peer (serve_tls opts) \<longrightarrow>
          set (ctx_verify_mode ctx) = {verify_peer_flag, verify_fail_if_no_peer_cert}))"
proof (cases "insecure (serve_tls opts)")
  case True
  then have "\<exists>w0. Server_plain throws (serve_root opts) w0 = (Inr srv, w')"
    using assms by (auto simp: run_serve_def split: option.splits prod.splits sum.splits if_splits)
  then show ?thesis using True by (auto simp: Server_plain_def Let_def split: option.splits)
next
  case False
  then obtain tls where t: "build_tls_config (serve_tls opts) True = Some tls"
    "Server_tls fl throws (serve_root opts) tls w = (Inr srv, w')"
    using assms by (auto simp: run_serve_def split: option.splits prod.splits sum.splits if_splits)
  obtain ctx where c: "make_server_tls_context fl tls = Inr ctx" "srv = \<lparr>sv_root = serve_root opts, sv_ssl_ctx = Some ctx\<rparr>"
    using t(2) by (auto simp: Server_tls_def Let_def split: sum.splits option.splits)
  have "verify_peer tls = (\<not> no_verify_peer (serve_tls opts))"
    using t(1) by (auto simp: build_tls_config_def split: if_splits)
  then show ?thesis using False c server_context_Inr(1,2) [OF c(1)] by simp
qed




subsection \<open>The version\<close>

text \<open>\<^verbatim>\<open>include/ftx/version.hpp\<close> and \<^verbatim>\<open>src/lib/version.cpp\<close>.\<close>

definition ftx_kVersion :: string where
  "ftx_kVersion = ''0.1.0''"

definition version :: string where
  "version = ftx_kVersion"

end
