(* ===== verification/Ftx_Bench.thy ===== *)
theory Ftx_Bench
  imports Ftx_Limits Ftx_Cli
begin

text \<open>
  \<^verbatim>\<open>bench/throughput_bench.cpp\<close>, a probe that transfers a file of random bytes over the loopback
  interface: the argument, the working directory, the source file and the server. What a draw from the
  random generator gives depends on the library's \<^verbatim>\<open>uniform_int_distribution\<close>, the clock and the thread's
  name on the machine: arguments. The measurement and the removal of the working directory are left
  out.
\<close>

subsection \<open>The probe\<close>

text \<open>
  \<^verbatim>\<open>std::strtoull(s, nullptr, 10)\<close>: leading white space, an optional sign and the longest run of digits;
  zero without a digit, the largest value when out of range, and a minus sign negates in 64 bits.
\<close>

definition strtoull :: "string \<Rightarrow> u64" where
  "strtoull s =
     (let s = dropWhile is_space_char s;
          neg = (s \<noteq> [] \<and> hd s = CHR ''-'');
          s = (if s \<noteq> [] \<and> (hd s = CHR ''-'' \<or> hd s = CHR ''+'') then tl s else s);
          n = digits_value (takeWhile is_digit_char s)
      in if n \<ge> 2 ^ 64 then - 1 else if neg then - word_of_nat n else word_of_nat n)"

definition bench_size :: "string list \<Rightarrow> u64" where
  "bench_size argv =
     (let size_mib = (if length argv \<ge> 2 then strtoull (argv ! 1) else 256)
      in size_mib * 1024 * 1024)"

definition bench_chunk_sizes :: "u32 list" where
  "bench_chunk_sizes = [64 * 1024, 256 * 1024, 1024 * 1024, 4 * 1024 * 1024]"

record 'g bench_env =
  b_temp :: string
  b_stamp :: u64
  b_thread :: string
  b_rng :: 'g
  b_draw :: "'g \<Rightarrow> u8 \<times> 'g"

text \<open>\<^verbatim>\<open>create_directories\<close> without an error code throws, and nothing catches.\<close>

definition require_directories :: "world \<Rightarrow> string \<Rightarrow> bool \<times> world" where
  "require_directories w p = (let w = fs_create_directories w p in (files w p = Some Directory, w))"

definition mk_temp_dir :: "'g bench_env \<Rightarrow> world \<Rightarrow> string option \<times> world" where
  "mk_temp_dir env w =
     (let dir = path_append (b_temp env) (''ftx-bench-'' @ dec_string (unat (b_stamp env)) @ ''-'' @ b_thread env);
          (ok, w) = require_directories w dir
      in (if ok then Some dir else None, w))"

definition kBlock :: nat where
  "kBlock = 1024 * 1024"

fun draws :: "('g \<Rightarrow> u8 \<times> 'g) \<Rightarrow> nat \<Rightarrow> 'g \<Rightarrow> bytes \<times> 'g" where
  "draws draw 0 g = ([], g)"
| "draws draw (Suc n) g = (let (b, g) = draw g; (bs, g) = draws draw n g in (b # bs, g))"

lemma block_decreases: "todo \<noteq> 0 \<Longrightarrow> unat (todo - word_of_nat (min kBlock (unat todo)) :: u64) < unat todo"
  by (cases "kBlock \<le> unat todo") (auto simp: kBlock_def unat_sub word_le_nat_alt min_def unat_gt_0)

text \<open>The loop; a stream that did not open ignores what is written.\<close>

function write_blocks :: "('g \<Rightarrow> u8 \<times> 'g) \<Rightarrow> u64 \<Rightarrow> 'g \<Rightarrow> ofstream \<Rightarrow> world \<Rightarrow> ofstream \<times> world" where
  "write_blocks draw todo g f w =
     (if todo = 0 then (f, w)
      else let n = min kBlock (unat todo);
               (d, g) = draws draw n g;
               (f, w) = (if os_open f then os_write w f d else (f, w))
           in write_blocks draw (todo - word_of_nat n) g f w)"
  by pat_completeness auto

termination
  by (relation "measure (\<lambda>(draw, todo, g, f, w). unat todo)") (simp_all add: block_decreases)

declare write_blocks.simps [simp del]

definition write_random :: "'g bench_env \<Rightarrow> string \<Rightarrow> u64 \<Rightarrow> world \<Rightarrow> world" where
  "write_random env p sz w =
     (let (f, w) = os_open_trunc w p;
          (f, w) = write_blocks (b_draw env) sz (b_rng env) f w
      in if os_open f then snd (os_close w f) else w)"

text \<open>\<^verbatim>\<open>run_one\<close> up to the transfer: \<^const>\<open>None\<close> where an exception ends the program.\<close>

definition bench_setup ::
    "'g bench_env \<Rightarrow> (acceptor_call \<Rightarrow> string option) \<Rightarrow> u64 \<Rightarrow> world \<Rightarrow> (string \<times> Server) option \<times> world" where
  "bench_setup env throws size_bytes w =
     (case mk_temp_dir env w of
        (None, w) \<Rightarrow> (None, w)
      | (Some work, w) \<Rightarrow>
          (let root = path_append work ''recv'';
               src = path_append work ''src.bin'';
               (ok, w) = require_directories w root
           in if \<not> ok then (None, w)
              else let w = write_random env src size_bytes w
                   in case Server_plain throws root w of
                        (Inl e, w) \<Rightarrow> (None, w)
                      | (Inr srv, w) \<Rightarrow> (Some (src, srv), w)))"

definition bench_options :: "u32 \<Rightarrow> ClientOptions" where
  "bench_options cs = default_ClientOptions\<lparr>opt_chunk_size := cs\<rparr>"

subsection \<open>The source file\<close>

lemma draws_append: "draws draw (m + n) g = (let (a, g) = draws draw m g; (b, g) = draws draw n g in (a @ b, g))"
  by (induction m arbitrary: g) (simp_all add: split_beta Let_def)

lemma length_draws [simp]: "length (fst (draws draw n g)) = n"
  by (induction n arbitrary: g) (simp_all add: split_beta Let_def)

lemma write_blocks_quiet:
  assumes "faults w = []" "os_open f" "os_good f"
  shows "write_blocks draw r g f w = (f\<lparr>os_pending := os_pending f @ fst (draws draw (unat r) g)\<rparr>, w)"
  using assms
proof (induction draw r g f w rule: write_blocks.induct)
  case (1 draw r g f w)
  let ?n = "min kBlock (unat r)"
  show ?case
  proof (cases "r = 0")
    case True
    then show ?thesis by (subst write_blocks.simps) simp
  next
    case False
    obtain d g' where d: "draws draw ?n g = (d, g')" by fastforce
    let ?f = "f\<lparr>os_pending := os_pending f @ d\<rparr>"
    have w: "(if os_open f then os_write w f d else (f, w)) = (?f, w)" using "1.prems" by (simp add: os_write_def fs_simps)
    have r: "unat r = ?n + unat (r - word_of_nat ?n)"
      by (cases "kBlock \<le> unat r") (auto simp: kBlock_def unat_sub word_le_nat_alt min_def)
    have "fst (draws draw (unat r) g) = d @ fst (draws draw (unat (r - word_of_nat ?n)) g')"
      using draws_append [of draw ?n "unat (r - word_of_nat ?n)" g] d r by (simp add: split_beta Let_def)
    then show ?thesis
      using "1.IH" [OF False refl d [symmetric] refl w [symmetric] refl] "1.prems" False d w
      by (subst write_blocks.simps) simp
  qed
qed

lemma write_random_quiet:
  assumes "faults w = []" "files w p \<noteq> Some Directory"
  shows "files (write_random env p sz w) = (files w)(p \<mapsto> Regular (fst (draws (b_draw env) (unat sz) (b_rng env))))"
    "faults (write_random env p sz w) = []"
  using assms
  by (simp_all add: write_random_def os_open_trunc_def fs_simps write_blocks_quiet opened_ofstream_def os_close_def os_sync_def
      os_drain_def content_def overwrite_def fun_eq_iff)

lemma dir_prefixes_shorter: "length d < length p \<Longrightarrow> p \<notin> set (dir_prefixes d)"
  by (auto simp: dir_prefixes_def)

lemma bench_setup_result:
  assumes r: "bench_setup env throws sz w = (Some (src, srv), w')" and w: "faults w = []" "files w src \<noteq> Some Directory"
  shows "files w' src = Some (Regular (fst (draws (b_draw env) (unat sz) (b_rng env))))" "faults w' = []" "sv_ssl_ctx srv = None"
proof -
  obtain work w1 where 1: "mk_temp_dir env w = (Some work, w1)"
    using r by (auto simp: bench_setup_def split: prod.splits option.splits)
  let ?root = "path_append work ''recv''" and ?src = "path_append work ''src.bin''"
  let ?w1 = "fs_create_directories w work" and ?w2 = "fs_create_directories (fs_create_directories w work) ?root"
  have "w1 = ?w1" using 1 by (auto simp: mk_temp_dir_def require_directories_def Let_def split: if_splits)
  then have s: "src = ?src" "Server_plain throws ?root (write_random env ?src sz ?w2) = (Inr srv, w')"
    using r 1 by (auto simp: bench_setup_def require_directories_def Let_def split: if_splits prod.splits sum.splits)
  have "length work < length ?src" "length ?root < length ?src" by (simp_all add: path_append_def is_absolute_def)
  then have "files ?w2 ?src \<noteq> Some Directory"
    using w(2) s(1) by (simp add: create_directories_not_dir dir_prefixes_shorter)
  then have x: "files (write_random env ?src sz ?w2) ?src = Some (Regular (fst (draws (b_draw env) (unat sz) (b_rng env))))"
    "faults (write_random env ?src sz ?w2) = []" using w(1) by (simp_all add: write_random_quiet fs_simps)
  have "w' = fs_create_directories (write_random env ?src sz ?w2) ?root" "sv_ssl_ctx srv = None"
    using s(2) by (auto simp: Server_plain_def Let_def split: option.splits)
  then show "files w' src = Some (Regular (fst (draws (b_draw env) (unat sz) (b_rng env))))" "faults w' = []" "sv_ssl_ctx srv = None"
    using x s(1) by (simp_all add: create_directories_keeps fs_simps)
qed

subsection \<open>The transfer\<close>

text \<open>
  The probe transfers what it has written. Without faults, with a size of up to 16 GiB and each of
  its four chunk sizes, the server it has set up receives the source file, which holds as many random
  bytes as asked for: client and server return true and \<^verbatim>\<open>x.bin\<close> has these bytes. Both start from the
  same file system; the session leaves the source alone.
\<close>

lemma bench_transfer_completes:
  assumes "bench_setup benv throws sz w = (Some (src, srv), w')" "faults w = []" "files w src \<noteq> Some Directory"
    and "unat sz \<le> 16 * 1024 * 1024 * 1024" "cs \<in> set bench_chunk_sizes" "c_opts cenv = bench_options cs"
    and "e_root senv = sv_root srv" "e_ssl_ctx senv = sv_ssl_ctx srv"
    and "c_ops cenv = pipe_ops" "e_ops senv = pipe_ops" "e_b3 senv = c_b3 cenv" "streaming (c_b3 cenv)"
    and "c_resolve cenv ''127.0.0.1'' (dec_string (unat port)) = Inr e"
    and "resolve_dest (sv_root srv) ''x.bin'' = Some dest" "path_names dest \<noteq> []" "\<not> ends_in_slash dest"
    and "\<forall>p\<in>dirs_of dest. \<forall>c. files w' p \<noteq> Some (Regular c)" "writable dest w'" "files w' (state_path dest) = None"
  shows "delivers cenv senv ''127.0.0.1'' port src ''x.bin'' w' w' dest (fst (draws (b_draw benv) (unat sz) (b_rng benv)))"
proof -
  note s = bench_setup_result [OF assms(1-3)]
  have o: "opt_tls (c_opts cenv) = None" "opt_chunk_size (c_opts cenv) = cs"
    using assms(6) by (simp_all add: bench_options_def default_ClientOptions_def)
  have c: "16 * 1024 \<le> unat (opt_chunk_size (c_opts cenv))" "unat (opt_chunk_size (c_opts cenv)) + 36 \<le> kDefaultMaxPayload"
    using assms(5) o(2) by (auto simp: bench_chunk_sizes_def kDefaultMaxPayload_def)
  have T: "length (fst (draws (b_draw benv) (unat sz) (b_rng benv))) \<le> 16 * 1024 * 1024 * 1024" using assms(4) by simp
  have "length ''x.bin'' < 2 ^ 16" "resolve_dest (e_root senv) ''x.bin'' = Some dest" using assms(7,14) by simp_all
  from documented_transfer [OF assms(9-13) o(1) s(1,2) T c this assms(15-19)] show ?thesis .
qed

definition demo_bench :: "u8 bench_env" where
  "demo_bench = \<lparr>b_temp = ''/tmp'', b_stamp = 7, b_thread = ''1'', b_rng = 5, b_draw = (\<lambda>g. (g, 3 * g + 1))\<rparr>"

abbreviation demo_work :: string where
  "demo_work \<equiv> ''/tmp/ftx-bench-7-1''"

abbreviation demo_dirs :: world where
  "demo_dirs \<equiv> fs_create_directories (fs_create_directories \<lparr>files = Map.empty, faults = []\<rparr> demo_work) (demo_work @ ''/recv'')"

definition demo_served :: world where
  "demo_served = fs_create_directories
     \<lparr>files = (files demo_dirs)(demo_work @ ''/src.bin'' \<mapsto> Regular [5, 16, 49]), faults = []\<rparr> (demo_work @ ''/recv'')"

lemma demo_setup:
  "bench_setup demo_bench (\<lambda>_. None) 3 \<lparr>files = Map.empty, faults = []\<rparr> =
     (Some (demo_work @ ''/src.bin'', \<lparr>sv_root = demo_work @ ''/recv'', sv_ssl_ctx = None\<rparr>), demo_served)"
proof -
  let ?w0 = "\<lparr>files = Map.empty, faults = []\<rparr>"
  have p: "path_append (b_temp demo_bench) (''ftx-bench-'' @ dec_string (unat (b_stamp demo_bench)) @ ''-'' @ b_thread demo_bench) = demo_work"
    "path_append demo_work ''recv'' = demo_work @ ''/recv''" "path_append demo_work ''src.bin'' = demo_work @ ''/src.bin''"
    by code_simp+
  have d: "files (fs_create_directories ?w0 demo_work) demo_work = Some Directory"
    "files demo_dirs (demo_work @ ''/recv'') = Some Directory" "files demo_dirs (demo_work @ ''/src.bin'') = None"
    "fst (draws (b_draw demo_bench) 3 (b_rng demo_bench)) = [5, 16, 49]" by code_simp+
  have "write_random demo_bench (demo_work @ ''/src.bin'') 3 demo_dirs =
      \<lparr>files = (files demo_dirs)(demo_work @ ''/src.bin'' \<mapsto> Regular [5, 16, 49]), faults = []\<rparr>"
    using write_random_quiet [of demo_dirs "demo_work @ ''/src.bin''" demo_bench 3] d(3,4) by (intro world.equality) (simp_all add: fs_simps)
  then show ?thesis
    by (simp add: bench_setup_def mk_temp_dir_def require_directories_def p [simplified] d [simplified] demo_served_def Server_plain_def
        open_acceptor_def Let_def)
qed

lemma demo_bench_dest:
  "resolve_dest (demo_work @ ''/recv'') ''x.bin'' = Some (demo_work @ ''/recv/x.bin'')"
  "path_names (demo_work @ ''/recv/x.bin'') \<noteq> []" "\<not> ends_in_slash (demo_work @ ''/recv/x.bin'')"
  "list_all (\<lambda>p. files demo_served p = Some Directory) (dir_prefixes (path_parent (demo_work @ ''/recv/x.bin'')))"
  "list_all (\<lambda>x. files demo_served (demo_work @ ''/recv/x.bin'' @ x) = None) [[], ''.partial'', ''.ftxstate'', ''.ftxstate.tmp'']"
  by code_simp+

lemma demo_bench_transfer:
  "delivers (demo_client\<lparr>c_opts := bench_options (64 * 1024)\<rparr>) (demo_env\<lparr>e_root := demo_work @ ''/recv''\<rparr>) ''127.0.0.1'' 9000
     (demo_work @ ''/src.bin'') ''x.bin'' demo_served demo_served (demo_work @ ''/recv/x.bin'') [5, 16, 49]"
proof -
  have T: "fst (draws (b_draw demo_bench) (unat (3 :: u64)) (b_rng demo_bench)) = [5, 16, 49]" by code_simp
  show ?thesis unfolding T [symmetric]
  proof (rule bench_transfer_completes [OF demo_setup, where cs = "64 * 1024" and e = "()"])
    show "\<forall>p\<in>dirs_of (demo_work @ ''/recv/x.bin''). \<forall>c. files demo_served p \<noteq> Some (Regular c)"
      using demo_bench_dest(4) by (auto simp: dirs_of_def list_all_iff)
    show "writable (demo_work @ ''/recv/x.bin'') demo_served" "files demo_served (state_path (demo_work @ ''/recv/x.bin'')) = None"
      using demo_bench_dest(5) by (simp_all add: writable_def session_files_def with_partial_suffix_def state_path_def state_tmp_def
          demo_served_def fs_simps)
    show "resolve_dest (sv_root \<lparr>sv_root = demo_work @ ''/recv'', sv_ssl_ctx = None\<rparr>) ''x.bin'' = Some (demo_work @ ''/recv/x.bin'')"
      using demo_bench_dest(1) by simp
  qed (use demo_bench_dest(2,3) in \<open>simp_all add: streaming_tagged bench_chunk_sizes_def demo_client_def demo_env_def\<close>)
qed

end
