(* ===== verification/Ftx_Stale.thy ===== *)
theory Ftx_Stale
  imports Ftx_Resume
begin

text \<open>
  A transfer whose resume state claims more than the partial file holds. \<^verbatim>\<open>server.cpp\<close> saves the state
  while the bytes of a chunk may still be in the stream's buffer, and \<^verbatim>\<open>FileSink\<close> opens a missing or
  short partial file as zeros while the server keeps the bitmap: both lead here.
\<close>

subsection \<open>A state that claims too much\<close>

text \<open>
  The resume state marks a chunk as received of which the partial file does not hold the bytes. The
  root hash finds it, but neither the state nor the partial file is discarded.
\<close>

definition stale ::
    "('s, 'h) session_env \<Rightarrow> ManifestMsg \<Rightarrow> string \<Rightarrow> bytes \<Rightarrow> world \<Rightarrow> ResumeState \<Rightarrow> bool" where
  "stale env m dest T w rs \<longleftrightarrow>
     placeable env m dest w \<and>
     (\<exists>v. start_state env m dest v w True rs \<and> (\<exists>j<length T. j div unat (chunk_size m) \<in> received rs \<and> v ! j \<noteq> T ! j))"

lemma place_keeps:
  assumes "\<forall>p\<in>set ps. unat (fst p) + length (snd p) \<le> length v \<and> \<not> (unat (fst p) \<le> j \<and> j < unat (fst p) + length (snd p))"
    and "j < length v"
  shows "foldl place v ps ! j = v ! j" "length (foldl place v ps) = length v"
proof -
  have "foldl place v ps ! j = v ! j \<and> length (foldl place v ps) = length v"
    using assms
  proof (induction ps arbitrary: v)
    case (Cons p ps)
    have p: "length (place v p) = length v" "place v p ! j = v ! j"
      using Cons.prems by (auto simp: place_def length_overwrite_inside nth_overwrite_inside)
    then show ?case using Cons.IH [of "place v p"] Cons.prems by simp
  qed simp
  then show "foldl place v ps ! j = v ! j" "length (foldl place v ps) = length v" by blast+
qed

lemma chunk_of_position:
  assumes "describes lib m T" "unat (chunk_offset m (chunk_msg lib m T i)) \<le> j"
    and "j < unat (chunk_offset m (chunk_msg lib m T i)) + length (data (chunk_msg lib m T i))"
  shows "j div unat (chunk_size m) = unat i"
proof -
  have "unat i * unat (chunk_size m) \<le> j" "j < unat i * unat (chunk_size m) + unat (chunk_size m)"
    using assms(2,3) by (simp_all add: unat_chunk_offset length_chunk_of)
  then show ?thesis by (intro div_nat_eqI) (simp_all add: mult.commute)
qed

lemma stored_apart:
  assumes d: "describes lib m T" and "is": "\<forall>i\<in>set is. i < chunk_count m" and ne: "j div unat (chunk_size m) \<notin> unat ` set is"
    and v: "length v = length T" "j < length T"
  shows "foldl place v (map (\<lambda>ck. (chunk_offset m ck, data ck)) (map (chunk_msg lib m T) is)) ! j = v ! j"
    "length (foldl place v (map (\<lambda>ck. (chunk_offset m ck, data ck)) (map (chunk_msg lib m T) is))) = length v"
proof -
  let ?ps = "map (\<lambda>ck. (chunk_offset m ck, data ck)) (map (chunk_msg lib m T) is)"
  have "\<forall>p\<in>set ?ps. unat (fst p) + length (snd p) \<le> length v \<and> \<not> (unat (fst p) \<le> j \<and> j < unat (fst p) + length (snd p))"
    using "is" ne v(1) describes_chunk(2) [OF d] describes_size [OF d] chunk_of_position [OF d, of _ j] by fastforce
  from place_keeps [OF this] v show "foldl place v ?ps ! j = v ! j" "length (foldl place v ?ps) = length v" by simp_all
qed

lemma missing_not_received:
  assumes "wf_state rs" "missing rs = Some is"
  shows "received rs \<inter> unat ` set is = {}"
  using resume.absent [OF assms(1)] assms(2) by auto

text \<open>The checks of a resumed transfer whose content is not the file.\<close>

lemma session_verify_mismatch:
  assumes str: "streaming (e_b3 env)" and l: "loop_state env m dest rs True k1 w1 cks tr st" and k1: "sink_ready w1 k1"
    and all: "received rs \<union> (\<lambda>ck. unat (index ck)) ` set cks = {0..<unat (chunk_count m)}"
    and c: "c = foldl place (sink_view w1 k1) (map (\<lambda>ck. (chunk_offset m ck, data ck)) cks)" "blake3 (e_b3 env) c \<noteq> root_hash m"
  obtains st' where "session_verify env m dest True tr st = Some (Inl ReturnFalse, st')" "sink_on dest (ss_sink st')"
    "faults (ss_world st') = []" "unchanged_outside {partial_path dest} (ss_world st) (ss_world st')"
    "sink_ready (ss_world st') (ss_sink st')" "sink_view (ss_world st') (ss_sink st') = c"
proof -
  have t: "transferred env m rs True k1 w1 cks tr st" and k: "sink_on dest (ss_sink st)"
    and q: "faults (ss_world st) = []" using l by (simp_all add: loop_state_def writable_def)
  have sv: "sink_ready (ss_world st) (ss_sink st)" "sink_view (ss_world st) (ss_sink st) = c"
    using sink.writes_view [OF _ k1] t c(1) by (auto simp: transferred_def)
  have counts: "session_counts env m True tr st = (Inr (), st)" by (rule session_counts_pass [OF t all]) simp
  have "\<not> tr_all_in_order tr" using t by (simp add: transferred_def)
  then have h: "if tr_all_in_order tr then Blake3Hasher_finalize (e_b3 env) (tr_hasher tr) = blake3 (e_b3 env) c
      else blake3 (e_b3 env) c = blake3 (e_b3 env) c" by simp
  obtain st1 where 1: "session_root_hash env tr st = (Inr (blake3 (e_b3 env) c), st1)" "faults (ss_world st1) = []"
    "ss_conn st1 = ss_conn st" "unchanged_outside {partial_path dest} (ss_world st) (ss_world st1)"
    "sink_on dest (ss_sink st1)" "sink_ready (ss_world st1) (ss_sink st1)" "sink_view (ss_world st1) (ss_sink st1) = c"
    by (rule session_root_hash_quiet [OF k sv(1) q sv(2) str h])
  let ?st' = "send_error env st1 HashMismatch ''root hash mismatch (manifest)''"
  have "session_verify env m dest True tr st = Some (Inl ReturnFalse, ?st')"
    using counts 1(1) c(2) by (simp add: session_verify_def and_then_def session_compare_def reject_def)
  then show thesis using that 1 by simp
qed

text \<open>
  A session on such a state takes all the chunks it has asked for, fails, and leaves the wrong byte where
  it was.
\<close>

lemma stale_runs:
  assumes rel: "reliable (e_ops env) inb outb" and str: "streaming (e_b3 env)"
    and d: "describes (e_b3 env) m T" "unat (chunk_size m) + 36 \<le> kDefaultMaxPayload"
    and free: "second_preimage_free (e_b3 env) {T}"
    and p: "placeable env m dest w" and v: "start_state env m dest v w True rs"
    and j: "j < length T" "j div unat (chunk_size m) \<in> received rs" "v ! j \<noteq> T ! j"
    and "is": "missing rs = Some is" and s: "session_stream env socket s"
    and inb: "inb s = hello_wire @ manifest_wire m @ concat (map data_wire (map (chunk_msg (e_b3 env) m T) is)) @ complete_wire m"
  obtains k1 w1 tr st3 st4 c where "handle_session env socket w = Some (end_session env (Inl ReturnFalse, st4))"
    "loop_state env m dest rs True k1 w1 (map (chunk_msg (e_b3 env) m T) is) tr st3"
    "files (ss_world st3) dest = files w dest" "received (tr_state tr) = {0..<unat (chunk_count m)}"
    "sink_on dest (ss_sink st4)" "faults (ss_world st4) = []"
    "unchanged_outside {partial_path dest} (ss_world st3) (ss_world st4)"
    "sink_ready (ss_world st4) (ss_sink st4)" "sink_view (ss_world st4) (ss_sink st4) = c"
    "c ! j = v ! j" "length c = length T"
proof -
  let ?cks = "map (chunk_msg (e_b3 env) m T) is"
  have m: "valid_manifest m" "length (encode_manifest m) \<le> kDefaultMaxPayload" using p by (simp_all add: placeable_def)
  note small = manifest_fits_small [OF m]
  note rs = start_state_wf [OF small v] and mf = missing_facts [OF start_state_wf(1) [OF small v] "is"]
  obtain st2 where 2: "handle_session env socket w = map_option (end_session env) (session_transfer env m dest rs True st2)"
    "loop_state env m dest rs True (ss_sink st2) (ss_world st2) [] (new_transfer (e_b3 env) rs True) st2"
    "sink_ready (ss_world st2) (ss_sink st2)" "sk_total_size (ss_sink st2) = file_size m"
    "sk_partial_path (ss_sink st2) = partial_path dest" "sink_view (ss_world st2) (ss_sink st2) = v"
    "inb (cn_stream (ss_conn st2)) = concat (map data_wire ?cks) @ complete_wire m"
    "files (ss_world st2) dest = files w dest"
    by (rule handle_session_begins [OF rel p v "is" s inb])
  have bnd: "\<forall>i\<in>set is. i < chunk_count m" using mf(1) rs(2) by simp
  have cks: "\<forall>ck\<in>set ?cks. sendable (e_b3 env) m ck" using bnd describes_sendable [OF d] by auto
  have root: "length (root_hash m) = kHashSize" using m(1) by (simp add: valid_manifest_def)
  obtain tr st3 where 3: "chunk_loop env m dest (new_transfer (e_b3 env) rs True) st2 = Some (Finished, tr, st3)"
    "loop_state env m dest rs True (ss_sink st2) (ss_world st2) ?cks tr st3"
    "files (ss_world st3) dest = files (ss_world st2) dest"
    by (rule chunk_loop_accepts [OF rel cks root 2(3-5,2,7)]) simp
  define c where "c = foldl place v (map (\<lambda>ck. (chunk_offset m ck, data ck)) ?cks)"
  have len: "length v = length T" using v describes_size [OF d(1)] by (simp add: start_state_def)
  have c: "c ! j = v ! j" "length c = length v"
    unfolding c_def using stored_apart [OF d(1) bnd _ len j(1)] missing_not_received [OF rs(1) "is"] j(2) by blast+
  then have hash: "blake3 (e_b3 env) c \<noteq> root_hash m"
    using j(3) free d(1) by (auto simp: second_preimage_free_def describes_def)
  have all: "received rs \<union> (\<lambda>ck. unat (index ck)) ` set ?cks = {0..<unat (chunk_count m)}"
    using received_bound [of rs] rs(2) mf(2) bnd by (auto simp: image_image word_less_nat_alt)
  obtain st4 where 4: "session_verify env m dest True tr st3 = Some (Inl ReturnFalse, st4)" "sink_on dest (ss_sink st4)"
    "faults (ss_world st4) = []" "unchanged_outside {partial_path dest} (ss_world st3) (ss_world st4)"
    "sink_ready (ss_world st4) (ss_sink st4)" "sink_view (ss_world st4) (ss_sink st4) = c"
    by (rule session_verify_mismatch [OF str 3(2) 2(3) all c_def [folded 2(6)] hash])
  have h: "handle_session env socket w = Some (end_session env (Inl ReturnFalse, st4))"
    using 2(1) 3(1) 4(1) by (simp add: session_transfer_def)
  have "received (tr_state tr) = {0..<unat (chunk_count m)}" using 3(2) all by (simp add: loop_state_def transferred_def)
  with 3(3) 2(8) c(2) len show thesis by (intro that [OF h 3(2) _ _ 4(2-6) c(1)]) simp_all
qed

lemma stale_session:
  assumes rel: "reliable (e_ops env) inb outb" and str: "streaming (e_b3 env)"
    and d: "describes (e_b3 env) m T" "unat (chunk_size m) + 36 \<le> kDefaultMaxPayload"
    and free: "second_preimage_free (e_b3 env) {T}"
    and t: "stale env m dest T w rs" and "is": "missing rs = Some is"
    and s: "session_stream env socket s" and inb: "inb s = client_bytes (e_b3 env) m T is"
  obtains s' w' rs' where "handle_session env socket w = Some (Returned False, s', w')"
    "files w' dest = files w dest" "stale env m dest T w' rs'" "missing rs' = Some []"
proof -
  let ?cks = "map (chunk_msg (e_b3 env) m T) is"
  obtain v j where p: "placeable env m dest w" and v: "start_state env m dest v w True rs"
    and j: "j < length T" "j div unat (chunk_size m) \<in> received rs" "v ! j \<noteq> T ! j"
    using t by (auto simp: stale_def)
  have m: "valid_manifest m" "length (encode_manifest m) \<le> kDefaultMaxPayload" "resolve_dest (e_root env) (path m) = Some dest"
    using p by (simp_all add: placeable_def)
  note rs = start_state_wf [OF manifest_fits_small [OF m(1,2)] v]
  have i1: "inb s = hello_wire @ manifest_wire m @ concat (map data_wire ?cks) @ complete_wire m"
    using inb by (simp add: client_bytes_def comp_def)
  obtain k1 w1 tr st3 st4 c where h: "handle_session env socket w = Some (end_session env (Inl ReturnFalse, st4))"
    and l: "loop_state env m dest rs True k1 w1 ?cks tr st3"
    and f: "files (ss_world st3) dest = files w dest" "received (tr_state tr) = {0..<unat (chunk_count m)}"
    and k: "sink_on dest (ss_sink st4)" "faults (ss_world st4) = []"
      "unchanged_outside {partial_path dest} (ss_world st3) (ss_world st4)"
      "sink_ready (ss_world st4) (ss_sink st4)" "sink_view (ss_world st4) (ss_sink st4) = c"
    and c: "c ! j = v ! j" "length c = length T"
    by (rule stale_runs [OF rel str d free p v j "is" s i1])
  obtain k' w' where cl: "FileSink_close (ss_world st4) (ss_sink st4) = (k', w')" "faults w' = []"
    "files w' (partial_path dest) = Some (Regular c)" using close_quiet [OF k(4,2)] k(1,5) by (metis sink_on_def)
  let ?s' = "cn_stream (Connection_close (e_ops env) (ss_conn st4))"
  have h': "handle_session env socket w = Some (Returned False, ?s', w')" using h cl(1) by (simp add: end_session_def)
  have u: "unchanged_outside {partial_path dest} (ss_world st3) w'"
    using unchanged_trans [OF k(3)] close_sink_on [OF k(1) cl(1)] by blast
  then have dest: "files w' dest = files w dest" using f(1) by (simp add: unchanged_outside_def)
  have tr: "wf_state (tr_state tr)" "rs_chunk_count (tr_state tr) = chunk_count m" "writable dest (ss_world st3)"
    "state_saved env m dest True ?cks (tr_state tr) (ss_world st3)"
    "received (tr_state tr) = received rs \<union> unat ` set (take (length is) is)"
    using l by (simp_all add: loop_state_def transferred_def image_image)
  have p': "placeable env m dest w'"
    using tr(3) u by (intro placeable_after [OF p receive_outcome [OF rel s i1 m h'] cl(2) dest])
      (auto simp: cl(3) writable_def session_files_def unchanged_outside_def)
  have "start_state env m dest c w' True (tr_state tr)"
    using tr u cl(3) c(2) describes_size [OF d(1)] by (simp add: start_state_def state_saved_def unchanged_outside_def)
  moreover have "j div unat (chunk_size m) \<in> received (tr_state tr)" "c ! j \<noteq> T ! j"
    using chunk_index_bound(1) [OF d(1) j(1)] f(2) c(1) j(3) by simp_all
  ultimately have "stale env m dest T w' (tr_state tr)" using p' j(1) unfolding stale_def by blast
  moreover have "missing (tr_state tr) = Some []"
    using missing_after [OF rs(1) "is" tr(1) _ tr(5)] tr(2) rs(2) by simp
  ultimately show thesis using that [OF h' dest] by blast
qed


text \<open>The concrete transfer with a state that marks the first chunk and a partial file of zeros.\<close>

definition stale_world :: "ResumeState \<Rightarrow> world" where
  "stale_world rs =
     \<lparr>files = [''/srv'' \<mapsto> Directory, partial_path ''/srv/a/f'' \<mapsto> Regular [0, 0, 0],
               state_path ''/srv/a/f'' \<mapsto> Regular (state_bytes rs)],
      faults = []\<rparr>"

lemma demo_stale:
  obtains rs where "mark_received demo_state 0 = Some rs" "missing rs = Some [1]"
    "stale demo_env demo_manifest ''/srv/a/f'' [1, 2, 3] (stale_world rs) rs"
proof -
  have d: "wf_state demo_state" "received demo_state = {}" "rs_chunk_count demo_state = 2"
    "rs_manifest_id demo_state = manifest_id demo_env demo_manifest"
    using new_ResumeState_wf new_ResumeState_received by (simp_all add: demo_state_def manifest_id_def new_ResumeState_def)
  obtain rs where r: "mark_received demo_state 0 = Some rs" "wf_state rs" "rs_chunk_count rs = rs_chunk_count demo_state"
    "rs_manifest_id rs = rs_manifest_id demo_state"
    "received rs = (if 0 < rs_chunk_count demo_state then insert (unat (0 :: u32)) (received demo_state) else received demo_state)"
    by (rule mark_received_wf [OF d(1), of 0])
  then have rs: "mark_received demo_state 0 = Some rs" "wf_state rs" "rs_chunk_count rs = 2" "received rs = {0}"
    "rs_manifest_id rs = manifest_id demo_env demo_manifest" using d by simp_all
  have "missing rs = Some (drop 1 [0, 1])"
    using missing_after [OF d(1) demo_missing rs(2), of 1] rs(3,4) d(2,3) by simp
  moreover have "placeable demo_env demo_manifest ''/srv/a/f'' (stale_world rs)"
    using demo_valid demo_dest(2) by (auto simp: placeable_def demo_dest(1,3,4) dirs_of_def stale_world_def writable_def
        session_files_def with_partial_suffix_def state_path_def state_tmp_def)
  moreover have "start_state demo_env demo_manifest ''/srv/a/f'' [0, 0, 0] (stale_world rs) True rs"
    using rs by (simp add: start_state_def stale_world_def with_partial_suffix_def state_path_def)
  moreover have "(0 :: nat) < length [1 :: u8, 2, 3] \<and> 0 div unat (chunk_size demo_manifest) \<in> received rs \<and>
      [0 :: u8, 0, 0] ! 0 \<noteq> [1, 2, 3] ! 0" using rs(4) by simp
  ultimately show thesis using that [OF rs(1)] unfolding stale_def by (metis drop0 drop_Suc_Cons One_nat_def)
qed

text \<open>
  C39. A transfer can get stuck: once the state claims too much, a session with an honest peer that sends
  all the server asks for ends with false, and the state it leaves claims too much again, so the
  same holds of the next session and of every later one.
\<close>

theorem stale_state_persists:
  assumes "reliable (e_ops env) inb outb" "streaming (e_b3 env)" "describes (e_b3 env) m T"
    and "unat (chunk_size m) + 36 \<le> kDefaultMaxPayload" "second_preimage_free (e_b3 env) {T}"
    and "stale env m dest T w rs" "missing rs = Some is"
    and "session_stream env socket s" "inb s = client_bytes (e_b3 env) m T is"
  shows "\<exists>s' w' rs'. handle_session env socket w = Some (Returned False, s', w') \<and>
    files w' dest = files w dest \<and> stale env m dest T w' rs' \<and> missing rs' = Some []"
proof -
  obtain s' w' rs' where "handle_session env socket w = Some (Returned False, s', w')"
    "files w' dest = files w dest" "stale env m dest T w' rs'" "missing rs' = Some []"
    by (rule stale_session [OF assms])
  then show ?thesis by blast
qed

theorem stale_state_persists_witness:
  "\<exists>rs s' w' rs'. mark_received demo_state 0 = Some rs \<and>
     handle_session demo_env (client_bytes tagged_lib demo_manifest [1, 2, 3] [1], []) (stale_world rs) = Some (Returned False, s', w') \<and>
     files w' ''/srv/a/f'' = None \<and> stale demo_env demo_manifest ''/srv/a/f'' [1, 2, 3] w' rs'"
proof -
  obtain rs where rs: "mark_received demo_state 0 = Some rs" "missing rs = Some [1]"
    "stale demo_env demo_manifest ''/srv/a/f'' [1, 2, 3] (stale_world rs) rs" by (rule demo_stale)
  let ?s = "(client_bytes tagged_lib demo_manifest [1, 2, 3] [1], [])"
  have s: "session_stream demo_env ?s ?s" "fst ?s = client_bytes (e_b3 demo_env) demo_manifest [1, 2, 3] [1]"
    by (simp_all add: session_stream_def)
  have fit: "unat (chunk_size demo_manifest) + 36 \<le> kDefaultMaxPayload" by (simp add: kDefaultMaxPayload_def)
  have free: "second_preimage_free (e_b3 demo_env) {[1, 2, 3]}"
    using tagged_second_preimage_free [of "{[1, 2, 3]}"] by simp
  have "files (stale_world rs) ''/srv/a/f'' = None" by (simp add: stale_world_def with_partial_suffix_def state_path_def)
  with stale_state_persists [OF demo_rel demo_streaming demo_desc fit free rs(3,2) s] rs(1) show ?thesis by metis
qed

end
