(* ===== verification/Ftx_Concurrent.thy ===== *)
theory Ftx_Concurrent
  imports Ftx_Authentic Ftx_Daemon
begin

text \<open>
  Sessions in threads of their own. A session is a sequence of steps over the world all sessions
  share: the handshake, the exchange of HELLO, the manifest, loading the state, opening the sink and
  the request, one chunk, the checks, putting the file in place, and closing.
\<close>

subsection \<open>A session as steps\<close>

type_synonym target = "(ManifestMsg \<times> string) option"

datatype 'h pc =
    AtHandshake
  | AtHello
  | AtManifest
  | AtState ManifestMsg string
  | AtRequest ManifestMsg string ResumeState bool
  | InLoop ManifestMsg string bool "'h transfer"
  | AtCheck ManifestMsg string bool "'h transfer"
  | AtFinish ManifestMsg string bool
  | Closing target "failure + unit"
  | Done target verdict

fun target_of :: "'h pc \<Rightarrow> target" where
  "target_of (AtState m dest) = Some (m, dest)"
| "target_of (AtRequest m dest _ _) = Some (m, dest)"
| "target_of (InLoop m dest _ _) = Some (m, dest)"
| "target_of (AtCheck m dest _ _) = Some (m, dest)"
| "target_of (AtFinish m dest _) = Some (m, dest)"
| "target_of (Closing t _) = t"
| "target_of (Done t _) = t"
| "target_of _ = None"

definition continue :: "target \<Rightarrow> ('a \<Rightarrow> 'h pc) \<Rightarrow> ('a, 's) phase \<Rightarrow> 'h pc \<times> 's session" where
  "continue t f r = (case r of (Inl e, st) \<Rightarrow> (Closing t (Inl e), st) | (Inr a, st) \<Rightarrow> (f a, st))"

definition session_handshake :: "('s, 'h) session_env \<Rightarrow> 's session \<Rightarrow> (unit, 's) phase" where
  "session_handshake env st =
     (if e_ssl_ctx env \<noteq> None
      then let (ok, c) = tls_server_handshake (e_ops env) (ss_conn st)
           in (if ok then Inr () else Inl ReturnFalse, st\<lparr>ss_conn := c\<rparr>)
      else (Inr (), st))"

fun session_step :: "('s, 'h) session_env \<Rightarrow> 'h pc \<times> 's session \<Rightarrow> 'h pc \<times> 's session" where
  "session_step env (AtHandshake, st) = continue None (\<lambda>_. AtHello) (session_handshake env st)"
| "session_step env (AtHello, st) = continue None (\<lambda>_. AtManifest) (session_hello env st)"
| "session_step env (AtManifest, st) = continue None (\<lambda>(m, dest). AtState m dest) (session_manifest env st)"
| "session_step env (AtState m dest, st) =
     continue (Some (m, dest)) (\<lambda>(rs, resume). AtRequest m dest rs resume) (session_state env m dest st)"
| "session_step env (AtRequest m dest rs resume, st) =
     continue (Some (m, dest)) (\<lambda>_. InLoop m dest resume (new_transfer (e_b3 env) rs resume))
       (session_request env m dest rs resume st)"
| "session_step env (InLoop m dest resume tr, st) =
     (case chunk_step env m dest (Running, tr, st) of
        (Running, tr, st) \<Rightarrow> (InLoop m dest resume tr, st)
      | (Finished, tr, st) \<Rightarrow> (AtCheck m dest resume tr, st)
      | (Failed e, _, st) \<Rightarrow> (Closing (Some (m, dest)) (Inl e), st))"
| "session_step env (AtCheck m dest resume tr, st) =
     continue (Some (m, dest)) (\<lambda>_. AtFinish m dest resume) (session_check env m resume tr st)"
| "session_step env (AtFinish m dest resume, st) =
     (let (r, st) = session_finish env m dest st in (Closing (Some (m, dest)) r, st))"
| "session_step env (Closing t r, st) =
     (let (k, w) = FileSink_close (ss_world st) (ss_sink st)
      in (Done t (verdict_of r),
          st\<lparr>ss_conn := Connection_close (e_ops env) (ss_conn st), ss_world := w, ss_sink := k\<rparr>))"
| "session_step env (Done t v, st) = (Done t v, st)"

subsection \<open>The steps make up a session\<close>

text \<open>\<open>l\<close> leads to \<open>l'\<close> in some number of steps.\<close>

definition leads_to :: "('s, 'h) session_env \<Rightarrow> 'h pc \<times> 's session \<Rightarrow> 'h pc \<times> 's session \<Rightarrow> bool" where
  "leads_to env l l' \<longleftrightarrow> (\<exists>n. (session_step env ^^ n) l = l')"

lemma leads_to_refl [simp]: "leads_to env l l"
  unfolding leads_to_def by (rule exI [of _ 0]) simp

lemma leads_to_step: "leads_to env (session_step env l) l' \<Longrightarrow> leads_to env l l'"
proof -
  assume "leads_to env (session_step env l) l'"
  then obtain n where "(session_step env ^^ n) (session_step env l) = l'" by (auto simp: leads_to_def)
  then have "(session_step env ^^ Suc n) l = l'" by (simp add: funpow_swap1)
  then show ?thesis unfolding leads_to_def by blast
qed

lemma leads_to_trans: "leads_to env l l1 \<Longrightarrow> leads_to env l1 l2 \<Longrightarrow> leads_to env l l2"
proof -
  assume "leads_to env l l1" "leads_to env l1 l2"
  then obtain m n where "(session_step env ^^ m) l = l1" "(session_step env ^^ n) l1 = l2" by (auto simp: leads_to_def)
  then have "(session_step env ^^ (n + m)) l = l2" by (simp add: funpow_add)
  then show ?thesis unfolding leads_to_def by blast
qed

lemma chunk_loop_steps:
  assumes "chunk_loop env m dest tr st = Some (stt, tr', st')"
  shows "stt \<noteq> Running \<and> leads_to env (InLoop m dest resume tr, st)
    (if stt = Finished then AtCheck m dest resume tr' else Closing (Some (m, dest)) (Inl (case stt of Failed e \<Rightarrow> e)), st')"
proof -
  let ?to = "\<lambda>(stt, tr, st). (case stt of Running \<Rightarrow> InLoop m dest resume tr | Finished \<Rightarrow> AtCheck m dest resume tr
      | Failed e \<Rightarrow> Closing (Some (m, dest)) (Inl e), st)"
  have step: "session_step env (?to l) = ?to (chunk_step env m dest l)" if "fst l = Running" for l
    using that by (cases l) (auto split: prod.splits loop_status.splits)
  have pres: "leads_to env (InLoop m dest resume tr, st) (?to (chunk_step env m dest l))"
    if "leads_to env (InLoop m dest resume tr, st) (?to l)" "fst l = Running" for l
    using leads_to_trans [OF that(1) leads_to_step [OF leads_to_refl]] step [OF that(2)] by simp
  have "leads_to env (InLoop m dest resume tr, st) (?to (stt, tr', st'))"
    using assms unfolding chunk_loop_def
    by (rule while_option_rule [where P = "\<lambda>l. leads_to env (InLoop m dest resume tr, st) (?to l)", rotated])
      (simp, rule pres)
  moreover have "stt \<noteq> Running" using while_option_stop [OF assms [unfolded chunk_loop_def]] by simp
  ultimately show ?thesis by (cases stt) simp_all
qed


text \<open>From \<open>l\<close> a session for the target \<open>t\<close> comes to its end with the result \<open>y\<close> of the phases.\<close>

definition ends :: "('s, 'h) session_env \<Rightarrow> 'h pc \<times> 's session \<Rightarrow> target \<Rightarrow> (unit, 's) phase \<Rightarrow> bool" where
  "ends env l t y \<longleftrightarrow> leads_to env l (Closing t (fst y), snd y)"

lemma ends_step: "ends env (session_step env l) t y \<Longrightarrow> ends env l t y"
  using leads_to_step unfolding ends_def by blast

lemma ends_Closing [simp]: "ends env (Closing t r, st) t (r, st)"
  by (simp add: ends_def)

lemma ends_continue:
  assumes "and_then r f = Some y" "\<And>a st. r = (Inr a, st) \<Longrightarrow> f a st = Some y \<Longrightarrow> ends env (g a, st) t y"
  shows "ends env (continue t g r) t y"
proof (cases r)
  case (Pair v st)
  then show ?thesis using assms by (cases v) (auto simp: and_then_def continue_def)
qed

lemma ends_continue_early:
  assumes "and_then r f = Some y" "\<And>a st. r = (Inr a, st) \<Longrightarrow> f a st = Some y \<Longrightarrow> \<exists>t. ends env (g a, st) t y"
  shows "\<exists>t. ends env (continue None g r) t y"
proof (cases r)
  case (Pair v st)
  show ?thesis
  proof (cases v)
    case (Inl e)
    then show ?thesis using assms(1) Pair by (auto simp: and_then_def continue_def intro: exI [of _ None])
  next
    case (Inr a)
    then show ?thesis using assms Pair by (simp add: and_then_def continue_def)
  qed
qed

lemma session_verify_ends:
  assumes "session_verify env m dest resume tr st = Some y"
  shows "ends env (AtCheck m dest resume tr, st) (Some (m, dest)) y"
proof -
  have finish: "ends env (AtFinish m dest resume, st) (Some (m, dest)) y" if "Some (session_finish env m dest st) = Some y" for st
    using that by (intro ends_step [of env "(AtFinish m dest resume, st)"]) (auto split: prod.splits)
  show ?thesis using assms unfolding session_verify_check
    by (intro ends_step [of env "(AtCheck m dest resume tr, st)"]) (simp, rule ends_continue [OF _ finish])
qed

lemma session_transfer_ends:
  assumes "session_transfer env m dest rs resume st = Some y"
  shows "ends env (InLoop m dest resume (new_transfer (e_b3 env) rs resume), st) (Some (m, dest)) y"
proof -
  obtain stt tr' st' where l: "chunk_loop env m dest (new_transfer (e_b3 env) rs resume) st = Some (stt, tr', st')"
    using assms by (auto simp: session_transfer_def split: option.splits)
  note steps = chunk_loop_steps [OF l, of resume]
  show ?thesis
  proof (cases stt)
    case Finished
    then have "session_verify env m dest resume tr' st' = Some y" using assms l by (simp add: session_transfer_def)
    from session_verify_ends [OF this] steps Finished show ?thesis
      unfolding ends_def using leads_to_trans by fastforce
  next
    case (Failed e)
    then have "y = (Inl e, st')" using assms l by (simp add: session_transfer_def)
    then show ?thesis using steps Failed unfolding ends_def by auto
  qed (use steps in simp)
qed

lemma session_receive_ends:
  assumes "session_receive env m dest st = Some y"
  shows "ends env (AtState m dest, st) (Some (m, dest)) y"
proof -
  have request: "ends env (AtRequest m dest rs resume, st) (Some (m, dest)) y"
    if "and_then (session_request env m dest rs resume st) (\<lambda>_. session_transfer env m dest rs resume) = Some y" for rs resume st
    by (rule ends_step, simp only: session_step.simps, rule ends_continue [OF that], rule session_transfer_ends)
  show ?thesis
    by (rule ends_step, simp only: session_step.simps, rule ends_continue [OF assms [unfolded session_receive_def]])
      (auto intro: request split: prod.splits)
qed

lemma session_body_ends:
  assumes "session_body env st = Some y"
  shows "\<exists>t. ends env (AtHello, st) t y"
proof -
  have manifest: "\<exists>t. ends env (AtManifest, st) t y"
    if "and_then (session_manifest env st) (\<lambda>(m, dest). session_receive env m dest) = Some y" for st
  proof -
    have "\<exists>t. ends env (continue None (\<lambda>(m, dest). AtState m dest) (session_manifest env st)) t y"
      by (rule ends_continue_early [OF that]) (auto intro: session_receive_ends split: prod.splits)
    then show ?thesis using ends_step [of env "(AtManifest, st)", unfolded session_step.simps] by blast
  qed
  have "\<exists>t. ends env (continue None (\<lambda>_. AtManifest) (session_hello env st)) t y"
    by (rule ends_continue_early [OF assms [unfolded session_body_def] manifest])
  then show ?thesis using ends_step [of env "(AtHello, st)", unfolded session_step.simps] by blast
qed

definition new_session :: "('s, 'h) session_env \<Rightarrow> 's \<Rightarrow> world \<Rightarrow> 's session" where
  "new_session env socket w =
     \<lparr>ss_conn = (case e_ssl_ctx env of
                  Some ctx \<Rightarrow> Connection_tls (e_ops env) socket ctx
                | None \<Rightarrow> Connection_plain socket),
      ss_world = w, ss_sink = new_FileSink ''''\<rparr>"

lemma handle_session_ends:
  assumes "handle_session env socket w = Some (v, s', w')"
  obtains y t where "ends env (AtHandshake, new_session env socket w) t y" "end_session env y = (v, s', w')"
proof -
  let ?st = "new_session env socket w"
  obtain ok c where c: "(if e_ssl_ctx env \<noteq> None then tls_server_handshake (e_ops env) (ss_conn ?st) else (True, ss_conn ?st)) = (ok, c)"
    by fastforce
  let ?st1 = "?st\<lparr>ss_conn := c\<rparr>"
  have st1: "?st1 = \<lparr>ss_conn = c, ss_world = w, ss_sink = new_FileSink ''''\<rparr>" by (simp add: new_session_def)
  have conn: "(case e_ssl_ctx env of Some ctx \<Rightarrow> Connection_tls (e_ops env) socket ctx | None \<Rightarrow> Connection_plain socket) =
      ss_conn ?st" by (simp add: new_session_def)
  obtain y where y: "(if \<not> ok then Some (Inl ReturnFalse, ?st1) else session_body env ?st1) = Some y" "end_session env y = (v, s', w')"
    using assms unfolding handle_session_def Let_def conn c st1 by (auto simp del: not_None_eq)
  have "session_handshake env ?st = (if ok then Inr () else Inl ReturnFalse, ?st1)"
    using c by (auto simp: session_handshake_def split: if_splits)
  then have "session_step env (AtHandshake, ?st) = (if ok then (AtHello, ?st1) else (Closing None (Inl ReturnFalse), ?st1))"
    by (simp add: continue_def)
  then have "\<exists>t. ends env (session_step env (AtHandshake, ?st)) t y"
    using y(1) session_body_ends [of env ?st1 y] ends_Closing [of env None "Inl ReturnFalse" ?st1]
    by (cases ok) (auto simp del: session_step.simps)
  then show thesis using that ends_step y(2) by blast
qed

lemma ends_done:
  assumes "ends env l t y" "end_session env y = (v, s', w')"
  obtains st' where "leads_to env l (Done t v, st')" "cn_stream (ss_conn st') = s'" "ss_world st' = w'"
proof -
  obtain k w2 where c: "FileSink_close (ss_world (snd y)) (ss_sink (snd y)) = (k, w2)" by fastforce
  let ?st' = "(snd y)\<lparr>ss_conn := Connection_close (e_ops env) (ss_conn (snd y)), ss_world := w2, ss_sink := k\<rparr>"
  have "session_step env (Closing t (fst y), snd y) = (Done t (verdict_of (fst y)), ?st')" by (simp add: c)
  then have "leads_to env (Closing t (fst y), snd y) (Done t (verdict_of (fst y)), ?st')"
    by (metis leads_to_refl leads_to_step)
  then have "leads_to env l (Done t (verdict_of (fst y)), ?st')" by (rule leads_to_trans [OF assms(1) [unfolded ends_def]])
  then show thesis using assms(2) c by (intro that [of ?st']) (auto simp: end_session_def split: prod.splits)
qed



subsection \<open>What a session keeps to, step by step\<close>

text \<open>
  The invariant does not mention what the world was when the session started: other sessions have
  changed it since.
\<close>

definition placed :: "('s, 'h) session_env \<Rightarrow> ManifestMsg \<Rightarrow> string \<Rightarrow> world \<Rightarrow> bool" where
  "placed env m dest w \<longleftrightarrow>
     (\<exists>c resume v0 w0. files w dest = Some (Regular c) \<and> initial_view m dest w0 resume v0 \<and> accepted env m resume v0 c)"

definition storing ::
    "('s, 'h) session_env \<Rightarrow> ManifestMsg \<Rightarrow> string \<Rightarrow> bool \<Rightarrow> 'h transfer \<Rightarrow> 's session \<Rightarrow> bool" where
  "storing env m dest resume tr st \<longleftrightarrow>
     small_manifest m \<and> sink_on dest (ss_sink st) \<and>
     (\<exists>rs k1 w1 cks w0. sink_ready w1 k1 \<and> sk_total_size k1 = file_size m \<and> sk_partial_path k1 = partial_path dest \<and>
        initial_view m dest w0 resume (sink_view w1 k1) \<and> transferred env m rs resume k1 w1 cks tr st)"

fun session_inv :: "('s, 'h) session_env \<Rightarrow> 'h pc \<Rightarrow> 's session \<Rightarrow> bool" where
  "session_inv env (AtState m dest) st \<longleftrightarrow> small_manifest m \<and> \<not> os_open (sk_stream (ss_sink st))"
| "session_inv env (AtRequest m dest rs resume) st \<longleftrightarrow>
     small_manifest m \<and> \<not> os_open (sk_stream (ss_sink st)) \<and> wf_state rs \<and> rs_chunk_count rs = chunk_count m \<and>
     (resume \<or> received rs = {})"
| "session_inv env (InLoop m dest resume tr) st \<longleftrightarrow> storing env m dest resume tr st"
| "session_inv env (AtCheck m dest resume tr) st \<longleftrightarrow> storing env m dest resume tr st"
| "session_inv env (AtFinish m dest resume) st \<longleftrightarrow>
     sink_on dest (ss_sink st) \<and> sink_ready (ss_world st) (ss_sink st) \<and>
     (\<exists>v0 w0. initial_view m dest w0 resume v0 \<and> accepted env m resume v0 (sink_view (ss_world st) (ss_sink st)))"
| "session_inv env (Closing t r) st \<longleftrightarrow>
     r \<noteq> Inl Undefined \<and>
     (case t of
        None \<Rightarrow> r \<noteq> Inr () \<and> \<not> os_open (sk_stream (ss_sink st))
      | Some (m, dest) \<Rightarrow> sink_on dest (ss_sink st) \<and> (r = Inr () \<longrightarrow> placed env m dest (ss_world st)))"
| "session_inv env (Done t v) st \<longleftrightarrow>
     v \<noteq> UndefinedBehaviour \<and>
     (v = Returned True \<longrightarrow> (\<exists>m dest. t = Some (m, dest) \<and> placed env m dest (ss_world st)))"
| "session_inv env pc st \<longleftrightarrow> \<not> os_open (sk_stream (ss_sink st))"

text \<open>What a step may change.\<close>

definition touches :: "target \<Rightarrow> world \<Rightarrow> world \<Rightarrow> bool" where
  "touches t w w' \<longleftrightarrow>
     (case t of None \<Rightarrow> w' = w | Some (m, dest) \<Rightarrow> only_dirs (dirs_of dest) (session_files dest) w w')"

lemma touches_unchanged:
  "unchanged_outside P w w' \<Longrightarrow> P \<subseteq> session_files dest \<Longrightarrow> touches (Some (m, dest)) w w'"
  by (simp add: touches_def only_dirs_unchanged)

lemma loop_files_subset: "loop_files dest \<subseteq> session_files dest" "{partial_path dest} \<subseteq> session_files dest"
  "{state_path dest} \<subseteq> session_files dest"
  by (auto simp: session_files_def)

text \<open>Changes to other files do not matter.\<close>

lemma session_inv_undisturbed:
  assumes "session_inv env pc st"
    and "\<And>m dest p. target_of pc = Some (m, dest) \<Longrightarrow> p \<in> session_files dest \<Longrightarrow> files w' p = files (ss_world st) p"
  shows "session_inv env pc (st\<lparr>ss_world := w'\<rparr>)"
proof -
  have storing: "storing env m dest resume tr (st\<lparr>ss_world := w'\<rparr>)"
    if s: "storing env m dest resume tr st" and t: "target_of pc = Some (m, dest)" for m dest resume tr
  proof -
    have "files w' (sk_partial_path (ss_sink st)) = files (ss_world st) (sk_partial_path (ss_sink st))"
      using s assms(2) [OF t] by (simp add: storing_def sink_on_def session_files_def)
    then have "transferred env m rs resume k1 w1 cks tr (st\<lparr>ss_world := w'\<rparr>)"
      if "transferred env m rs resume k1 w1 cks tr st" for rs k1 w1 cks
      using that sink.other by (fastforce simp: transferred_def)
    then show ?thesis using s unfolding storing_def by fastforce
  qed
  have placed: "placed env m dest w'" if "placed env m dest (ss_world st)" "target_of pc = Some (m, dest)" for m dest
    using that(1) assms(2) [OF that(2), of dest] by (simp add: placed_def session_files_def)
  show ?thesis
  proof (cases pc)
    case (AtFinish m dest resume)
    then have "files w' (sk_partial_path (ss_sink st)) = files (ss_world st) (sk_partial_path (ss_sink st))"
      using assms by (simp add: sink_on_def session_files_def)
    then show ?thesis using assms(1) AtFinish sink.undisturbed [of "ss_world st" "ss_sink st" w'] by auto
  qed (use assms(1) storing placed in \<open>auto split: option.splits\<close>)
qed


text \<open>What every step guarantees.\<close>

definition step_ok ::
    "('s, 'h) session_env \<Rightarrow> 'h pc \<Rightarrow> 's session \<Rightarrow> 'h pc \<times> 's session \<Rightarrow> bool" where
  "step_ok env pc st l \<longleftrightarrow>
     session_inv env (fst l) (snd l) \<and> touches (target_of (fst l)) (ss_world st) (ss_world (snd l)) \<and>
     (target_of pc = None \<or> target_of (fst l) = target_of pc)"

lemma touches_refl [simp]: "touches t w w"
  by (simp add: touches_def split: option.splits)

lemma quiet_phase_ok:
  assumes "\<not> os_open (sk_stream (ss_sink st))" "target_of pc = None" "fst r \<noteq> Inl Undefined"
    and "ss_world (snd r) = ss_world st" "ss_sink (snd r) = ss_sink st"
    and "\<And>a st'. r = (Inr a, st') \<Longrightarrow> session_inv env (f a) st'"
  shows "step_ok env pc st (continue None f r)"
proof (cases r)
  case (Pair v st')
  then show ?thesis using assms by (cases v) (simp_all add: step_ok_def continue_def)
qed

lemma request_ok:
  assumes "session_inv env (AtRequest m dest rs resume) st"
  shows "step_ok env (AtRequest m dest rs resume) st (session_step env (AtRequest m dest rs resume, st))"
proof -
  obtain r st' where r: "session_request env m dest rs resume st = (r, st')" by fastforce
  have i: "small_manifest m" "wf_state rs" "rs_chunk_count rs = chunk_count m" "resume \<or> received rs = {}"
    using assms by simp_all
  note q = session_request_result [OF i(2) r]
  have t: "touches (Some (m, dest)) (ss_world st) (ss_world st')"
    using q(1) by (auto simp: touches_def only_dirs_def session_files_def)
  show ?thesis
  proof (cases r)
    case (Inl e)
    then show ?thesis using r q(2,3) t by (simp add: step_ok_def continue_def)
  next
    case (Inr u)
    note o = open_frame(5) [OF q(4) [OF Inr] TrueI]
    have "initial_view m dest (ss_world st) resume (sink_view (ss_world st') (ss_sink st'))"
      using o by (auto simp: initial_view_def new_FileSink_def)
    moreover have "transferred env m rs resume (ss_sink st') (ss_world st') [] (new_transfer (e_b3 env) rs resume) st'"
      using loop_inv_start [OF i(2,3) q(2) i(4), of env] i sink.none by (auto simp: transferred_def new_transfer_def)
    ultimately have "storing env m dest resume (new_transfer (e_b3 env) rs resume) st'"
      using i(1) q(2) o unfolding storing_def by (auto simp: sink_on_def)
    then show ?thesis using r Inr t by (simp add: step_ok_def continue_def)
  qed
qed

lemma chunk_ok:
  assumes "session_inv env (InLoop m dest resume tr) st"
  shows "step_ok env (InLoop m dest resume tr) st (session_step env (InLoop m dest resume tr, st))"
proof -
  obtain rs k1 w1 cks w0 where s: "small_manifest m" "sink_on dest (ss_sink st)" "sink_ready w1 k1"
    "sk_total_size k1 = file_size m" "sk_partial_path k1 = partial_path dest"
    "initial_view m dest w0 resume (sink_view w1 k1)" "transferred env m rs resume k1 w1 cks tr st"
    using assms by (auto simp: storing_def)
  obtain stt tr' st' where c: "chunk_step env m dest (Running, tr, st) = (stt, tr', st')" by (metis surj_pair)
  have "loop_inv env m dest rs resume k1 w1 (ss_world st) (Running, tr, st)" using s by (auto simp: loop_inv_def)
  then have "loop_inv env m dest rs resume k1 w1 (ss_world st) (stt, tr', st')"
    using chunk_step_inv [OF _ s(5)] s(1) c by (metis fst_conv small_manifest_def)
  then have l: "unchanged_outside (loop_files dest) (ss_world st) (ss_world st')" "sink_on dest (ss_sink st')"
    "stt = Failed ReturnFalse \<or> (stt = Running \<or> stt = Finished) \<and> (\<exists>cks. transferred env m rs resume k1 w1 cks tr' st')"
    by (simp_all add: loop_inv_def)
  have "storing env m dest resume tr' st'" if "stt \<noteq> Failed ReturnFalse"
    using s l that unfolding storing_def by blast
  then show ?thesis
    using c l touches_unchanged [OF l(1) loop_files_subset(1)] by (cases stt) (auto simp: step_ok_def)
qed

lemma check_ok:
  assumes "session_inv env (AtCheck m dest resume tr) st"
  shows "step_ok env (AtCheck m dest resume tr) st (session_step env (AtCheck m dest resume tr, st))"
proof -
  obtain rs k1 w1 cks w0 where s: "sink_on dest (ss_sink st)" "sink_ready w1 k1" "sk_total_size k1 = file_size m"
    "initial_view m dest w0 resume (sink_view w1 k1)" "transferred env m rs resume k1 w1 cks tr st"
    using assms by (auto simp: storing_def)
  obtain r st' where r: "session_check env m resume tr st = (r, st')" by fastforce
  note c = session_check_result [OF s(5,1,2,3) r]
  show ?thesis
    using r c(2,3,4) s(4) touches_unchanged [OF c(1) loop_files_subset(2)]
    by (cases r) (auto simp: step_ok_def continue_def)
qed

lemma finish_ok:
  assumes "session_inv env (AtFinish m dest resume) st"
  shows "step_ok env (AtFinish m dest resume) st (session_step env (AtFinish m dest resume, st))"
proof -
  obtain v0 w0 where s: "sink_on dest (ss_sink st)" "sink_ready (ss_world st) (ss_sink st)"
    "initial_view m dest w0 resume v0" "accepted env m resume v0 (sink_view (ss_world st) (ss_sink st))"
    using assms by auto
  obtain r st' where r: "session_finish env m dest st = (r, st')" by fastforce
  note f = session_finish_result [OF s(1,2) r]
  have "placed env m dest (ss_world st')" if "r = Inr ()"
    using f(5) [OF that] s(3,4) unfolding placed_def by blast
  then show ?thesis
    using r f(2,3) touches_unchanged [OF f(1) subset_refl] by (simp add: step_ok_def)
qed

lemma close_ok:
  assumes "session_inv env (Closing t r) st"
  shows "step_ok env (Closing t r) st (session_step env (Closing t r, st))"
proof -
  obtain k w where c: "FileSink_close (ss_world st) (ss_sink st) = (k, w)" by fastforce
  have r: "verdict_of r \<noteq> UndefinedBehaviour" "verdict_of r = Returned True \<Longrightarrow> r = Inr ()"
    using assms by (cases r; cases "projl r"; simp)+
  show ?thesis
  proof (cases t)
    case None
    then have "w = ss_world st" using close_frame(2) [OF c] assms by simp
    then show ?thesis using None c r assms by (auto simp: step_ok_def)
  next
    case (Some md)
    obtain m dest where md: "md = (m, dest)" by fastforce
    then have u: "unchanged_outside {partial_path dest} (ss_world st) w"
      using assms Some close_sink_on [OF _ c] by simp
    then have "placed env m dest w" if "r = Inr ()"
      using assms Some md that by (simp add: placed_def unchanged_outside_def)
    then show ?thesis
      using c r Some md touches_unchanged [OF u loop_files_subset(2)] by (auto simp: step_ok_def)
  qed
qed

lemma session_step_ok:
  assumes "session_inv env pc st"
  shows "step_ok env pc st (session_step env (pc, st))"
proof (cases pc)
  case AtHandshake
  then show ?thesis using assms
    by (auto simp: session_handshake_def intro!: quiet_phase_ok split: prod.splits)
next
  case AtHello
  then show ?thesis using assms session_hello_keeps [of env st] by (auto intro!: quiet_phase_ok)
next
  case AtManifest
  then show ?thesis using assms session_manifest_keeps [of env st] session_manifest_Inr [of env st]
    by (auto intro!: quiet_phase_ok split: prod.splits)
next
  case (AtState m dest)
  obtain r st' where r: "session_state env m dest st = (r, st')" by fastforce
  have "small_manifest m" using assms AtState by simp
  then obtain rs resume where "r = Inr (rs, resume)" "wf_state rs" "rs_chunk_count rs = chunk_count m"
    "unchanged_outside {state_path dest} (ss_world st) (ss_world st')" "ss_sink st' = ss_sink st"
    "\<not> resume \<Longrightarrow> received rs = {}" using session_state_result [OF _ r] by metis
  then show ?thesis using r assms AtState touches_unchanged [OF _ loop_files_subset(3)]
    by (auto simp: step_ok_def continue_def)
next
  case (Done t v)
  then show ?thesis using assms by (simp add: step_ok_def)
next
  case (AtRequest m dest rs resume)
  show ?thesis unfolding AtRequest by (rule request_ok) (use assms AtRequest in simp)
next
  case (InLoop m dest resume tr)
  show ?thesis unfolding InLoop by (rule chunk_ok) (use assms InLoop in simp)
next
  case (AtCheck m dest resume tr)
  show ?thesis unfolding AtCheck by (rule check_ok) (use assms AtCheck in simp)
next
  case (AtFinish m dest resume)
  show ?thesis unfolding AtFinish by (rule finish_ok) (use assms AtFinish in simp)
next
  case (Closing t r)
  show ?thesis unfolding Closing by (rule close_ok) (use assms Closing in simp)
qed


subsection \<open>Processes that share a world\<close>

text \<open>
  The contract that lets invariants of single processes be combined: a process \<open>l\<close> takes a step on the
  shared world, which keeps its invariant and changes only places it may change, and the invariant
  depends only on the places the process relies on.
\<close>

locale sharing =
  fixes step :: "'l \<Rightarrow> 'w \<Rightarrow> 'l \<times> 'w"
    and look :: "'w \<Rightarrow> 'a \<Rightarrow> 'v"
    and inv :: "'l \<Rightarrow> 'w \<Rightarrow> bool"
    and relies :: "'l \<Rightarrow> 'a set"
    and may :: "'l \<Rightarrow> 'a set"
  assumes step_inv: "inv l w \<Longrightarrow> step l w = (l', w') \<Longrightarrow> inv l' w'"
    and guarantee: "inv l w \<Longrightarrow> step l w = (l', w') \<Longrightarrow> a \<notin> may l' \<Longrightarrow> look w' a = look w a"
    and stable: "inv l w \<Longrightarrow> (\<And>a. a \<in> relies l \<Longrightarrow> look w' a = look w a) \<Longrightarrow> inv l w'"
begin

definition separate :: "'l list \<Rightarrow> bool" where
  "separate ls \<longleftrightarrow> (\<forall>i<length ls. \<forall>j<length ls. i \<noteq> j \<longrightarrow> relies (ls ! i) \<inter> may (ls ! j) = {})"

lemma all_keep:
  assumes inv: "\<forall>l\<in>set ls. inv l w" and i: "i < length ls" and st: "step (ls ! i) w = (l', w')"
    and sep: "separate (ls[i := l'])"
  shows "\<forall>l\<in>set (ls[i := l']). inv l w'"
proof
  fix l assume "l \<in> set (ls[i := l'])"
  then obtain j where j: "j < length ls" "l = (if j = i then l' else ls ! j)"
    by (auto simp: in_set_conv_nth nth_list_update)
  have inv': "inv (ls ! k) w" if "k < length ls" for k using inv that by simp
  show "inv l w'"
  proof (cases "j = i")
    case True
    then show ?thesis using j(2) step_inv [OF inv' [OF i] st] by simp
  next
    case False
    then have "relies l \<inter> may l' = {}"
      using sep i j unfolding separate_def by (metis length_list_update nth_list_update_eq nth_list_update_neq)
    then show ?thesis using False j stable [OF inv' [OF j(1)]] guarantee [OF inv' [OF i] st] by auto
  qed
qed

end

subsection \<open>Threads\<close>

text \<open>
  A thread is a session without the world, which all threads share. \<^verbatim>\<open>run\<close> starts a detached thread
  for every accepted socket; threads take their steps in any order, and a thread that is done goes
  away.
\<close>

record ('s, 'h) thread =
  th_pc :: "'h pc"
  th_conn :: "'s Connection"
  th_sink :: FileSink

definition thread_session :: "('s, 'h) thread \<Rightarrow> world \<Rightarrow> 's session" where
  "thread_session th w = \<lparr>ss_conn = th_conn th, ss_world = w, ss_sink = th_sink th\<rparr>"

definition thread_of :: "'h pc \<times> 's session \<Rightarrow> ('s, 'h) thread" where
  "thread_of l = \<lparr>th_pc = fst l, th_conn = ss_conn (snd l), th_sink = ss_sink (snd l)\<rparr>"

definition spawn :: "('s, 'h) session_env \<Rightarrow> 's \<Rightarrow> world \<Rightarrow> ('s, 'h) thread" where
  "spawn env socket w = thread_of (AtHandshake, new_session env socket w)"

inductive threads_step ::
    "('s, 'h) session_env \<Rightarrow> ('s, 'h) thread list \<times> world \<Rightarrow> ('s, 'h) thread list \<times> world \<Rightarrow> bool" for env where
  accept: "threads_step env (ths, w) (ths @ [spawn env socket w], w)"
| run: "i < length ths \<Longrightarrow> session_step env (th_pc (ths ! i), thread_session (ths ! i) w) = l \<Longrightarrow>
    threads_step env (ths, w) (ths[i := thread_of l], ss_world (snd l))"
| exit: "threads_step env (ths1 @ \<lparr>th_pc = Done t v, th_conn = c, th_sink = k\<rparr> # ths2, w) (ths1 @ ths2, w)"

inductive_cases threads_stepE: "threads_step env s s'"

text \<open>
  The destinations of the threads keep out of each other's way: none is, or is a companion file of,
  another one, or lies on the way to another one.
\<close>

definition apart :: "('s, 'h) thread list \<Rightarrow> bool" where
  "apart ths \<longleftrightarrow>
     (\<forall>i<length ths. \<forall>j<length ths. \<forall>m dest m' dest'. i \<noteq> j \<longrightarrow>
        target_of (th_pc (ths ! i)) = Some (m, dest) \<longrightarrow> target_of (th_pc (ths ! j)) = Some (m', dest') \<longrightarrow>
        session_files dest \<inter> (session_files dest' \<union> dirs_of dest') = {})"

inductive threads_run ::
    "('s, 'h) session_env \<Rightarrow> world \<Rightarrow> ('s, 'h) thread list \<times> world \<Rightarrow> bool" for env w0 where
  start: "threads_run env w0 ([], w0)"
| step: "threads_run env w0 s \<Longrightarrow> threads_step env s s' \<Longrightarrow> apart (fst s') \<Longrightarrow> threads_run env w0 s'"

lemma thread_session_of: "thread_session (thread_of l) (ss_world (snd l)) = snd l"
  by (simp add: thread_session_def thread_of_def)

lemma thread_session_world: "thread_session th w' = (thread_session th w)\<lparr>ss_world := w'\<rparr>"
  by (simp add: thread_session_def)

definition thread_step :: "('s, 'h) session_env \<Rightarrow> ('s, 'h) thread \<Rightarrow> world \<Rightarrow> ('s, 'h) thread \<times> world" where
  "thread_step env th w =
     (let l = session_step env (th_pc th, thread_session th w) in (thread_of l, ss_world (snd l)))"

definition thread_inv :: "('s, 'h) session_env \<Rightarrow> ('s, 'h) thread \<Rightarrow> world \<Rightarrow> bool" where
  "thread_inv env th w \<longleftrightarrow> session_inv env (th_pc th) (thread_session th w)"

fun target_files :: "target \<Rightarrow> string set" where
  "target_files None = {}"
| "target_files (Some (m, dest)) = session_files dest"

fun target_dirs :: "target \<Rightarrow> string set" where
  "target_dirs None = {}"
| "target_dirs (Some (m, dest)) = dirs_of dest"

lemma thread_step_ok:
  assumes "thread_inv env th w" "thread_step env th w = (th', w')"
  shows "thread_inv env th' w'" "touches (target_of (th_pc th')) w w'"
proof -
  obtain l where l: "session_step env (th_pc th, thread_session th w) = l" "th' = thread_of l" "w' = ss_world (snd l)"
    using assms(2) by (auto simp: thread_step_def Let_def)
  have "step_ok env (th_pc th) (thread_session th w) l"
    using session_step_ok [OF assms(1) [unfolded thread_inv_def]] l(1) by simp
  moreover have "th_pc (thread_of l) = fst l" "ss_world (thread_session th w) = w"
    by (simp_all add: thread_of_def thread_session_def)
  ultimately show "thread_inv env th' w'" "touches (target_of (th_pc th')) w w'"
    unfolding l(2,3) by (simp_all add: thread_inv_def step_ok_def thread_session_of)
qed

interpretation threads: sharing "thread_step env" files "thread_inv env"
  "\<lambda>th. target_files (target_of (th_pc th))" "\<lambda>th. target_files (target_of (th_pc th)) \<union> target_dirs (target_of (th_pc th))"
  for env :: "('s, 'h) session_env"
proof
  fix th th' :: "('s, 'h) thread" and w w' :: world
  assume inv: "thread_inv env th w"
  show "thread_inv env th' w'" if "thread_step env th w = (th', w')" by (rule thread_step_ok(1) [OF inv that])
  show "files w' a = files w a"
    if "thread_step env th w = (th', w')" "a \<notin> target_files (target_of (th_pc th')) \<union> target_dirs (target_of (th_pc th'))" for a
    using thread_step_ok(2) [OF inv that(1)] that(2)
    by (cases "target_of (th_pc th')") (auto simp: touches_def only_dirs_def)
  show "thread_inv env th w'" if "\<And>a. a \<in> target_files (target_of (th_pc th)) \<Longrightarrow> files w' a = files w a"
    using session_inv_undisturbed [OF inv [unfolded thread_inv_def], of w'] that
    by (simp add: thread_inv_def thread_session_world [of th w' w] thread_session_def)
qed

lemma apart_separate: "apart ths \<Longrightarrow> threads.separate ths"
proof -
  assume "apart ths"
  then have "target_files (target_of (th_pc (ths ! i))) \<inter>
      (target_files (target_of (th_pc (ths ! j))) \<union> target_dirs (target_of (th_pc (ths ! j)))) = {}"
    if "i < length ths" "j < length ths" "i \<noteq> j" for i j
    using that unfolding apart_def
    by (cases "target_of (th_pc (ths ! i))"; cases "target_of (th_pc (ths ! j))") (auto simp: split_paired_all)
  then show ?thesis unfolding threads.separate_def by blast
qed

lemma threads_run_inv: "threads_run env w0 s \<Longrightarrow> \<forall>th\<in>set (fst s). thread_inv env th (snd s)"
proof (induction rule: threads_run.induct)
  case (step s s')
  from step.hyps(2) show ?case
  proof (cases rule: threads_step.cases)
    case (accept ths w socket)
    then show ?thesis using step.IH
      by (auto simp: thread_inv_def spawn_def thread_of_def thread_session_def new_session_def new_FileSink_def closed_ofstream_def)
  next
    case (run i ths w l)
    have "thread_step env (ths ! i) w = (thread_of l, ss_world (snd l))" using run(4) by (simp add: thread_step_def)
    moreover have "threads.separate (ths[i := thread_of l])" using apart_separate step.hyps(3) run(2) by simp
    ultimately show ?thesis using threads.all_keep [of ths env w i] step.IH run by simp
  next
    case (exit ths1 t v c k ths2 w)
    then show ?thesis using step.IH by auto
  qed
qed simp


subsection \<open>A run with two threads\<close>

text \<open>While one thread runs, the others stay where they are.\<close>

lemma lone_runner:
  assumes "threads_run env w0 ([thread_of l, th], ss_world (snd l))" "target_of (th_pc th) = None"
  shows "threads_run env w0 ([thread_of ((session_step env ^^ n) l), th], ss_world (snd ((session_step env ^^ n) l)))"
proof (induction n)
  case 0
  then show ?case using assms(1) by simp
next
  case (Suc n)
  let ?l = "(session_step env ^^ n) l"
  have "session_step env (th_pc ([thread_of ?l, th] ! 0), thread_session ([thread_of ?l, th] ! 0) (ss_world (snd ?l))) =
      session_step env ?l"
    by (simp add: thread_session_of) (simp add: thread_of_def)
  then have "threads_step env ([thread_of ?l, th], ss_world (snd ?l))
      ([thread_of ?l, th][0 := thread_of (session_step env ?l)], ss_world (snd (session_step env ?l)))"
    by (intro threads_step.run) simp_all
  moreover have "apart [thread_of (session_step env ?l), th]"
    using assms(2) by (auto simp: apart_def less_Suc_eq)
  ultimately show ?case using threads_run.step [OF Suc] by simp
qed

lemma opening_steps:
  assumes rel: "reliable (e_ops env) inb outb" and plain: "e_ssl_ctx env = None"
    and inb: "inb s = hello_wire @ manifest_wire m @ bs"
    and m: "valid_manifest m" "length (encode_manifest m) \<le> kDefaultMaxPayload"
    and dest: "resolve_dest (e_root env) (path m) = Some dest"
  obtains st where "leads_to env (AtHandshake, new_session env s w) (AtState m dest, st)"
    "handle_session env s w = map_option (end_session env) (session_receive env m dest st)"
    "ss_world st = w" "inb (cn_stream (ss_conn st)) = bs"
proof -
  let ?st = "new_session env s w"
  have i0: "inb (cn_stream (ss_conn ?st)) = hello_wire @ manifest_wire m @ bs"
    using inb plain by (simp add: new_session_def Connection_plain_def)
  obtain st1 where 1: "session_hello env ?st = (Inr (), st1)" "inb (cn_stream (ss_conn st1)) = manifest_wire m @ bs"
    "ss_world st1 = ss_world ?st"
    using session_hello_honest [OF rel i0] by auto
  obtain st2 where 2: "session_manifest env st1 = (Inr (m, dest), st2)" "inb (cn_stream (ss_conn st2)) = bs"
    "ss_world st2 = ss_world st1"
    by (rule session_manifest_honest [OF rel 1(2) m dest])
  have "(session_step env ^^ 3) (AtHandshake, ?st) = (AtState m dest, st2)"
    using 1(1) 2(1) plain by (simp add: eval_nat_numeral session_handshake_def continue_def)
  moreover have "handle_session env s w = map_option (end_session env) (session_receive env m dest st2)"
    using 1(1) 2(1) plain by (simp add: handle_session_def session_body_def and_then_def new_session_def)
  ultimately show thesis
    by (intro that [of st2]) (use 1(3) 2(2,3) in \<open>auto simp: leads_to_def new_session_def\<close>)
qed

lemma demo_threads:
  obtains th w where "threads_run demo_env demo_world ([th, spawn demo_env ([], []) demo_world], w)"
    "th_pc th = Done (Some (demo_manifest, ''/srv/a/f'')) (Returned True)"
proof -
  let ?l = "(AtHandshake, new_session demo_env demo_stream demo_world)"
  obtain st where st: "leads_to demo_env ?l (AtState demo_manifest ''/srv/a/f'', st)"
    "handle_session demo_env demo_stream demo_world = map_option (end_session demo_env) (session_receive demo_env demo_manifest ''/srv/a/f'' st)"
    by (rule opening_steps [OF demo_rel _ demo_opening(2) demo_valid demo_resolve]) simp
  obtain s' w' where "handle_session demo_env demo_stream demo_world = Some (Returned True, s', w')" by (rule demo_session)
  then obtain y where y: "session_receive demo_env demo_manifest ''/srv/a/f'' st = Some y"
    "end_session demo_env y = (Returned True, s', w')" using st(2) by auto
  obtain st' where "leads_to demo_env (AtState demo_manifest ''/srv/a/f'', st)
      (Done (Some (demo_manifest, ''/srv/a/f'')) (Returned True), st')"
    by (rule ends_done [OF session_receive_ends [OF y(1)] y(2)])
  from leads_to_trans [OF st(1) this] obtain n where
    n: "(session_step demo_env ^^ n) ?l = (Done (Some (demo_manifest, ''/srv/a/f'')) (Returned True), st')"
    by (auto simp: leads_to_def)
  let ?th = "spawn demo_env ([], []) demo_world"
  have none: "target_of (th_pc (spawn env socket w)) = None" for env :: "('a, 'b) session_env" and socket w
    by (simp add: spawn_def thread_of_def)
  have "threads_run demo_env demo_world ([spawn demo_env demo_stream demo_world], demo_world)"
    using threads_run.step [OF threads_run.start threads_step.accept] by (fastforce simp: apart_def)
  from threads_run.step [OF this threads_step.accept]
  have "threads_run demo_env demo_world ([thread_of ?l, ?th], ss_world (snd ?l))"
    by (simp add: apart_def none less_Suc_eq spawn_def [of _ demo_stream] new_session_def)
  from lone_runner [OF this none, of n] n show thesis by (intro that) (auto simp: thread_of_def)
qed

subsection \<open>Destinations that are not apart\<close>

text \<open>
  That destinations differ does not keep them apart: \<^verbatim>\<open>is_path_safe\<close> reserves no suffix, so a transfer may
  name another one's partial file or state file as its destination.
\<close>

lemma companion_path_accepted:
  "resolve_dest ''/srv'' ''a/f'' = Some ''/srv/a/f''"
  "resolve_dest ''/srv'' ''a/f.partial'' = Some (partial_path ''/srv/a/f'')"
  "resolve_dest ''/srv'' ''a/f.ftxstate'' = Some (state_path ''/srv/a/f'')"
  by code_simp+

text \<open>
  Nor does it refuse a NUL byte, at which the operating system's calls end a path: such a destination, its
  partial file and its state file are one file to them. Paths in this development are taken as a whole.
\<close>

definition c_str :: "string \<Rightarrow> string" where
  "c_str p = takeWhile (\<lambda>c. c \<noteq> CHR 0x00) p"

lemma nul_path_accepted: "resolve_dest ''/srv'' (''a/f'' @ [CHR 0x00]) = Some (''/srv/a/f'' @ [CHR 0x00])"
  by code_simp

lemma nul_path_one_file:
  assumes "CHR 0x00 \<in> set dest"
  shows "c_str (partial_path dest) = c_str dest" "c_str (state_path dest) = c_str dest"
  using assms by (simp_all add: c_str_def with_partial_suffix_def state_path_def takeWhile_append1 [of "CHR 0x00"])

subsection \<open>Properties\<close>

text \<open>The data of a session at each point, and the file its sink may have open.\<close>

fun pc_typed :: "'h pc \<Rightarrow> FileSink \<Rightarrow> bool" where
  "pc_typed (AtState m dest) k \<longleftrightarrow> valid_manifest m \<and> \<not> os_open (sk_stream k)"
| "pc_typed (AtRequest m dest rs resume) k \<longleftrightarrow>
     valid_manifest m \<and> wf_state rs \<and> rs_chunk_count rs = chunk_count m \<and> \<not> os_open (sk_stream k)"
| "pc_typed (InLoop m dest resume tr) k \<longleftrightarrow>
     valid_manifest m \<and> wf_state (tr_state tr) \<and> rs_chunk_count (tr_state tr) = chunk_count m \<and> sink_on dest k"
| "pc_typed (AtCheck m dest resume tr) k \<longleftrightarrow>
     valid_manifest m \<and> wf_state (tr_state tr) \<and> rs_chunk_count (tr_state tr) = chunk_count m \<and> sink_on dest k"
| "pc_typed (AtFinish m dest resume) k \<longleftrightarrow> sink_on dest k"
| "pc_typed (Closing (Some (m, dest)) r) k \<longleftrightarrow> r \<noteq> Inl Undefined \<and> sink_on dest k"
| "pc_typed (Closing None r) k \<longleftrightarrow> r \<noteq> Inl Undefined \<and> r \<noteq> Inr () \<and> \<not> os_open (sk_stream k)"
| "pc_typed (Done t v) k \<longleftrightarrow> v \<noteq> UndefinedBehaviour"
| "pc_typed _ k \<longleftrightarrow> \<not> os_open (sk_stream k)"





end
