(* ===== verification/Ftx_Crash.thy ===== *)
theory Ftx_Crash
  imports Ftx_Stale Ftx_Concurrent
begin

text \<open>
  A server that dies. What it leaves is the world of its last step: streams are not flushed, nothing is
  closed. \<^verbatim>\<open>handle_session_\<close> saves the resume state after every chunk \<open>so a crash mid-flight doesn't lose
  ground\<close>, but the bytes of the chunk may then still be in the buffer of the sink's stream.
\<close>

lemma session_loop_entered:
  assumes rel: "reliable (e_ops env) inb outb" and plain: "e_ssl_ctx env = None" and p: "placeable env m dest w"
    and v: "start_state env m dest v w resume rs" "missing rs = Some is" and inb: "inb s = hello_wire @ manifest_wire m @ bs"
  obtains st where
    "leads_to env (AtHandshake, new_session env s w) (InLoop m dest resume (new_transfer (e_b3 env) rs resume), st)"
    "loop_state env m dest rs resume (ss_sink st) (ss_world st) [] (new_transfer (e_b3 env) rs resume) st"
    "sink_ready (ss_world st) (ss_sink st)" "sk_total_size (ss_sink st) = file_size m"
    "sk_partial_path (ss_sink st) = partial_path dest" "sink_view (ss_world st) (ss_sink st) = v"
    "inb (cn_stream (ss_conn st)) = bs" "files (ss_world st) dest = files w dest"
proof -
  have m: "valid_manifest m" "length (encode_manifest m) \<le> kDefaultMaxPayload" "unat (file_size m) < 2 ^ 63"
     "resolve_dest (e_root env) (path m) = Some dest" "path_names dest \<noteq> []" "writable dest w"
    using p by (simp_all add: placeable_def)
  obtain st0 where 0: "leads_to env (AtHandshake, new_session env s w) (AtState m dest, st0)" "ss_world st0 = w"
    "inb (cn_stream (ss_conn st0)) = bs" by (rule opening_steps [OF rel plain inb m(1,2,4)])
  have w0: "writable dest (ss_world st0)" "start_state env m dest v (ss_world st0) resume rs" using 0(2) m(6) v(1) by simp_all
  obtain st1 st where 1: "session_state env m dest st0 = (Inr (rs, resume), st1)"
    "session_request env m dest rs resume st1 = (Inr (), st)"
    "loop_state env m dest rs resume (ss_sink st) (ss_world st) [] (new_transfer (e_b3 env) rs resume) st"
    "sink_ready (ss_world st) (ss_sink st)" "sk_total_size (ss_sink st) = file_size m"
    "sk_partial_path (ss_sink st) = partial_path dest" "sink_view (ss_world st) (ss_sink st) = v"
    "inb (cn_stream (ss_conn st)) = inb (cn_stream (ss_conn st0))" "files (ss_world st) dest = files (ss_world st0) dest"
    by (rule session_enters [OF rel manifest_fits_small [OF m(1,2)] m(3,5) w0 v(2)])
  have "(session_step env ^^ 2) (AtState m dest, st0) = (InLoop m dest resume (new_transfer (e_b3 env) rs resume), st)"
    using 1(1,2) by (simp add: eval_nat_numeral continue_def)
  then have "leads_to env (AtState m dest, st0) (InLoop m dest resume (new_transfer (e_b3 env) rs resume), st)"
    unfolding leads_to_def by blast
  from that [OF leads_to_trans [OF 0(1) this] 1(3-7)] 1(8,9) 0(2,3) show thesis by simp
qed

subsection \<open>Several steps\<close>

lemma step_ok_trans:
  assumes "step_ok env pc st l" "step_ok env (fst l) (snd l) l'"
  shows "step_ok env pc st l'"
proof (cases "target_of (fst l)")
  case None
  then show ?thesis using assms by (auto simp: step_ok_def touches_def)
next
  case (Some t)
  then show ?thesis using assms by (auto simp: step_ok_def touches_def intro: only_dirs_trans split: prod.splits)
qed

lemma steps_ok:
  assumes "session_inv env pc st"
  shows "step_ok env pc st ((session_step env ^^ n) (pc, st))"
proof (induction n)
  case 0
  then show ?case using assms by (simp add: step_ok_def)
next
  case (Suc n)
  let ?l = "(session_step env ^^ n) (pc, st)"
  have "session_inv env (fst ?l) (snd ?l)" using Suc by (simp add: step_ok_def)
  from step_ok_trans [OF Suc session_step_ok [OF this]] show ?case by simp
qed

lemma started_session_touches:
  assumes "leads_to env (AtHandshake, new_session env s w) (pc, st)" "target_of pc = Some (m, dest)"
  shows "only_dirs (dirs_of dest) (session_files dest) w (ss_world st)"
proof -
  have "session_inv env AtHandshake (new_session env s w)" by (simp add: new_session_def new_FileSink_def closed_ofstream_def)
  then have "step_ok env AtHandshake (new_session env s w) (pc, st)" using assms(1) steps_ok unfolding leads_to_def by metis
  then show ?thesis using assms(2) by (simp add: step_ok_def touches_def new_session_def)
qed

lemma placeable_during:
  assumes p: "placeable env m dest w" and o: "only_dirs (dirs_of dest) (session_files dest) w w'" and w: "writable dest w'"
  shows "placeable env m dest w'"
proof -
  have "path_names dest \<noteq> []" using p by (simp add: placeable_def)
  then have "files w' q \<noteq> Some (Regular c)" if "q \<in> dirs_of dest" for q c
    using p o that session_files_not_dirs by (fastforce simp: only_dirs_def placeable_def)
  then show ?thesis using p w by (simp add: placeable_def)
qed

subsection \<open>The state outruns the data\<close>

lemma chunk_then_crash:
  assumes rel: "reliable (e_ops env) inb outb" and plain: "e_ssl_ctx env = None"
    and d: "describes (e_b3 env) m T" "unat (chunk_size m) + 36 \<le> kDefaultMaxPayload"
    and p: "placeable env m dest w" and v: "start_state env m dest v w resume rs"
    and i: "missing rs = Some is" "i < chunk_count m"
    and j: "j < length T" "j div unat (chunk_size m) = unat i" "v ! j \<noteq> T ! j"
    and inb: "inb s = hello_wire @ manifest_wire m @ chunk_wire (e_b3 env) m T i @ bs"
  obtains n tr st where "(session_step env ^^ n) (AtHandshake, new_session env s w) = (InLoop m dest resume tr, st)"
    "received (tr_state tr) = insert (unat i) (received rs)" "stale env m dest T (ss_world st) (tr_state tr)"
proof -
  let ?tr0 = "new_transfer (e_b3 env) rs resume" and ?ck = "chunk_msg (e_b3 env) m T i"
  obtain st0 where 0: "leads_to env (AtHandshake, new_session env s w) (InLoop m dest resume ?tr0, st0)"
    "loop_state env m dest rs resume (ss_sink st0) (ss_world st0) [] ?tr0 st0"
    "sink_ready (ss_world st0) (ss_sink st0)" "sk_total_size (ss_sink st0) = file_size m"
    "sk_partial_path (ss_sink st0) = partial_path dest" "sink_view (ss_world st0) (ss_sink st0) = v"
    "inb (cn_stream (ss_conn st0)) = chunk_wire (e_b3 env) m T i @ bs"
    by (rule session_loop_entered [OF rel plain p v i(1) inb])
  obtain tr st where 1: "chunk_step env m dest (Running, ?tr0, st0) = (Running, tr, st)"
    "loop_state env m dest rs resume (ss_sink st0) (ss_world st0) ([] @ [?ck]) tr st"
    "files (ss_world st) (partial_path dest) = Some (Regular (sink_view (ss_world st0) (ss_sink st0)))"
    by (rule chunk_step_accepts [OF rel describes_sendable [OF d i(2)] 0(3-5,2,7)])
  have "session_step env (InLoop m dest resume ?tr0, st0) = (InLoop m dest resume tr, st)" using 1(1) by simp
  then have "leads_to env (InLoop m dest resume ?tr0, st0) (InLoop m dest resume tr, st)" by (metis leads_to_refl leads_to_step)
  note lt = leads_to_trans [OF 0(1) this]
  have t: "transferred env m rs resume (ss_sink st0) (ss_world st0) ([] @ [?ck]) tr st" and w: "writable dest (ss_world st)"
    and sv: "state_saved env m dest resume ([] @ [?ck]) (tr_state tr) (ss_world st)"
    using 1(2) unfolding loop_state_def by blast+
  then have "received (tr_state tr) = received rs \<union> (\<lambda>ck. unat (index ck)) ` set ([] @ [?ck])"
    and l: "wf_state (tr_state tr)" "rs_chunk_count (tr_state tr) = chunk_count m" unfolding transferred_def by blast+
  then have r: "received (tr_state tr) = insert (unat i) (received rs)" by simp
  have "placeable env m dest (ss_world st)"
    by (rule placeable_during [OF p started_session_touches [OF lt] w]) simp
  moreover have "length v = unat (file_size m)" using v by (auto simp: start_state_def split: if_splits)
  then have "start_state env m dest v (ss_world st) True (tr_state tr)"
    using l sv 1(3) 0(6) by (simp add: start_state_def state_saved_def)
  ultimately have "stale env m dest T (ss_world st) (tr_state tr)" using j r unfolding stale_def by auto
  with lt r show thesis using that unfolding leads_to_def by blast
qed



end
