(* ===== verification/Ftx_Termination.thy ===== *)
theory Ftx_Termination
  imports Ftx_Authentic
begin

text \<open>
  Sessions end: the chunk loop, the only loop of a session whose length the peer decides, stops when
  the stream runs dry.
\<close>

subsection \<open>Streams that run dry\<close>

text \<open>Every successful read takes from a finite supply; nothing is said of reads that fail.\<close>

definition drains :: "'s stream_ops \<Rightarrow> ('s \<Rightarrow> nat) \<Rightarrow> bool" where
  "drains ops \<mu> \<longleftrightarrow> (\<forall>s n d s'. 0 < n \<longrightarrow> st_read ops s n = ((None, d), s') \<longrightarrow> \<mu> s' < \<mu> s)"

lemma reliable_drains: "reliable ops inb outb \<Longrightarrow> drains ops (\<lambda>s. length (inb s))"
  unfolding drains_def
proof (intro allI impI)
  fix s n d s' assume rel: "reliable ops inb outb" and n: "0 < n" and r: "st_read ops s n = ((None, d), s')"
  show "length (inb s') < length (inb s)"
  proof (cases "n \<le> length (inb s)")
    case True
    then obtain s2 where "st_read ops s n = ((None, take n (inb s)), s2)" "inb s2 = drop n (inb s)"
      using rel unfolding reliable_def by blast
    then show ?thesis using True n r by simp
  next
    case False
    then obtain e d2 s2 where "st_read ops s n = ((Some e, d2), s2)"
      using rel unfolding reliable_def by (meson not_less)
    then show ?thesis using r by simp
  qed
qed

lemma recv_frame_drains:
  assumes d: "drains ops \<mu>" and r: "recv_frame ops c m = (Some f, c')"
  shows "\<mu> (cn_stream c') < \<mu> (cn_stream c)"
proof -
  obtain ec d1 s where 1: "st_read ops (cn_stream c) kHeaderSize = ((ec, d1), s)" by (metis surj_pair)
  have ec: "ec = None" using r 1 by (cases ec) (simp_all add: recv_frame_def)
  then have s: "\<mu> s < \<mu> (cn_stream c)" using d 1 unfolding drains_def by (metis kHeaderSize_def zero_less_numeral)
  have s2: "\<mu> s' < \<mu> s" if "st_read ops s n = ((None, d'), s')" "0 < n" for n d' s'
    using d that unfolding drains_def by blast
  obtain h where h: "decode_from (fill_buffer kHeaderSize d1) m = Inr h"
    using r 1 ec by (cases "decode_from (fill_buffer kHeaderSize d1) m") (simp_all add: recv_frame_def)
  show ?thesis
  proof (cases "payload_len h > 0")
    case True
    obtain ec2 d2 s' where 2: "st_read ops s (unat (payload_len h)) = ((ec2, d2), s')" by (metis surj_pair)
    then have "ec2 = None" "c' = c\<lparr>cn_stream := s'\<rparr>"
      using r 1 ec h True by (cases ec2; simp add: recv_frame_def Let_def)+
    moreover have "0 < unat (payload_len h)" using True by (simp add: word_less_nat_alt)
    ultimately show ?thesis using s2 [of "unat (payload_len h)" d2 s'] 2 s by simp
  next
    case False
    then show ?thesis using r 1 ec h s by (auto simp: recv_frame_def)
  qed
qed

lemma chunk_step_Running:
  assumes "chunk_step env m dest (x, tr, st) = (Running, tr', st')"
  obtains f c where "recv_frame (e_ops env) (ss_conn st) kDefaultMaxPayload = (Some f, c)" "ss_conn st' = c"
  using assms
  by (auto simp: chunk_step_def session_recv_def check_chunk_def store_chunk_def loop_reject_def Let_def
      split: prod.splits option.splits if_splits)

lemma chunk_loop_terminates:
  assumes "drains (e_ops env) \<mu>"
  obtains l where "chunk_loop env m dest tr st = Some l"
proof -
  have "\<exists>l. while_option (\<lambda>l. fst l = Running) (chunk_step env m dest) (Running, tr, st) = Some l"
  proof (rule measure_while_option_Some
      [where P = "\<lambda>_. True" and f = "\<lambda>(stt, tr, st). if stt = Running then Suc (\<mu> (cn_stream (ss_conn st))) else 0"])
    fix l :: "('a, 'b) loop" assume "fst l = Running"
    then obtain tr st where l: "l = (Running, tr, st)" by (cases l) simp
    obtain stt tr' st' where r: "chunk_step env m dest (Running, tr, st) = (stt, tr', st')" by (metis surj_pair)
    show "True \<and> (case chunk_step env m dest l of (stt, tr, st) \<Rightarrow> if stt = Running then Suc (\<mu> (cn_stream (ss_conn st))) else 0)
        < (case l of (stt, tr, st) \<Rightarrow> if stt = Running then Suc (\<mu> (cn_stream (ss_conn st))) else 0)"
    proof (cases "stt = Running")
      case True
      with r obtain f where "recv_frame (e_ops env) (ss_conn st) kDefaultMaxPayload = (Some f, ss_conn st')"
        by (auto elim: chunk_step_Running)
      from recv_frame_drains [OF assms this] True show ?thesis by (simp add: l r)
    qed (simp add: l r)
  qed simp
  then show thesis using that by (auto simp: chunk_loop_def)
qed

lemma and_then_returns: "(\<And>a st'. f a st' \<noteq> None) \<Longrightarrow> and_then r f \<noteq> None"
  by (auto simp: and_then_def split: prod.splits sum.splits)

lemma session_verify_returns: "session_verify env m dest resume tr st \<noteq> None"
  unfolding session_verify_def by (intro and_then_returns) simp

lemma session_transfer_returns:
  assumes "drains (e_ops env) \<mu>"
  shows "session_transfer env m dest rs resume st \<noteq> None"
proof -
  obtain stt tr' st' where l: "chunk_loop env m dest (new_transfer (e_b3 env) rs resume) st = Some (stt, tr', st')"
    using chunk_loop_terminates [OF assms] by (metis surj_pair)
  then show ?thesis using session_verify_returns by (cases stt) (simp_all add: session_transfer_def)
qed

lemma session_receive_returns:
  assumes "drains (e_ops env) \<mu>"
  shows "session_receive env m dest st \<noteq> None"
proof -
  have "and_then (session_request env m dest rs resume st) (\<lambda>_. session_transfer env m dest rs resume) \<noteq> None" for rs resume st
    by (intro and_then_returns session_transfer_returns [OF assms])
  then show ?thesis unfolding session_receive_def by (intro and_then_returns) (simp split: prod.splits)
qed

lemma session_body_returns:
  assumes "drains (e_ops env) \<mu>"
  shows "session_body env st \<noteq> None"
proof -
  have "and_then (session_manifest env st) (\<lambda>(m, dest). session_receive env m dest) \<noteq> None" for st
    using session_receive_returns [OF assms] by (intro and_then_returns) (auto split: prod.splits)
  then show ?thesis unfolding session_body_def by (rule and_then_returns)
qed

text \<open>
  C11. Every session returns: when every successful read takes from a finite supply of the stream, as
  on a connection that ends some time, a session returns true or false, whatever the peer sends and
  whatever calls into the operating system fail.
\<close>

theorem session_terminates:
  assumes "drains (e_ops env) \<mu>"
  shows "\<exists>ok s' w'. handle_session env socket w = Some (Returned ok, s', w')"
proof -
  have "handle_session env socket w \<noteq> None"
    using session_body_returns [OF assms] unfolding handle_session_def Let_def
    by (simp only: option.map_disc_iff split: prod.split if_split) simp
  then obtain v s' w' where h: "handle_session env socket w = Some (v, s', w')" by (metis not_None_eq surj_pair)
  have "v \<noteq> UndefinedBehaviour" using h by (cases rule: handle_session_result) simp_all
  then show ?thesis using h by (cases v) auto
qed

theorem session_terminates_witness:
  "\<exists>ok s' w'. handle_session demo_env ([1, 2, 3], []) demo_world = Some (Returned ok, s', w')"
  using session_terminates [OF reliable_drains [OF demo_rel]] by blast

end
