(* ===== verification/Ftx_Main.thy ===== *)
theory Ftx_Main
  imports Ftx_Cli
begin

text \<open>
  \<^verbatim>\<open>main\<close> of \<^verbatim>\<open>src/cli/main.cpp\<close>: the options it declares to the argument parser and the variables they are
  bound to, the parse, and the dispatch. CLI11 itself is an argument: from the declarations and the
  arguments it makes an exit code (help, the version, a usage error), or the subcommand given and the
  values of its options in their order; it also converts values to numbers and flags. Help texts are
  left out.
\<close>

subsection \<open>Declarations\<close>

record opt_decl =
  od_name :: string
  od_is_flag :: bool
  od_required :: bool
  od_default :: "string option"

record sub_decl =
  sd_name :: string
  sd_options :: "opt_decl list"

record app_decl =
  ap_version_flag :: "string \<times> string"
  ap_subcommands :: "sub_decl list"
  ap_require_subcommand :: nat

definition add_option :: "string \<Rightarrow> opt_decl" where
  "add_option n = \<lparr>od_name = n, od_is_flag = False, od_required = False, od_default = None\<rparr>"

definition add_flag :: "string \<Rightarrow> opt_decl" where
  "add_flag n = \<lparr>od_name = n, od_is_flag = True, od_required = False, od_default = None\<rparr>"

definition add_tls_options :: "opt_decl list" where
  "add_tls_options =
     [add_option ''--tls-cert'', add_option ''--tls-key'', add_option ''--tls-ca'', add_flag ''--no-verify-peer'',
      add_option ''--sni'', add_flag ''--insecure'']"

definition serve_options :: "opt_decl list" where
  "serve_options =
     [(add_option ''--listen'')\<lparr>od_default := Some (listen_addr default_ServeOpts)\<rparr>,
      (add_option ''--root'')\<lparr>od_required := True\<rparr>] @ add_tls_options"

definition send_options :: "opt_decl list" where
  "send_options =
     [(add_option ''remote'')\<lparr>od_required := True\<rparr>, (add_option ''source'')\<lparr>od_required := True\<rparr>, add_option ''--out'',
      (add_option ''--chunk-size'')\<lparr>od_default := Some (dec_string (unat (send_chunk_size default_SendOpts)))\<rparr>] @
     add_tls_options"

definition ftx_app :: app_decl where
  "ftx_app =
     \<lparr>ap_version_flag = (''--version'', version),
      ap_subcommands = [\<lparr>sd_name = ''serve'', sd_options = serve_options\<rparr>, \<lparr>sd_name = ''send'', sd_options = send_options\<rparr>],
      ap_require_subcommand = 1\<rparr>"

subsection \<open>Bound variables\<close>

record cli11 =
  cl_parse :: "app_decl \<Rightarrow> string list \<Rightarrow> int + (string \<times> (string \<times> string) list)"
  cl_u32 :: "string \<Rightarrow> u32"
  cl_flag :: "string \<Rightarrow> bool"

text \<open>What the value \<open>v\<close> of the option \<open>n\<close> does to the variables of the TLS options and of the subcommands.\<close>

definition bind_tls :: "cli11 \<Rightarrow> string \<times> string \<Rightarrow> CommonTlsArgs \<Rightarrow> CommonTlsArgs" where
  "bind_tls cli nv a =
     (let (n, v) = nv
      in if n = ''--tls-cert'' then a\<lparr>tls_cert := v\<rparr>
         else if n = ''--tls-key'' then a\<lparr>tls_key := v\<rparr>
         else if n = ''--tls-ca'' then a\<lparr>tls_ca := v\<rparr>
         else if n = ''--no-verify-peer'' then a\<lparr>no_verify_peer := cl_flag cli v\<rparr>
         else if n = ''--sni'' then a\<lparr>tls_sni := v\<rparr>
         else if n = ''--insecure'' then a\<lparr>insecure := cl_flag cli v\<rparr>
         else a)"

definition bind_serve :: "cli11 \<Rightarrow> string \<times> string \<Rightarrow> ServeOpts \<Rightarrow> ServeOpts" where
  "bind_serve cli nv opts =
     (let (n, v) = nv
      in if n = ''--listen'' then opts\<lparr>listen_addr := v\<rparr>
         else if n = ''--root'' then opts\<lparr>serve_root := v\<rparr>
         else opts\<lparr>serve_tls := bind_tls cli nv (serve_tls opts)\<rparr>)"

definition bind_send :: "cli11 \<Rightarrow> string \<times> string \<Rightarrow> SendOpts \<Rightarrow> SendOpts" where
  "bind_send cli nv opts =
     (let (n, v) = nv
      in if n = ''remote'' then opts\<lparr>send_remote := v\<rparr>
         else if n = ''source'' then opts\<lparr>send_source := v\<rparr>
         else if n = ''--out'' then opts\<lparr>send_out := v\<rparr>
         else if n = ''--chunk-size'' then opts\<lparr>send_chunk_size := cl_u32 cli v\<rparr>
         else opts\<lparr>send_tls := bind_tls cli nv (send_tls opts)\<rparr>)"

definition serve_opts_of :: "cli11 \<Rightarrow> (string \<times> string) list \<Rightarrow> ServeOpts" where
  "serve_opts_of cli vals = foldl (\<lambda>opts nv. bind_serve cli nv opts) default_ServeOpts vals"

definition send_opts_of :: "cli11 \<Rightarrow> (string \<times> string) list \<Rightarrow> SendOpts" where
  "send_opts_of cli vals = foldl (\<lambda>opts nv. bind_send cli nv opts) default_SendOpts vals"

text \<open>\<^verbatim>\<open>main\<close>; with a subcommand that is neither it would return zero.\<close>

definition ftx_main ::
    "cli11 \<Rightarrow> (string \<Rightarrow> string + 'a) \<Rightarrow> (acceptor_call \<Rightarrow> string option) \<Rightarrow> ('s, 'h, 'e) client_env \<Rightarrow> string list \<Rightarrow> world \<Rightarrow>
     'a main_outcome \<times> world" where
  "ftx_main cli make_address throws env argv w =
     (case cl_parse cli ftx_app argv of
        Inl n \<Rightarrow> (MainExit n, w)
      | Inr (sub, vals) \<Rightarrow>
          if sub = ''serve'' then main_dispatch make_address throws env (CmdServe (serve_opts_of cli vals)) w
          else if sub = ''send'' then main_dispatch make_address throws env (CmdSend (send_opts_of cli vals)) w
          else (MainExit 0, w))"

subsection \<open>Flags that were not given\<close>

lemma bind_tls_keeps:
  "fst nv \<noteq> ''--insecure'' \<Longrightarrow> insecure (bind_tls cli nv a) = insecure a"
  "fst nv \<noteq> ''--no-verify-peer'' \<Longrightarrow> no_verify_peer (bind_tls cli nv a) = no_verify_peer a"
  by (auto simp: bind_tls_def split: prod.splits)

lemma bind_serve_tls: "serve_tls (bind_serve cli nv opts) = serve_tls opts \<or>
    serve_tls (bind_serve cli nv opts) = bind_tls cli nv (serve_tls opts)"
  by (auto simp: bind_serve_def split: prod.splits)

lemma bind_serve_keeps:
  "''--insecure'' \<noteq> fst nv \<Longrightarrow> insecure (serve_tls (bind_serve cli nv opts)) = insecure (serve_tls opts)"
  "''--no-verify-peer'' \<noteq> fst nv \<Longrightarrow> no_verify_peer (serve_tls (bind_serve cli nv opts)) = no_verify_peer (serve_tls opts)"
  using bind_serve_tls [of cli nv opts] by (auto simp: bind_tls_keeps)

lemma serve_flags:
  "''--insecure'' \<notin> fst ` set vals \<Longrightarrow> \<not> insecure (serve_tls (serve_opts_of cli vals))"
  "''--no-verify-peer'' \<notin> fst ` set vals \<Longrightarrow> \<not> no_verify_peer (serve_tls (serve_opts_of cli vals))"
proof -
  have "''--insecure'' \<notin> fst ` set vals \<Longrightarrow>
      insecure (serve_tls (foldl (\<lambda>opts nv. bind_serve cli nv opts) opts vals)) = insecure (serve_tls opts)" for opts
    by (induction vals arbitrary: opts) (simp_all add: bind_serve_keeps)
  moreover have "''--no-verify-peer'' \<notin> fst ` set vals \<Longrightarrow>
      no_verify_peer (serve_tls (foldl (\<lambda>opts nv. bind_serve cli nv opts) opts vals)) = no_verify_peer (serve_tls opts)" for opts
    by (induction vals arbitrary: opts) (simp_all add: bind_serve_keeps)
  ultimately show "''--insecure'' \<notin> fst ` set vals \<Longrightarrow> \<not> insecure (serve_tls (serve_opts_of cli vals))"
    "''--no-verify-peer'' \<notin> fst ` set vals \<Longrightarrow> \<not> no_verify_peer (serve_tls (serve_opts_of cli vals))"
    by (simp_all add: serve_opts_of_def default_ServeOpts_def default_CommonTlsArgs_def)
qed

text \<open>
  C32. TLS by default. When the command line does not have the flag \<^verbatim>\<open>--insecure\<close>, a server that \<^verbatim>\<open>main\<close>
  starts has a TLS context that is for TLS 1.3 alone and that, unless \<^verbatim>\<open>--no-verify-peer\<close> is given,
  requires and verifies the client's certificate.
\<close>

theorem main_tls_by_default:
  assumes "cl_parse cli ftx_app argv = Inr (sub, vals)" "''--insecure'' \<notin> fst ` set vals"
    and "ftx_main cli make_address throws env argv w = (MainServe srv ep, w')"
  shows "\<exists>ctx. sv_ssl_ctx srv = Some ctx \<and> tls13_only ctx \<and>
    (''--no-verify-peer'' \<notin> fst ` set vals \<longrightarrow>
       set (ctx_verify_mode ctx) = {verify_peer_flag, verify_fail_if_no_peer_cert})"
proof -
  let ?o = "serve_opts_of cli vals"
  have "run_serve make_address (c_tls_files env) throws ?o w = (ServeRun srv ep, w')"
    using assms(1,3) by (auto simp: ftx_main_def main_dispatch_def
        split: if_splits prod.splits serve_outcome.splits send_outcome.splits)
  note s = serve_tls_by_default [OF this]
  have "\<not> insecure (serve_tls ?o)" using serve_flags(1) [OF assms(2)] .
  then obtain ctx where "sv_ssl_ctx srv = Some ctx" using s by blast
  then show ?thesis using s serve_flags(2) [of vals cli] by blast
qed

text \<open>A parser that has found the given values.\<close>

definition found :: "string \<times> (string \<times> string) list \<Rightarrow> cli11" where
  "found r = \<lparr>cl_parse = (\<lambda>_ _. Inr r), cl_u32 = (\<lambda>_. 0), cl_flag = (\<lambda>_. True)\<rparr>"

theorem main_tls_by_default_witness:
  "\<forall>env :: (unit, unit, unit) client_env. \<exists>srv ep w' ctx.
     ftx_main (found (''serve'', [(''--root'', ''d''), (''--tls-cert'', ''c''), (''--tls-key'', ''k'')])) (\<lambda>h. Inr ()) (\<lambda>_. None)
       (env\<lparr>c_tls_files := \<lparr>can_load_certificate = (\<lambda>_. True), can_load_key = (\<lambda>_. True), can_load_verify = (\<lambda>_. True)\<rparr>\<rparr>)
       [''ftx'', ''serve''] \<lparr>files = Map.empty, faults = []\<rparr> = (MainServe srv ep, w') \<and>
     sv_ssl_ctx srv = Some ctx \<and> tls13_only ctx"
proof
  fix env :: "(unit, unit, unit) client_env"
  let ?vals = "[(''--root'', ''d''), (''--tls-cert'', ''c''), (''--tls-key'', ''k'')]"
  let ?cli = "found (''serve'', ?vals)"
  let ?fl = "\<lparr>can_load_certificate = (\<lambda>_. True), can_load_key = (\<lambda>_. True), can_load_verify = (\<lambda>_. True)\<rparr>"
  let ?w = "\<lparr>files = Map.empty, faults = []\<rparr>"
  let ?r = "run_serve (\<lambda>h. Inr ()) ?fl (\<lambda>_. None) (serve_opts_of ?cli ?vals) ?w"
  have "case ?r of (ServeRun _ _, _) \<Rightarrow> True | _ \<Rightarrow> False" by code_simp
  then obtain srv ep w' where "?r = (ServeRun srv ep, w')" by (auto split: prod.splits serve_outcome.splits)
  then have m: "ftx_main ?cli (\<lambda>h. Inr ()) (\<lambda>_. None) (env\<lparr>c_tls_files := ?fl\<rparr>) [''ftx'', ''serve''] ?w = (MainServe srv ep, w')"
    by (simp add: ftx_main_def main_dispatch_def found_def)
  have "cl_parse ?cli ftx_app [''ftx'', ''serve''] = Inr (''serve'', ?vals)" by (simp add: found_def)
  from main_tls_by_default [OF this _ m] m
  show "\<exists>srv ep w' ctx. ftx_main ?cli (\<lambda>h. Inr ()) (\<lambda>_. None) (env\<lparr>c_tls_files := ?fl\<rparr>) [''ftx'', ''serve''] ?w =
      (MainServe srv ep, w') \<and> sv_ssl_ctx srv = Some ctx \<and> tls13_only ctx" by fastforce
qed

end
