(* ===== verification/Spec2Isabelle.thy ===== *)
theory Spec2Isabelle
  imports Ftx_Bench Ftx_Crash Ftx_Termination Ftx_Main
begin

text \<open>
  A verification of ftx, a TCP file transfer program (\<^verbatim>\<open>include/ftx\<close>, \<^verbatim>\<open>src/lib\<close>, \<^verbatim>\<open>src/cli\<close>).

  \<^bold>\<open>The program.\<close> A client (\<^verbatim>\<open>transport/client.cpp\<close>) sends one file to a server
  (\<^verbatim>\<open>transport/server.cpp\<close>). Both talk in frames (\<^verbatim>\<open>proto/frame.cpp\<close>): an eight-byte payload
  length and type with a CRC-32C (\<^verbatim>\<open>util/crc32c.cpp\<close>), then the payload, one of seven messages
  (\<^verbatim>\<open>proto/messages.cpp\<close>). After HELLO both ways the client sends a manifest with the hash of every
  chunk and of the file (\<^verbatim>\<open>util/blake3.cpp\<close>), the server asks for the chunks it is missing, the
  client sends them and COMPLETE, the server verifies and sends ACK. The server writes to a
  .partial file (\<^verbatim>\<open>io/file_sink.cpp\<close>), keeps the set of received chunks in a state file
  (\<^verbatim>\<open>io/resume_state.cpp\<close>) from which a later session resumes, and renames the file into place; the
  client reads through \<^verbatim>\<open>io/file_source.cpp\<close>. Frames go over a plain or TLS stream
  (\<^verbatim>\<open>transport/connection.cpp\<close>, \<^verbatim>\<open>transport/tls.cpp\<close>). \<^verbatim>\<open>src/cli/main.cpp\<close> is the command line.

  \<^bold>\<open>The theories\<close>, in the order of the layers:

  \<^item> \<^verbatim>\<open>Ftx_Prelude\<close>: machine integers, bytes and strings, shared lemmas.
  \<^item> \<^verbatim>\<open>Ftx_Byteorder\<close>, \<^verbatim>\<open>Ftx_Crc32c\<close>, \<^verbatim>\<open>Ftx_Blake3\<close>: the util layer. The CRC table equals the
    bit-at-a-time register and finds bursts of 32 bits; the hash wrapper is independent of
    segmentation.
  \<^item> \<^verbatim>\<open>Ftx_Types\<close>, \<^verbatim>\<open>Ftx_Frame\<close>, \<^verbatim>\<open>Ftx_Decoder\<close>, \<^verbatim>\<open>Ftx_Messages\<close>: the protocol layer. The header and the
    message codecs are exact inverses (locale \<^verbatim>\<open>message_codec\<close>, interpreted on every message); the
    streaming decoder refines a one-pass parser and does not depend on how input is cut (locale
    \<^verbatim>\<open>segmented_consumer\<close>, interpreted on the CRC and on the decoder).
  \<^item> \<^verbatim>\<open>Ftx_Filesystem\<close>: the part of \<^verbatim>\<open>std::filesystem\<close> and \<^verbatim>\<open>std::fstream\<close> in use, with a schedule of
    faults; \<^verbatim>\<open>Ftx_Path\<close>: \<^verbatim>\<open>std::filesystem::path\<close> and the server's path checks.
  \<^item> \<^verbatim>\<open>Ftx_Resume_State\<close>, \<^verbatim>\<open>Ftx_File_Sink\<close>, \<^verbatim>\<open>Ftx_File_Source\<close>: the io layer. The bitmap is a set
    (interface locale), the sink is a random-access file (locale \<^verbatim>\<open>random_access_sink\<close>), saving and
    finalising are all or nothing under every fault.
  \<^item> \<^verbatim>\<open>Ftx_Tls\<close>, \<^verbatim>\<open>Ftx_Connection\<close>: TLS contexts as the calls made on them; frames over a stream
    (locale \<^verbatim>\<open>frame_channel\<close>). The streams are a parameter, the record \<^verbatim>\<open>stream_ops\<close>.
  \<^item> \<^verbatim>\<open>Ftx_Server\<close>: \<^verbatim>\<open>handle_session_\<close> phase by phase, with the invariant of its chunk loop;
    \<^verbatim>\<open>Ftx_Session\<close>: what any session, with any peer and any faults, can do; \<^verbatim>\<open>Ftx_Delivery\<close>: chunks
    that cover a file; \<^verbatim>\<open>Ftx_Accept\<close> and \<^verbatim>\<open>Ftx_Honest\<close>: sessions that succeed; \<^verbatim>\<open>Ftx_Authentic\<close>: what
    a completed session guarantees of the file, with a concrete transfer and rejected peers;
    \<^verbatim>\<open>Ftx_Termination\<close>: sessions end when the stream runs dry; \<^verbatim>\<open>Ftx_Resume\<close>: sessions that lose their
    connection and the ones that resume after them; \<^verbatim>\<open>Ftx_Stale\<close>: a resume state that claims too much.
  \<^item> \<^verbatim>\<open>Ftx_Daemon\<close>: construction of a server, the accept loop and \<^verbatim>\<open>stop\<close> as a step relation over their
    shared state; \<^verbatim>\<open>Ftx_Concurrent\<close>: a session cut into steps, the threads of the server as interleaved
    steps over one file system, and the invariant each session keeps whatever the others do (locale
    \<^verbatim>\<open>sharing\<close>, processes that rely on some places of a world and may change some, interpreted on the
    threads); \<^verbatim>\<open>Ftx_Crash\<close>: a server that dies between two steps of a session.
  \<^item> \<^verbatim>\<open>Ftx_Client\<close>: \<^verbatim>\<open>Client::send\<close> phase by phase; \<^verbatim>\<open>Ftx_Send\<close>: what the client puts on the wire;
    \<^verbatim>\<open>Ftx_Network\<close>: the closed system of a client and a server joined by two streams; \<^verbatim>\<open>Ftx_Limits\<close>: how
    large a file may be.
  \<^item> \<^verbatim>\<open>Ftx_Cli\<close>: host and port, TLS options, the two commands and exit codes, the version; \<^verbatim>\<open>Ftx_Main\<close>:
    the options declared to the argument parser, what they are bound to, and \<^verbatim>\<open>main\<close>; \<^verbatim>\<open>Ftx_Bench\<close>:
    the throughput probe of \<^verbatim>\<open>bench\<close>, up to and including its transfer.
  \<^item> This theory: client and server together.

  \<^bold>\<open>How code and model correspond.\<close> A class is a record, one definition stands for one method, an
  early return is a branch. Integers keep their width where the code computes with them. An access
  that would be undefined behaviour has a value of its own (\<^verbatim>\<open>None\<close> of \<^verbatim>\<open>vec_at\<close>, \<^verbatim>\<open>Undefined\<close>,
  \<^verbatim>\<open>ClientUndefined\<close>), so its absence is a theorem. The chunk loop of a session is \<^verbatim>\<open>while_option\<close>: a
  peer that never stops sending gives no result. The read-back loop ends because a read moves the
  position or ends the file. Nothing has fuel.

  \<^bold>\<open>Parameters and hypotheses.\<close> asio's streams, resolver and acceptor, OpenSSL, the BLAKE3 C library,
  CLI11 and the messages of error codes are parameters. Theorems that need more say so: \<^verbatim>\<open>reliable\<close>, what a
  connected stream documents; \<^verbatim>\<open>streaming\<close>, that a hash may be fed in pieces;
  \<^verbatim>\<open>second_preimage_free\<close>, that no other input has the hash of the data at hand; no faults, where a
  transfer is to succeed. Each has an instance in a witness.

  \<^bold>\<open>What is shown.\<close> No session has undefined behaviour or changes anything outside its destination
  below the root and that file's companions; a completed session for a manifest of a file \<open>T\<close> has
  put \<open>T\<close> in place, also when other sessions run at the same time with destinations apart; every
  session ends when its stream does; the client sends nothing but its file; client and server joined
  by two streams do not deadlock and complete, and a transfer that was cut off any number of times
  resumes with exactly what is missing; every file up to the documented 16 GiB fits; wrong versions and paths are answered with an error; the command line
  starts nothing without TLS unless told to. The properties also record where the code does less than
  its documents say: the layout of chunks in order is not checked, the chunk count is truncated, a
  port may have trailing characters, a path may have the name of another transfer's partial file, a
  resume state that claims too much is kept for ever, and a crash right behind a chunk can leave one.

  \<^bold>\<open>Not modelled.\<close> Logging. Help texts. \<^verbatim>\<open>local_port\<close>, a query of asio.
  Interleaving of sessions inside one of the steps of \<^verbatim>\<open>Ftx_Concurrent\<close> (one chunk, the checks, putting
  the file in place), and sessions for the same destination at the same time, which the program does
  not support. Symbolic links, and path strings that are different
  names of one file, other than through lexical normalisation: this includes strings with a NUL byte,
  which the operating system cuts there. Exceptions of memory allocation. What the throughput bench
  measures and prints.
\<close>

section \<open>Client and server together\<close>

text \<open>
  C6. End to end. A client sends the file \<open>T\<close> to a server, both over reliable streams and disks
  without faults, the server's disk fresh or with the state of an earlier session of the same
  manifest. The two byte sequences, HELLO, the manifest, the missing chunks and COMPLETE one way,
  HELLO, the request and ACK the other, are a run of both programs: each program, given the other's
  bytes, sends exactly its own; the client's call returns true, the session returns true, and the
  destination holds \<open>T\<close>.
\<close>

theorem end_to_end:
  assumes "reliable (c_ops cenv) cin cout" "reliable (e_ops senv) sin sout"
    and "e_b3 senv = c_b3 cenv" "streaming (c_b3 cenv)"
    and "client_stream cenv host port cs" "session_stream senv socket ss"
    and "files cw src = Some (Regular T)" "faults cw = []" "length T < 2 ^ 63"
    and "0 < csize" "csize = opt_chunk_size (c_opts cenv)" "unat csize + 36 \<le> kDefaultMaxPayload"
    and "(length T + unat csize - 1) div unat csize < 2 ^ 32"
    and "chunk_count_of (word_of_nat (length T)) csize = Some count"
    and "m = manifest_of (c_b3 cenv) T csize count rpath"
    and "placeable senv m dest sw" "start_state senv m dest v sw resume rs" "agrees_on m T (received rs) v"
    and "missing rs = Some is" "cin cs = server_bytes m is" "sin ss = client_bytes (c_b3 cenv) m T is"
  shows "\<exists>cs' cw' ss' sw'.
    Client_send cenv host port src rpath cw = (Inr (), Some cs', cw') \<and>
    cout cs' = cout cs @ client_bytes (c_b3 cenv) m T is \<and>
    handle_session senv socket sw = Some (Returned True, ss', sw') \<and>
    sout ss' = sout ss @ server_bytes m is \<and>
    files sw' dest = Some (Regular T)"
proof -
  have d: "describes (c_b3 cenv) m T" unfolding assms(15) by (rule manifest_describes(1) [OF assms(9,10,13,14)])
  have p: "valid_manifest m" "length (encode_manifest m) \<le> kDefaultMaxPayload"
    using assms(16) by (simp_all add: placeable_def)
  have small: "small_manifest m" by (rule manifest_fits_small [OF p])
  note rs = start_state_wf [OF small assms(17)]
  note mf = missing_facts [OF rs(1) assms(19), unfolded rs(2)]
  have "\<forall>i\<in>set is. i < count" using mf(1) assms(15) by simp
  moreover have "length (encode_req_chunks \<lparr>indices = is\<rparr>) \<le> kDefaultMaxPayload"
    using request_fits [OF small] mf(4) by simp
  moreover note cl = Client_send_honest [OF assms(1,4,5,7,9,8), of count m rpath "is"]
  ultimately obtain cs' cw' where c: "Client_send cenv host port src rpath cw = (Inr (), Some cs', cw')"
    "cout cs' = cout cs @ client_bytes (c_b3 cenv) m T is"
    using assms(11,12,14,15,20) d p(2) by auto
  have "transferable senv m dest T sw resume rs"
    using d assms(3,12,15-18) by (auto simp: transferable_def)
  then obtain ss' sw' where s: "handle_session senv socket sw = Some (Returned True, ss', sw')"
    "files sw' dest = Some (Regular T)" "sout ss' = sout ss @ server_bytes m is"
    using handle_session_honest [OF assms(2) _ _ assms(19,6)] assms(3,4,21) by metis
  show ?thesis using c s by blast
qed

theorem end_to_end_witness:
  "\<exists>cs' cw' ss' sw'.
    Client_send demo_client ''localhost'' 9000 ''f'' ''a/f'' demo_source = (Inr (), Some cs', cw') \<and>
    handle_session demo_env (snd cs', []) demo_world = Some (Returned True, ss', sw') \<and>
    snd ss' = server_bytes demo_manifest [0, 1] \<and> files sw' ''/srv/a/f'' = Some (Regular [1, 2, 3])"
proof -
  have "\<exists>cs' cw' ss' sw'.
    Client_send demo_client ''localhost'' 9000 ''f'' ''a/f'' demo_source = (Inr (), Some cs', cw') \<and>
    snd cs' = snd (server_bytes demo_manifest [0, 1], []) @ client_bytes (c_b3 demo_client) demo_manifest [1, 2, 3] [0, 1] \<and>
    handle_session demo_env demo_stream demo_world = Some (Returned True, ss', sw') \<and>
    snd ss' = snd demo_stream @ server_bytes demo_manifest [0, 1] \<and>
    files sw' ''/srv/a/f'' = Some (Regular [1, 2, 3])"
  proof (rule end_to_end [where cin = fst and sin = fst and csize = 2 and count = 2 and rs = demo_state])
    show "chunk_count_of (word_of_nat (length [1 :: u8, 2, 3])) 2 = Some 2" using demo_count by simp
    show "demo_manifest = manifest_of (c_b3 demo_client) [1, 2, 3] 2 2 ''a/f''" using demo_manifest_of by simp
    show "placeable demo_env demo_manifest ''/srv/a/f'' demo_world" by (rule demo_placeable)
    show "start_state demo_env demo_manifest ''/srv/a/f'' [0, 0, 0] demo_world False demo_state" by (rule demo_start)
    show "agrees_on demo_manifest [1, 2, 3] (received demo_state) [0, 0, 0]" by (rule demo_agrees)
    show "missing demo_state = Some [0, 1]" by (rule demo_missing)
    show "client_stream demo_client ''localhost'' 9000 (server_bytes demo_manifest [0, 1], [])" by (rule demo_client_stream)
    show "session_stream demo_env demo_stream demo_stream" by (rule demo_opening(1))
  qed (simp_all add: reliable_pipe streaming_tagged demo_stream_def kDefaultMaxPayload_def)
  then show ?thesis by (auto simp: demo_stream_def)
qed

end
